(* ===== verification/Prelude.thy ===== *)
theory Prelude
  imports Main "HOL-Library.Word" "HOL-Library.Monad_Syntax" "HOL-Library.Signed_Division"
begin

unbundle bit_operations_syntax

text \<open>
  What every component of the development shares: the names of the machine types of the Go
  sources, the reading of Go's fixed-width signed arithmetic over \<^typ>\<open>int\<close>, little-endian
  byte strings (package \<open>encoding/binary\<close>), and the interface \<open>prefix_code\<close> of a
  self-delimiting serialization, which the byte formats of the program implement.
\<close>

section \<open>Machine types\<close>

type_synonym byte = "8 word"
type_synonym bytes = "byte list"
type_synonym u16 = "16 word"
type_synonym u32 = "32 word"
type_synonym u64 = "64 word"

text \<open>
  A signed integer of Go is the word of its width, read by \<^const>\<open>sint\<close> where the code
  compares it; \<open>chainhash.Hash\<close>, an array of 32 bytes, is a byte list of length 32.
\<close>

type_synonym i32 = "32 word"
type_synonym i64 = "64 word"
type_synonym hash = bytes

definition is_hash :: "hash \<Rightarrow> bool" where
  "is_hash h \<longleftrightarrow> length h = 32"

definition zero_hash :: hash where
  "zero_hash = replicate 32 0"

text \<open>
  The collections of the development: \<open>codec\<close> gathers the equations that evaluate an encoder
  followed by its decoder, \<open>bounds\<close> the facts that bound a computed quantity.
\<close>

named_theorems codec
named_theorems bounds

text \<open>\<open>int64\<close> and \<open>int32\<close> results of an arithmetic expression over mathematical integers.\<close>

definition wrap64 :: "int \<Rightarrow> int" where
  "wrap64 x = signed_take_bit 63 x"

definition wrap32 :: "int \<Rightarrow> int" where
  "wrap32 x = signed_take_bit 31 x"

lemma wrap64_id [simp]: "- (2 ^ 63) \<le> x \<Longrightarrow> x < 2 ^ 63 \<Longrightarrow> wrap64 x = x"
  unfolding wrap64_def by (rule signed_take_bit_int_eq_self) simp_all

lemma wrap32_id [simp]: "- (2 ^ 31) \<le> x \<Longrightarrow> x < 2 ^ 31 \<Longrightarrow> wrap32 x = x"
  unfolding wrap32_def by (rule signed_take_bit_int_eq_self) simp_all

lemma wrap64_range [bounds]: "- (2 ^ 63) \<le> wrap64 x \<and> wrap64 x < 2 ^ 63"
  unfolding wrap64_def
  using signed_take_bit_int_greater_eq_minus_exp [of 63 x] signed_take_bit_int_less_exp [of 63 x]
  by simp

text \<open>The slice \<open>xs[i:j]\<close> of a Go slice whose bounds have been checked.\<close>

definition slice :: "nat \<Rightarrow> nat \<Rightarrow> 'a list \<Rightarrow> 'a list" where
  "slice i j xs = take (j - i) (drop i xs)"

lemma length_slice [simp]: "length (slice i j xs) = min (j - i) (length xs - i)"
  by (simp add: slice_def)

section \<open>Results of Go functions\<close>

text \<open>
  A Go function that may panic, or return an error, or return a value. Functions that do not
  panic use \<open>option\<close> or a sum type.
\<close>

datatype ('e, 'a) outcome = Panic | Fail 'e | Ret 'a

primrec obind :: "('e, 'a) outcome \<Rightarrow> ('a \<Rightarrow> ('e, 'b) outcome) \<Rightarrow> ('e, 'b) outcome" where
  "obind Panic f = Panic"
| "obind (Fail e) f = Fail e"
| "obind (Ret x) f = f x"

lemma obind_Ret_iff: "obind m f = Ret y \<longleftrightarrow> (\<exists>x. m = Ret x \<and> f x = Ret y)"
  by (cases m) auto

lemma obind_Panic_iff: "obind m f = Panic \<longleftrightarrow> m = Panic \<or> (\<exists>x. m = Ret x \<and> f x = Panic)"
  by (cases m) auto

section \<open>Division and bits\<close>

lemma int_le_div_iff: "0 < q \<Longrightarrow> m \<le> n div q \<longleftrightarrow> m * q \<le> n" for m n q :: int
proof
  assume q: "0 < q" and "m \<le> n div q"
  then have "m * q \<le> n div q * q" by simp
  also have "\<dots> \<le> n" using q by (simp add: div_mult_mod_eq minus_mod_eq_div_mult [symmetric])
  finally show "m * q \<le> n" .
next
  assume q: "0 < q" and "m * q \<le> n"
  from \<open>m * q \<le> n\<close> q have "m * q div q \<le> n div q" by (rule zdiv_mono1)
  then show "m \<le> n div q" using q by simp
qed

lemma int_div_less_iff: "0 < q \<Longrightarrow> n div q < m \<longleftrightarrow> n < m * q" for m n q :: int
  using int_le_div_iff [of q m n] by linarith

lemma uint_drop_bit: "uint (drop_bit k w) = uint w div 2 ^ k"
  by (metis drop_bit_eq_div of_nat_drop_bit uint_nat unat_drop_bit_eq)

lemma bit_word_of_nat: "bit (word_of_nat m :: 'a::len word) i \<longleftrightarrow> i < LENGTH('a) \<and> bit m i"
  by transfer (simp add: bit_take_bit_iff bit_of_nat_iff)

lemma power_256: "(256::int) ^ k = 2 ^ (8 * k)"
  by (simp add: power_mult)

lemma unat_lt [bounds]: "unat w < 2 ^ LENGTH('a)" for w :: "'a::len word"
  by (rule unsigned_less)

lemma unat_ucast_up:
  assumes "LENGTH('b::len) \<le> LENGTH('a::len)"
  shows "unat (ucast (w :: 'b word) :: 'a word) = unat w"
proof -
  have "uint (ucast w :: 'a word) = uint w"
    by (rule uint_up_ucast) (use assms in \<open>simp add: is_up\<close>)
  then show ?thesis by (simp only: unat_eq_nat_uint)
qed

lemma unat_ucast_small: "unat w < 2 ^ LENGTH('b::len) \<Longrightarrow> unat (ucast w :: 'b word) = unat w"
  unfolding unsigned_ucast_eq by (rule take_bit_nat_eq_self)

lemma ucast_ucast_small:
  assumes "unat w < 2 ^ LENGTH('b::len)"
  shows "ucast (ucast w :: 'b word) = w"
  unfolding word_unat_eq_iff
  by (simp only: unat_ucast_small [OF assms] unat_lt unat_ucast_small [where w = "ucast w :: 'b word"])

lemma sint_cases:
  "sint w = (if 2 * unat w < 2 ^ LENGTH('a) then int (unat w) else int (unat w) - 2 ^ LENGTH('a))"
  for w :: "'a::len word"
proof -
  obtain n where n: "LENGTH('a) = Suc n" by (metis gr0_implies_Suc len_gt_0)
  have u: "uint w < 2 * 2 ^ n" using uint_lt2p [of w] by (simp add: n)
  have s: "sint w = (uint w + 2 ^ n) mod (2 * 2 ^ n) - 2 ^ n"
    by (simp add: sint_uint n signed_take_bit_eq_take_bit_shift take_bit_eq_mod)
  have c: "uint w < 2 ^ n \<longleftrightarrow> 2 * unat w < 2 ^ LENGTH('a)"
  proof -
    have "uint w < 2 ^ n \<longleftrightarrow> unat w < 2 ^ n"
      unfolding uint_nat by (rule of_nat_less_numeral_power_cancel_iff)
    then show ?thesis by (simp add: n)
  qed
  show ?thesis
  proof (cases "uint w < 2 ^ n")
    case True
    then have "(uint w + 2 ^ n) mod (2 * 2 ^ n) = uint w + 2 ^ n"
      by (intro mod_pos_pos_trivial) auto
    with True c s show ?thesis by simp
  next
    case False
    have "(uint w + 2 ^ n) mod (2 * 2 ^ n) = (uint w + 2 ^ n - 2 * 2 ^ n) mod (2 * 2 ^ n)"
      by (rule minus_mod_self2 [symmetric])
    also have "\<dots> = uint w - 2 ^ n"
      using False u by (subst mod_pos_pos_trivial) auto
    finally show ?thesis using False c s by (simp add: n)
  qed
qed

section \<open>Little-endian byte strings\<close>

primrec le_bytes :: "nat \<Rightarrow> 'a::len word \<Rightarrow> bytes" where
  "le_bytes 0 w = []"
| "le_bytes (Suc n) w = ucast w # le_bytes n (drop_bit 8 w)"

primrec le_word :: "bytes \<Rightarrow> 'a::len word" where
  "le_word [] = 0"
| "le_word (b # bs) = ucast b OR push_bit 8 (le_word bs)"

lemma length_le_bytes [simp]: "length (le_bytes n w) = n"
  by (induction n arbitrary: w) auto

lemma bit_le_word:
  "bit (le_word bs :: 'a::len word) i \<longleftrightarrow>
     i < LENGTH('a) \<and> i < 8 * length bs \<and> bit (bs ! (i div 8)) (i mod 8)"
proof (induction bs arbitrary: i)
  case Nil
  then show ?case by simp
next
  case (Cons b bs)
  show ?case
  proof (cases "i < 8")
    case True
    then show ?thesis
      by (auto simp: bit_simps Cons.IH)
  next
    case False
    have e: "i div 8 = Suc ((i - 8) div 8)" "(i - 8) mod 8 = i mod 8"
      using False by (simp_all add: div_if mod_if)
    show ?thesis using False
      by (auto simp: bit_simps Cons.IH e dest: bit_imp_le_length)
  qed
qed

lemma nth_le_bytes: "i < n \<Longrightarrow> le_bytes n w ! i = ucast (drop_bit (8 * i) w)"
proof (induction n arbitrary: w i)
  case 0
  then show ?case by simp
next
  case (Suc n)
  then show ?case by (cases i) (simp_all add: ac_simps)
qed

lemma le_word_le_bytes [codec]:
  "LENGTH('a::len) \<le> 8 * n \<Longrightarrow> le_word (le_bytes n (w :: 'a word)) = w"
proof (rule bit_word_eqI)
  fix i assume n: "LENGTH('a) \<le> 8 * n" and i: "i < LENGTH('a)"
  then have "i div 8 < n" by (simp add: less_mult_imp_div_less mult.commute)
  with n i show "bit (le_word (le_bytes n w) :: 'a word) i = bit w i"
    by (simp add: bit_le_word nth_le_bytes bit_simps)
qed

lemma le_bytes_le_word:
  assumes "8 * length bs \<le> LENGTH('a::len)"
  shows "le_bytes (length bs) (le_word bs :: 'a word) = bs"
proof (rule nth_equalityI)
  fix i assume "i < length (le_bytes (length bs) (le_word bs :: 'a word))"
  then have i: "i < length bs" by simp
  show "le_bytes (length bs) (le_word bs :: 'a word) ! i = bs ! i"
    by (rule bit_word_eqI) (use i assms in \<open>auto simp: nth_le_bytes bit_simps bit_le_word\<close>)
qed simp

lemma le_bytes_inject [simp]:
  "LENGTH('a::len) \<le> 8 * n \<Longrightarrow> le_bytes n v = le_bytes n w \<longleftrightarrow> v = (w :: 'a word)"
  by (metis le_word_le_bytes)

lemma le_word_ucast:
  assumes "8 * length bs \<le> LENGTH('b::len)" "LENGTH('b) \<le> LENGTH('a::len)"
  shows "(le_word bs :: 'a word) = ucast (le_word bs :: 'b word)"
  by (rule bit_word_eqI) (use assms in \<open>auto simp: bit_le_word bit_simps\<close>)

section \<open>Self-delimiting codes\<close>

text \<open>
  The interface a stored format offers to the code that concatenates it with other fields:
  whatever follows, the encoding of a value determines the value and where it ends.
\<close>

locale prefix_code =
  fixes enc :: "'a \<Rightarrow> bytes"
    and ok :: "'a \<Rightarrow> bool"
  assumes enc_split: "ok x \<Longrightarrow> ok y \<Longrightarrow> enc x @ r = enc y @ s \<Longrightarrow> x = y"
begin

lemma enc_append_eq:
  assumes "ok x" "ok y"
  shows "enc x @ r = enc y @ s \<longleftrightarrow> x = y \<and> r = s"
proof
  assume e: "enc x @ r = enc y @ s"
  with assms have "x = y" by (rule enc_split)
  with e show "x = y \<and> r = s" by simp
qed simp

lemma enc_inj: "ok x \<Longrightarrow> ok y \<Longrightarrow> enc x = enc y \<longleftrightarrow> x = y"
  using enc_split [of x y "[]" "[]"] by auto

lemma concat_enc_inj:
  "length xs = length ys \<Longrightarrow> list_all ok xs \<Longrightarrow> list_all ok ys \<Longrightarrow>
   concat (map enc xs) @ r = concat (map enc ys) @ s \<Longrightarrow> xs = ys \<and> r = s"
  by (induction xs ys rule: list_induct2) (auto simp: enc_append_eq)

end

text \<open>Fixed-width little-endian words are such a code.\<close>

interpretation u32_code: prefix_code "le_bytes 4 :: u32 \<Rightarrow> bytes" "\<lambda>_. True"
  by unfold_locales simp

end
