(* ===== verification/Workmath.thy ===== *)
theory Workmath
  imports Prelude
begin

text \<open>
  Package \<open>blockchain/internal/workmath\<close>: difficulty targets as 256-bit hashes, as
  arbitrary-precision integers (\<open>math/big\<close>, here \<^typ>\<open>int\<close>) and in the compact
  32-bit form of a block header, and the work a target stands for. The lemmas relate the two
  forms: what \<open>CompactToBig\<close> reads back from \<open>BigToCompact\<close> is the number with all but
  its leading bytes cut off, and packing it again changes nothing.
\<close>

section \<open>Definitions\<close>

text \<open>\<open>big.Int.SetBytes\<close>: an unsigned big-endian number.\<close>

definition SetBytes :: "bytes \<Rightarrow> int" where
  "SetBytes bs = foldl (\<lambda>acc b. acc * 256 + uint b) 0 bs"

text \<open>The loop of \<open>HashToBig\<close> swaps the bytes end for end in a copy of the hash.\<close>

definition HashToBig :: "hash \<Rightarrow> int" where
  "HashToBig h = SetBytes (rev h)"

definition CompactToBig :: "u32 \<Rightarrow> int" where
  "CompactToBig compact =
     (let mantissa = compact AND 0x007fffff;
          isNegative = (compact AND 0x00800000 \<noteq> 0);
          exponent = unat (drop_bit 24 compact);
          bn = (if exponent \<le> 3
                then uint (drop_bit (8 * (3 - exponent)) mantissa)
                else uint mantissa * 2 ^ (8 * (exponent - 3)))
      in if isNegative then - bn else bn)"

text \<open>\<open>len(n.Bytes())\<close>: how many bytes the absolute value needs, none for zero.\<close>

fun nat_byte_len :: "nat \<Rightarrow> nat" where
  "nat_byte_len n = (if n = 0 then 0 else Suc (nat_byte_len (n div 256)))"

definition byte_len :: "int \<Rightarrow> nat" where
  "byte_len n = nat_byte_len (nat \<bar>n\<bar>)"

text \<open>
  \<open>uint32(n.Bits()[0])\<close> is the low word of the absolute value; \<open>big.Int.Rsh\<close> of a
  negative number rounds towards minus infinity, as \<open>div\<close> does.
\<close>

definition BigToCompact :: "int \<Rightarrow> u32" where
  "BigToCompact n =
     (if n = 0 then 0 else
      let exponent = byte_len n;
          mantissa = (if exponent \<le> 3
                      then push_bit (8 * (3 - exponent)) (word_of_int \<bar>n\<bar> :: u32)
                      else word_of_int \<bar>n div 2 ^ (8 * (exponent - 3))\<bar>);
          (mantissa, exponent) =
            (if mantissa AND 0x00800000 \<noteq> 0 then (drop_bit 8 mantissa, exponent + 1)
             else (mantissa, exponent));
          compact = word_of_nat (exponent * 2 ^ 24) OR mantissa
      in if n < 0 then compact OR 0x00800000 else compact)"

definition oneLsh256 :: int where
  "oneLsh256 = 2 ^ 256"

definition CalcWork :: "u32 \<Rightarrow> int" where
  "CalcWork bits =
     (let difficultyNum = CompactToBig bits
      in if difficultyNum \<le> 0 then 0 else oneLsh256 div (difficultyNum + 1))"

text \<open>
  \<open>CalcWorkInto\<close> computes into a recycled number, whose old value is the second argument.
\<close>

definition CalcWorkInto :: "u32 \<Rightarrow> int \<Rightarrow> int" where
  "CalcWorkInto bits result =
     (let difficultyNum = CompactToBig bits
      in if difficultyNum \<le> 0 then 0 else oneLsh256 div (difficultyNum + 1))"

text \<open>
  What the packed form of a positive number holds: its three leading bytes, the exponent and the
  mantissa, and the number with the bytes below the mantissa cut off.
\<close>

definition digits3 :: "int \<Rightarrow> int" where
  "digits3 n = (if byte_len n \<le> 3 then n * 2 ^ (8 * (3 - byte_len n))
                else n div 2 ^ (8 * (byte_len n - 3)))"

definition compact_exp :: "int \<Rightarrow> nat" where
  "compact_exp n = (if digits3 n < 2 ^ 23 then byte_len n else byte_len n + 1)"

definition compact_man :: "int \<Rightarrow> int" where
  "compact_man n = (if digits3 n < 2 ^ 23 then digits3 n else digits3 n div 256)"

definition compact_trunc :: "int \<Rightarrow> int" where
  "compact_trunc n = n div 256 ^ (compact_exp n - 3) * 256 ^ (compact_exp n - 3)"

section \<open>The number of bytes\<close>

declare nat_byte_len.simps [simp del]

lemma nat_byte_len_0 [simp]: "nat_byte_len 0 = 0"
  by (subst nat_byte_len.simps) simp

lemma nat_byte_len_pos: "0 < n \<Longrightarrow> nat_byte_len n = Suc (nat_byte_len (n div 256))"
  by (subst nat_byte_len.simps) simp

lemma nat_byte_len_bounds:
  "0 < n \<Longrightarrow> 256 ^ (nat_byte_len n - 1) \<le> n \<and> n < 256 ^ nat_byte_len n"
proof (induction n rule: nat_byte_len.induct)
  case (1 n)
  show ?case
  proof (cases "n < 256")
    case True
    with "1.prems" show ?thesis by (simp add: nat_byte_len_pos)
  next
    case False
    then have pos: "0 < n div 256" by (simp add: div_greater_zero_iff)
    with "1.IH" "1.prems"
    have IH: "256 ^ (nat_byte_len (n div 256) - 1) \<le> n div 256"
             "n div 256 < 256 ^ nat_byte_len (n div 256)" by auto
    obtain k where k: "nat_byte_len (n div 256) = Suc k"
      using pos nat_byte_len_pos by blast
    have "256 ^ k * 256 \<le> n" using IH(1) k by (simp add: less_eq_div_iff_mult_less_eq)
    moreover have "n < 256 ^ Suc k * 256" using IH(2) k by (simp add: div_less_iff_less_mult)
    ultimately show ?thesis using "1.prems" k by (simp add: nat_byte_len_pos mult.commute)
  qed
qed

lemma byte_len_bounds:
  assumes "0 < n"
  shows "256 ^ (byte_len n - 1) \<le> n" "n < 256 ^ byte_len n"
proof -
  have "256 ^ (byte_len n - 1) \<le> nat n \<and> nat n < 256 ^ byte_len n"
    using nat_byte_len_bounds [of "nat n"] assms by (simp add: byte_len_def)
  then have "int (256 ^ (byte_len n - 1)) \<le> int (nat n)" "int (nat n) < int (256 ^ byte_len n)"
    by linarith+
  with assms show "256 ^ (byte_len n - 1) \<le> n" "n < 256 ^ byte_len n" by auto
qed

lemma byte_len_pos: "0 < n \<Longrightarrow> 0 < byte_len n"
  by (simp add: byte_len_def nat_byte_len_pos)

lemma byte_len_unique:
  assumes "256 ^ k \<le> n" "n < 256 ^ Suc k"
  shows "byte_len n = Suc k"
proof -
  have n: "0 < n" using assms(1) by (rule less_le_trans [rotated]) simp
  have "(256::int) ^ (byte_len n - 1) < 256 ^ Suc k" "(256::int) ^ k < 256 ^ byte_len n"
    using byte_len_bounds [OF n] assms by linarith+
  then have "byte_len n - 1 < Suc k" "k < byte_len n"
    by (simp_all only: power_strict_increasing_iff)
  then show ?thesis by simp
qed

section \<open>Packing and unpacking\<close>

lemma digits3_bounds:
  assumes "0 < n"
  shows "2 ^ 16 \<le> digits3 n" "digits3 n < 2 ^ 24"
proof -
  let ?L = "byte_len n"
  note b = byte_len_bounds [OF assms] byte_len_pos [OF assms]
  have "2 ^ 16 \<le> digits3 n \<and> digits3 n < 2 ^ 24"
  proof (cases "?L \<le> 3")
    case True
    have "(256::int) ^ (?L - 1) * 256 ^ (3 - ?L) = 256 ^ 2"
      "(256::int) ^ ?L * 256 ^ (3 - ?L) = 256 ^ 3"
      using True b(3) by (simp_all flip: power_add)
    moreover have "256 ^ (?L - 1) * 256 ^ (3 - ?L) \<le> n * 256 ^ (3 - ?L)"
      "n * 256 ^ (3 - ?L) < 256 ^ ?L * 256 ^ (3 - ?L)"
      using b by simp_all
    ultimately show ?thesis using True by (simp add: digits3_def power_256)
  next
    case False
    then obtain k where L: "?L = k + 3" by (metis add.commute le_Suc_ex nat_le_linear)
    have "256 ^ 2 * 256 ^ k \<le> n" "n < 256 ^ 3 * 256 ^ k"
      using b by (simp_all add: L power_add mult.commute)
    then have "256 ^ 2 \<le> n div 256 ^ k" "n div 256 ^ k < 256 ^ 3"
      by (simp_all add: int_le_div_iff int_div_less_iff)
    then show ?thesis using False by (simp add: digits3_def L power_256)
  qed
  then show "2 ^ 16 \<le> digits3 n" "digits3 n < 2 ^ 24" by simp_all
qed

lemma bit23_iff:
  assumes "0 \<le> m" "m < 2 ^ 24"
  shows "(word_of_int m :: u32) AND 0x00800000 \<noteq> 0 \<longleftrightarrow> 2 ^ 23 \<le> m"
proof -
  have "(word_of_int m :: u32) AND 2 ^ 23 = 0 \<longleftrightarrow> \<not> bit (word_of_int m :: u32) 23"
    by (rule and_exp_eq_0_iff_not_bit)
  also have "bit (word_of_int m :: u32) 23 \<longleftrightarrow> odd (m div 2 ^ 23)"
    by (simp add: bit_word_of_int_iff) (simp add: bit_iff_odd)
  also have "m div 2 ^ 23 = (if 2 ^ 23 \<le> m then 1 else 0)"
    using assms int_div_pos_eq [of m "2 ^ 23" 1 "m - 2 ^ 23"] by auto
  finally show ?thesis by simp
qed

lemma pack_compact:
  assumes "m < 2 ^ 24"
  shows "(word_of_nat (e * 2 ^ 24) :: u32) OR word_of_nat m = word_of_nat (e * 2 ^ 24 + m)"
proof -
  have "(word_of_nat (e * 2 ^ 24) :: u32) AND word_of_nat m = 0"
  proof (rule bit_word_eqI)
    fix i assume "i < LENGTH(32)"
    have "\<not> (bit (e * 2 ^ 24) i \<and> bit m i)"
    proof (cases "i < 24")
      case True
      then have "\<not> bit (push_bit 24 e) i" by (simp add: bit_push_bit_iff)
      then show ?thesis by (simp add: push_bit_eq_mult)
    next
      case False
      then have "m < 2 ^ i" using assms by (meson less_le_trans linorder_not_less one_le_numeral power_increasing)
      then show ?thesis by (simp add: bit_iff_odd)
    qed
    then show "bit ((word_of_nat (e * 2 ^ 24) :: u32) AND word_of_nat m) i = bit (0 :: u32) i"
      by (auto simp: bit_and_iff bit_word_of_nat simp del: of_nat_mult)
  qed
  then show ?thesis by (simp add: disjunctive_add_eq_or [symmetric])
qed

lemma CompactToBig_pack:
  assumes "e < 256" "m < 2 ^ 23"
  shows "CompactToBig (word_of_nat (e * 2 ^ 24 + m)) =
     (if e \<le> 3 then int m div 2 ^ (8 * (3 - e)) else int m * 2 ^ (8 * (e - 3)))"
proof -
  define c :: u32 where "c = word_of_nat (e * 2 ^ 24 + m)"
  have "e * 2 ^ 24 + m < 2 ^ 32" using assms by simp
  then have n: "unat c = e * 2 ^ 24 + m" unfolding c_def by (simp only: unat_of_nat) simp
  then have u: "uint c = int m + int e * 2 * 2 ^ 23" by (simp only: uint_nat) simp
  have "uint (c AND mask 23) = (int m + int e * 2 * 2 ^ 23) mod 2 ^ 23"
    by (simp only: and_mask_mod_2p uint_word_of_int u) simp
  also have "\<dots> = int m mod 2 ^ 23" by (rule mod_mult_self1)
  also have "\<dots> = int m" using assms by simp
  finally have m: "uint (c AND 0x007fffff) = int m" by (simp add: mask_eq_exp_minus_1)
  have "unat (drop_bit 24 c) = drop_bit 24 (unat c)" by (rule unat_drop_bit_eq)
  then have e: "unat (drop_bit 24 c) = e" using assms by (simp add: n drop_bit_eq_div)
  have "(e * 2 ^ 24 + m) div 2 ^ 23 = 2 * e" using assms by simp
  then have "\<not> bit (unat c) 23" unfolding n by (simp add: bit_iff_odd)
  then have "\<not> bit c 23" by (simp add: bit_unsigned_iff)
  then have s: "c AND 0x00800000 = 0" using and_exp_eq_0_iff_not_bit [of c 23] by simp
  have d: "uint (drop_bit k (c AND 0x007fffff)) = int m div 2 ^ k" for k
    by (simp only: uint_drop_bit m)
  show ?thesis
    by (simp only: c_def [symmetric] CompactToBig_def Let_def m e s d not_False_eq_True if_False simp_thms)
qed


lemma compact_man_bounds:
  assumes "0 < n"
  shows "2 ^ 15 \<le> compact_man n" "compact_man n < 2 ^ 23"
  using digits3_bounds [OF assms] by (simp_all add: compact_man_def int_le_div_iff int_div_less_iff)

lemma BigToCompact_pos:
  assumes "0 < n"
  shows "BigToCompact n = word_of_nat (compact_exp n * 2 ^ 24 + nat (compact_man n))"
proof -
  note b = digits3_bounds [OF assms] and cb = compact_man_bounds [OF assms]
  define w :: u32 where "w = word_of_int (digits3 n)"
  have w0: "(if byte_len n \<le> 3
             then push_bit (8 * (3 - byte_len n)) (word_of_int \<bar>n\<bar> :: u32)
             else word_of_int \<bar>n div 2 ^ (8 * (byte_len n - 3))\<bar>) = w"
    using assms by (simp add: w_def digits3_def push_bit_eq_mult pos_imp_zdiv_nonneg_iff)
  have s: "w AND 0x00800000 \<noteq> 0 \<longleftrightarrow> \<not> digits3 n < 2 ^ 23"
    unfolding w_def using bit23_iff [of "digits3 n"] b by (simp add: not_less)
  have d: "drop_bit 8 w = word_of_int (digits3 n div 256)"
    unfolding w_def using b
    by (simp add: word_uint_eq_iff uint_drop_bit uint_word_of_int)
  have m: "word_of_int k = (word_of_nat (nat k) :: u32)" if "0 \<le> k" for k
    using that by simp
  have "nat (compact_man n) < 2 ^ 24" using cb by simp
  note pack = pack_compact [OF this, of "compact_exp n"]
  show ?thesis
  proof (cases "digits3 n < 2 ^ 23")
    case True
    with s have "w AND 0x00800000 = 0" by simp
    moreover have "w = word_of_nat (nat (digits3 n))" unfolding w_def by (rule m) (use b in simp)
    ultimately show ?thesis
      using assms True pack by (simp only: BigToCompact_def w0 Let_def) (simp add: compact_exp_def compact_man_def)
  next
    case False
    with s have "w AND 0x00800000 \<noteq> 0" by simp
    moreover have "drop_bit 8 w = word_of_nat (nat (digits3 n div 256))"
      unfolding d by (rule m) (use b in \<open>simp add: pos_imp_zdiv_nonneg_iff\<close>)
    ultimately show ?thesis
      using assms False pack by (simp only: BigToCompact_def w0 Let_def) (simp add: compact_exp_def compact_man_def)
  qed
qed

lemma compact_exp_le: "0 < n \<Longrightarrow> n < 256 ^ k \<Longrightarrow> compact_exp n \<le> k + 1"
proof -
  assume n: "0 < n" "n < 256 ^ k"
  have "(256::int) ^ (byte_len n - 1) < 256 ^ k" using byte_len_bounds(1) [OF n(1)] n(2) by linarith
  then have "byte_len n - 1 < k" by (simp only: power_strict_increasing_iff)
  then have "byte_len n \<le> k" by simp
  then show ?thesis by (simp add: compact_exp_def)
qed

text \<open>The exponent says how many low bytes of the number are cut off, the mantissa is the rest.\<close>

lemma compact_man_eq:
  assumes "0 < n"
  shows "3 < compact_exp n \<Longrightarrow> compact_man n = n div 256 ^ (compact_exp n - 3)"
    and "compact_exp n \<le> 3 \<Longrightarrow> compact_man n = n * 256 ^ (3 - compact_exp n)"
proof -
  have L: "0 < byte_len n" by (rule byte_len_pos [OF assms])
  show "compact_man n = n div 256 ^ (compact_exp n - 3)" if "3 < compact_exp n"
  proof (cases "digits3 n < 2 ^ 23")
    case True
    with that show ?thesis by (simp add: compact_exp_def compact_man_def digits3_def power_256)
  next
    case False
    with that have "3 \<le> byte_len n" by (simp add: compact_exp_def)
    then obtain k where "byte_len n = k + 3" by (metis le_Suc_ex add.commute)
    with False show ?thesis
      by (simp add: compact_exp_def compact_man_def digits3_def power_256 [symmetric] zdiv_zmult2_eq
          mult.commute [of 256])
  qed
  show "compact_man n = n * 256 ^ (3 - compact_exp n)" if "compact_exp n \<le> 3"
  proof (cases "digits3 n < 2 ^ 23")
    case True
    with that show ?thesis by (simp add: compact_exp_def compact_man_def digits3_def power_256)
  next
    case False
    with that have "3 - byte_len n = Suc (3 - (byte_len n + 1))" by (simp add: compact_exp_def)
    with False that show ?thesis
      by (simp add: compact_exp_def compact_man_def digits3_def power_256 power_add)
  qed
qed

lemma CompactToBig_BigToCompact:
  assumes "0 < n" "n < 256 ^ 254"
  shows "CompactToBig (BigToCompact n) = compact_trunc n"
proof -
  note cb = compact_man_bounds [OF assms(1)] and ce = compact_exp_le [OF assms]
  have "CompactToBig (BigToCompact n) =
     (if compact_exp n \<le> 3 then compact_man n div 2 ^ (8 * (3 - compact_exp n))
      else compact_man n * 2 ^ (8 * (compact_exp n - 3)))"
    using CompactToBig_pack [of "compact_exp n" "nat (compact_man n)"] cb ce
    by (simp add: BigToCompact_pos [OF assms(1)])
  also have "\<dots> = compact_trunc n"
    using compact_man_eq [OF assms(1)] by (auto simp: compact_trunc_def power_256 [symmetric] not_le)
  finally show ?thesis .
qed

lemma compact_trunc_bounds:
  assumes "0 < n"
  shows "0 < compact_trunc n" "compact_trunc n \<le> n" "(n - compact_trunc n) * 2 ^ 15 \<le> n"
proof -
  define q :: int where "q = 256 ^ (compact_exp n - 3)"
  have q: "0 < q" "0 \<le> n mod q" "n mod q < q" by (simp_all add: q_def)
  have eq: "compact_trunc n = n - n mod q" by (simp add: compact_trunc_def q_def minus_mod_eq_div_mult)
  have big: "32768 * q \<le> n \<or> q = 1"
  proof (cases "3 < compact_exp n")
    case True
    with compact_man_bounds(1) [OF assms] show ?thesis
      by (simp add: q_def compact_man_eq(1) [OF assms] int_le_div_iff)
  qed (simp add: q_def)
  then have "n mod q * 32768 < n"
    using assms q by (elim disjE) (linarith, simp)
  with q show "0 < compact_trunc n" "compact_trunc n \<le> n" "(n - compact_trunc n) * 2 ^ 15 \<le> n"
    unfolding eq by simp_all
qed

lemma compact_exp_unique:
  assumes n: "0 < n" and e: "3 < e" "2 ^ 15 \<le> n div 256 ^ (e - 3)" "n div 256 ^ (e - 3) < 2 ^ 23"
  shows "compact_exp n = e"
proof -
  have step: False
    if "e1 < e2" "2 ^ 15 * 256 ^ (e2 - 3) \<le> n" "n < 2 ^ 23 * 256 ^ (e1 - 3)" "3 < e2" for e1 e2 :: nat
  proof -
    have "(256::int) ^ Suc (e1 - 3) \<le> 256 ^ (e2 - 3)"
      by (rule power_increasing) (use that in simp_all)
    with that show False by simp
  qed
  have hi: "n < 2 ^ 23 * 256 ^ (compact_exp n - 3)"
  proof (cases "3 < compact_exp n")
    case True
    then show ?thesis using compact_man_bounds(2) [OF n] by (simp add: compact_man_eq [OF n] int_div_less_iff)
  next
    case False
    have "n * 1 \<le> n * 256 ^ (3 - compact_exp n)" using n by (intro mult_left_mono) simp_all
    with False show ?thesis using compact_man_bounds(2) [OF n] by (simp add: compact_man_eq [OF n])
  qed
  have lo: "2 ^ 15 * 256 ^ (compact_exp n - 3) \<le> n" if "3 < compact_exp n"
    using compact_man_bounds(1) [OF n] that by (simp add: compact_man_eq [OF n] int_le_div_iff)
  have e': "2 ^ 15 * 256 ^ (e - 3) \<le> n" "n < 2 ^ 23 * 256 ^ (e - 3)"
    using e by (simp_all add: int_le_div_iff int_div_less_iff)
  show ?thesis
    using step [of "compact_exp n" e] step [of e "compact_exp n"] hi lo e' e(1)
    by (cases "compact_exp n" e rule: linorder_cases) auto
qed

lemma BigToCompact_trunc:
  assumes "0 < n"
  shows "BigToCompact (compact_trunc n) = BigToCompact n"
proof (cases "3 < compact_exp n")
  case True
  let ?e = "compact_exp n"
  have d: "compact_trunc n div 256 ^ (?e - 3) = n div 256 ^ (?e - 3)" by (simp add: compact_trunc_def)
  note man = compact_man_eq(1) [OF assms True] and pos = compact_trunc_bounds(1) [OF assms]
  have e: "compact_exp (compact_trunc n) = ?e"
    by (rule compact_exp_unique [OF pos True])
      (use compact_man_bounds [OF assms] in \<open>simp_all only: d man\<close>)
  then have "compact_man (compact_trunc n) = compact_man n"
    using compact_man_eq(1) [OF pos] True d man by simp
  with e show ?thesis by (simp only: BigToCompact_pos [OF pos] BigToCompact_pos [OF assms])
qed (simp add: compact_trunc_def)

lemma BigToCompact_0 [simp]: "BigToCompact 0 = 0"
  by (simp add: BigToCompact_def)

lemma CompactToBig_0 [simp]: "CompactToBig 0 = 0"
  by (simp add: CompactToBig_def)

lemma compact_trunc_small: "0 < n \<Longrightarrow> n < 2 ^ 23 \<Longrightarrow> compact_trunc n = n"
proof (cases "3 < compact_exp n")
  case True
  assume n: "0 < n" "n < 2 ^ 23"
  have "(256::int) ^ 1 \<le> 256 ^ (compact_exp n - 3)" by (rule power_increasing) (use True in simp_all)
  then have "2 ^ 23 \<le> 2 ^ 15 * (256::int) ^ (compact_exp n - 3)" by simp
  also have "\<dots> \<le> n"
    using compact_man_bounds(1) [OF n(1)] True by (simp add: compact_man_eq [OF n(1)] int_le_div_iff)
  finally show ?thesis using n by simp
qed (simp add: compact_trunc_def)

section \<open>Properties\<close>

text \<open>
  C40: reading back what \<open>BigToCompact\<close> packs never exceeds the number, loses less than one part
  in \<open>2\<^sup>1\<^sup>5\<close> of it, loses nothing of a number below \<open>2\<^sup>2\<^sup>3\<close>, and packs to the same
  32 bits again, for every target the exponent byte can express.
\<close>

theorem compact_roundtrip:
  assumes "0 \<le> n" "n < 2 ^ 2032"
  shows "CompactToBig (BigToCompact n) \<le> n
    \<and> (n - CompactToBig (BigToCompact n)) * 2 ^ 15 \<le> n
    \<and> (n < 2 ^ 23 \<longrightarrow> CompactToBig (BigToCompact n) = n)
    \<and> BigToCompact (CompactToBig (BigToCompact n)) = BigToCompact n"
proof -
  have "(2::int) ^ 2032 = 256 ^ 254" by (simp only: power_256) simp
  then have eq: "CompactToBig (BigToCompact n) = compact_trunc n" if "0 < n"
    using CompactToBig_BigToCompact [OF that] assms(2) by simp
  consider "n = 0" | "0 < n" using assms(1) by linarith
  then show ?thesis
  proof cases
    case 2
    show ?thesis
      unfolding eq [OF 2]
      using compact_trunc_bounds [OF 2] BigToCompact_trunc [OF 2] compact_trunc_small [OF 2] by blast
  qed simp
qed

theorem compact_roundtrip_witness:
  "(0::int) \<le> 0x123456 \<and> (0x123456::int) < 2 ^ 2032
   \<and> CompactToBig (BigToCompact 0x123456) = 0x123456"
proof -
  have h: "(0::int) \<le> 0x123456" "(0x123456::int) < 2 ^ 2032" by simp_all
  show ?thesis using h compact_roundtrip [OF h] by (simp only: simp_thms) simp
qed

text \<open>
  An easier target (a larger number) never stands for more work, and every target below
  \<open>2\<^sup>2\<^sup>5\<^sup>6\<close> stands for some work, at most \<open>2\<^sup>2\<^sup>5\<^sup>5\<close>: the work sums of a chain grow with every block.
\<close>

theorem CalcWork_order:
  assumes "0 < CompactToBig a" "CompactToBig a \<le> CompactToBig b" "CompactToBig b < 2 ^ 256"
  shows "0 < CalcWork b \<and> CalcWork b \<le> CalcWork a \<and> CalcWork a \<le> 2 ^ 255"
proof -
  have work: "CalcWork c = 2 ^ 256 div (CompactToBig c + 1)" if "0 < CompactToBig c" for c
    using that by (simp add: CalcWork_def oneLsh256_def Let_def)
  have b: "0 < CompactToBig b" using assms by linarith
  have "1 * (CompactToBig b + 1) \<le> 2 ^ 256" using assms(3) by simp
  then have "1 \<le> CalcWork b" using b by (simp only: work int_le_div_iff)
  moreover have "CalcWork b \<le> CalcWork a"
    unfolding work [OF b] work [OF assms(1)] by (rule zdiv_mono2) (use assms in simp_all)
  moreover have "CalcWork a \<le> 2 ^ 256 div 2"
    unfolding work [OF assms(1)] by (rule zdiv_mono2) (use assms in simp_all)
  ultimately show ?thesis by simp
qed

theorem CalcWork_order_witness:
  "0 < CompactToBig 0x1c00ffff \<and> 0 < CalcWork 0x1d00ffff
   \<and> CalcWork 0x1d00ffff \<le> CalcWork 0x1c00ffff \<and> CalcWork 0x1c00ffff \<le> 2 ^ 255"
proof -
  have h: "0 < CompactToBig 0x1c00ffff" "CompactToBig 0x1c00ffff \<le> CompactToBig 0x1d00ffff"
    "CompactToBig 0x1d00ffff < 2 ^ 256" by (simp_all add: CompactToBig_def)
  show ?thesis using h(1) CalcWork_order [OF h] by blast
qed
text \<open>
  A negative number is shifted towards minus infinity, so the carry can leave the three mantissa
  bytes: the packed form of \<open>-0xffffffff\<close> reads back as zero.
\<close>

lemma BigToCompact_negative_carry:
  "BigToCompact (- 0xffffffff) = 0x05800000 \<and> CompactToBig 0x05800000 = 0"
  by (simp add: BigToCompact_def CompactToBig_def byte_len_def nat_byte_len.simps)

end
