(* ===== verification/Script_Tokenizer.thy ===== *)
theory Script_Tokenizer
  imports Prelude
begin

text \<open>
  The script tokenizer of \<open>txscript/tokenizer.go\<close> and the length column of the opcode table
  (\<open>txscript/opcode.go\<close>). A slice that Go distinguishes as \<open>nil\<close> is \<^const>\<open>None\<close>. Offsets are
  natural numbers: the \<open>int32\<close> conversions of the code are exact for scripts shorter than
  \<open>2\<^sup>3\<^sup>1\<close> bytes, and a message of the wire protocol is at most 32 MiB. The length that
  \<open>OP_PUSHDATA4\<close> reads is kept at its width, because the code rejects it when it is negative.

  The lemmas relate the stateful tokenizer to \<open>tokens\<close>, a recursive reading of the remaining bytes,
  so that every loop of the package over a tokenizer is a fold over \<open>tokens\<close>.
\<close>

section \<open>Opcodes\<close>

abbreviation (input) OP_0 :: byte where "OP_0 \<equiv> 0x00"
abbreviation (input) OP_DATA_1 :: byte where "OP_DATA_1 \<equiv> 0x01"
abbreviation (input) OP_DATA_2 :: byte where "OP_DATA_2 \<equiv> 0x02"
abbreviation (input) OP_DATA_20 :: byte where "OP_DATA_20 \<equiv> 0x14"
abbreviation (input) OP_DATA_32 :: byte where "OP_DATA_32 \<equiv> 0x20"
abbreviation (input) OP_DATA_33 :: byte where "OP_DATA_33 \<equiv> 0x21"
abbreviation (input) OP_DATA_65 :: byte where "OP_DATA_65 \<equiv> 0x41"
abbreviation (input) OP_PUSHDATA1 :: byte where "OP_PUSHDATA1 \<equiv> 0x4c"
abbreviation (input) OP_PUSHDATA2 :: byte where "OP_PUSHDATA2 \<equiv> 0x4d"
abbreviation (input) OP_PUSHDATA4 :: byte where "OP_PUSHDATA4 \<equiv> 0x4e"
abbreviation (input) OP_1NEGATE :: byte where "OP_1NEGATE \<equiv> 0x4f"
abbreviation (input) OP_1 :: byte where "OP_1 \<equiv> 0x51"
abbreviation (input) OP_16 :: byte where "OP_16 \<equiv> 0x60"
abbreviation (input) OP_RETURN :: byte where "OP_RETURN \<equiv> 0x6a"
abbreviation (input) OP_DUP :: byte where "OP_DUP \<equiv> 0x76"
abbreviation (input) OP_EQUAL :: byte where "OP_EQUAL \<equiv> 0x87"
abbreviation (input) OP_EQUALVERIFY :: byte where "OP_EQUALVERIFY \<equiv> 0x88"
abbreviation (input) OP_HASH160 :: byte where "OP_HASH160 \<equiv> 0xa9"
abbreviation (input) OP_CHECKSIG :: byte where "OP_CHECKSIG \<equiv> 0xac"
abbreviation (input) OP_CHECKSIGVERIFY :: byte where "OP_CHECKSIGVERIFY \<equiv> 0xad"
abbreviation (input) OP_CHECKMULTISIG :: byte where "OP_CHECKMULTISIG \<equiv> 0xae"
abbreviation (input) OP_CHECKMULTISIGVERIFY :: byte where "OP_CHECKMULTISIGVERIFY \<equiv> 0xaf"
abbreviation (input) OP_INVALIDOPCODE :: byte where "OP_INVALIDOPCODE \<equiv> 0xff"

text \<open>
  The \<open>length\<close> field of \<open>opcodeArray\<close>: 2 to 76 for the pushes of 1 to 75 bytes, \<open>-1\<close>, \<open>-2\<close>, \<open>-4\<close> for
  the pushes that carry their length in that many bytes, 1 for every other opcode.
\<close>

definition opcode_length :: "byte \<Rightarrow> int" where
  "opcode_length b =
    (if 1 \<le> b \<and> b \<le> 75 then uint b + 1
     else if b = OP_PUSHDATA1 then - 1
     else if b = OP_PUSHDATA2 then - 2
     else if b = OP_PUSHDATA4 then - 4
     else 1)"

section \<open>The tokenizer\<close>

datatype script_error = ErrMalformedPush | ErrUnsupportedScriptVersion

record tokenizer =
  tk_version :: u16
  tk_script :: bytes
  tk_offset :: nat
  tk_opcodePos :: int
  tk_op :: "byte option"
  tk_data :: "bytes option"
  tk_err :: "script_error option"

definition MakeScriptTokenizer :: "u16 \<Rightarrow> bytes \<Rightarrow> tokenizer" where
  "MakeScriptTokenizer scriptVersion script =
    \<lparr>tk_version = scriptVersion, tk_script = script, tk_offset = 0, tk_opcodePos = - 1,
     tk_op = None, tk_data = None,
     tk_err = (if scriptVersion \<noteq> 0 then Some ErrUnsupportedScriptVersion else None)\<rparr>"

definition tokenizer_Done :: "tokenizer \<Rightarrow> bool" where
  "tokenizer_Done t \<longleftrightarrow> tk_err t \<noteq> None \<or> length (tk_script t) \<le> tk_offset t"

text \<open>\<open>Opcode\<close> is called after a successful \<open>Next\<close> only; the code would dereference \<open>nil\<close> before.\<close>

definition tokenizer_Opcode :: "tokenizer \<Rightarrow> byte" where
  "tokenizer_Opcode t = (case tk_op t of Some b \<Rightarrow> b | None \<Rightarrow> 0)"

text \<open>The bytes of a slice that may be \<open>nil\<close>.\<close>

definition slice_bytes :: "bytes option \<Rightarrow> bytes" where
  "slice_bytes d = (case d of Some bs \<Rightarrow> bs | None \<Rightarrow> [])"

text \<open>The little-endian length after an \<open>OP_PUSHDATA\<close> opcode, as an \<open>int32\<close>.\<close>

definition pushdata_len :: "int \<Rightarrow> bytes \<Rightarrow> int" where
  "pushdata_len len script =
    (if len = - 1 then uint (script ! 0)
     else if len = - 2 then uint (le_word (take 2 script) :: u16)
     else sint (le_word (take 4 script) :: u32))"

definition tokenizer_Next :: "tokenizer \<Rightarrow> bool \<times> tokenizer" where
  "tokenizer_Next t0 =
    (if tokenizer_Done t0 then (False, t0)
     else let
       t = t0\<lparr>tk_opcodePos := tk_opcodePos t0 + 1\<rparr>;
       op = tk_script t ! tk_offset t;
       len = opcode_length op
     in if len = 1 then
          (True, t\<lparr>tk_offset := tk_offset t + 1, tk_op := Some op, tk_data := None\<rparr>)
        else if len > 1 then
          let script = drop (tk_offset t) (tk_script t)
          in if int (length script) < len then (False, t\<lparr>tk_err := Some ErrMalformedPush\<rparr>)
             else (True, t\<lparr>tk_offset := tk_offset t + nat len, tk_op := Some op,
                           tk_data := Some (slice 1 (nat len) script)\<rparr>)
        else
          let script = drop (tk_offset t + 1) (tk_script t)
          in if int (length script) < - len then (False, t\<lparr>tk_err := Some ErrMalformedPush\<rparr>)
             else let
               dataLen = pushdata_len len script;
               rest = drop (nat (- len)) script
             in if dataLen > int (length rest) \<or> dataLen < 0
                then (False, t\<lparr>tk_err := Some ErrMalformedPush\<rparr>)
                else (True, t\<lparr>tk_offset := tk_offset t + 1 + nat (- len) + nat dataLen,
                              tk_op := Some op, tk_data := Some (take (nat dataLen) rest)\<rparr>))"

section \<open>One opcode of a byte string\<close>

text \<open>
  What \<open>Next\<close> reads at the head of the remaining bytes: the opcode, its data, and the number of
  bytes taken; \<^const>\<open>None\<close> when the push does not fit.
\<close>

definition parse_op :: "bytes \<Rightarrow> (byte \<times> bytes option \<times> nat) option" where
  "parse_op bs =
    (case bs of [] \<Rightarrow> None
     | b # r \<Rightarrow>
        if 1 \<le> b \<and> b \<le> 75 then
          (if length r < unat b then None else Some (b, Some (take (unat b) r), Suc (unat b)))
        else if b = OP_PUSHDATA1 \<or> b = OP_PUSHDATA2 \<or> b = OP_PUSHDATA4 then
          (let k = (if b = OP_PUSHDATA1 then 1 else if b = OP_PUSHDATA2 then 2 else 4);
               n = unat (le_word (take k r) :: u32)
           in if length r < k \<or> n \<ge> 2 ^ 31 \<or> length r < k + n then None
              else Some (b, Some (take n (drop k r)), Suc (k + n)))
        else Some (b, None, 1))"

text \<open>The two ways a call of \<open>Next\<close> inside the script changes the tokenizer.\<close>

definition tk_fail :: "tokenizer \<Rightarrow> tokenizer" where
  "tk_fail t = t\<lparr>tk_opcodePos := tk_opcodePos t + 1, tk_err := Some ErrMalformedPush\<rparr>"

definition tk_advance :: "tokenizer \<Rightarrow> byte \<Rightarrow> bytes option \<Rightarrow> nat \<Rightarrow> tokenizer" where
  "tk_advance t b d n = t\<lparr>tk_opcodePos := tk_opcodePos t + 1, tk_offset := tk_offset t + n,
     tk_op := Some b, tk_data := d\<rparr>"

text \<open>
  The reading of a whole byte string: the opcodes with their data and the bytes each takes, and
  whether the string ends after an opcode.
\<close>

function tokens :: "bytes \<Rightarrow> (byte \<times> bytes option \<times> bytes) list \<times> bool" where
  "tokens bs =
    (if bs = [] then ([], True)
     else case parse_op bs of None \<Rightarrow> ([], False)
       | Some (b, d, n) \<Rightarrow> (case tokens (drop n bs) of (ts, ok) \<Rightarrow> ((b, d, take n bs) # ts, ok)))"
  by pat_completeness auto

lemma parse_op_bounds:
  "parse_op bs = Some (b, d, n) \<Longrightarrow> 0 < n \<and> n \<le> length bs \<and> bs \<noteq> [] \<and> b = hd bs"
  by (cases bs) (auto simp: parse_op_def Let_def split: if_splits)

termination tokens
  by (relation "measure length") (auto dest: parse_op_bounds)

declare tokens.simps [simp del]

section \<open>The tokenizer reads opcode by opcode\<close>

lemma tokenizer_Next_unfold:
  assumes "\<not> tokenizer_Done t" "drop (tk_offset t) (tk_script t) = b # r"
  defines "DL \<equiv> pushdata_len (opcode_length b) r"
  shows "tokenizer_Next t =
     (if opcode_length b = 1 then (True, tk_advance t b None 1)
      else if 1 < opcode_length b then
        (if int (Suc (length r)) < opcode_length b then (False, tk_fail t)
         else (True, tk_advance t b (Some (take (nat (opcode_length b) - 1) r)) (nat (opcode_length b))))
      else if int (length r) < - opcode_length b then (False, tk_fail t)
      else if int (length r - nat (- opcode_length b)) < DL \<or> DL < 0 then (False, tk_fail t)
      else (True, tk_advance t b (Some (take (nat DL) (drop (nat (- opcode_length b)) r)))
              (1 + nat (- opcode_length b) + nat DL)))"
proof -
  have o: "tk_offset t < length (tk_script t)" using assms(1) by (simp add: tokenizer_Done_def)
  have br: "tk_script t ! tk_offset t = b" "drop (Suc (tk_offset t)) (tk_script t) = r"
    using assms(2) Cons_nth_drop_Suc [OF o] by simp_all
  have "length (drop (tk_offset t) (tk_script t)) = length (b # r)" using assms(2) by (rule arg_cong)
  then have lr: "length (tk_script t) - tk_offset t = Suc (length r)" by simp
  show ?thesis
    using assms(1) unfolding DL_def tk_fail_def tk_advance_def
    by (simp add: tokenizer_Next_def Let_def slice_def assms(2) lr br)
qed

lemma pushdata_len_eq:
  assumes b: "b = OP_PUSHDATA1 \<or> b = OP_PUSHDATA2 \<or> b = OP_PUSHDATA4"
    and "k = (if b = OP_PUSHDATA1 then 1 else if b = OP_PUSHDATA2 then 2 else 4)" "k \<le> length r"
    and n: "n = unat (le_word (take k r) :: u32)"
  shows "pushdata_len (opcode_length b) r = (if n < 2 ^ 31 then int n else int n - 2 ^ 32)"
  using b
proof (elim disjE)
  assume b: "b = OP_PUSHDATA1"
  then obtain c r' where r: "r = c # r'" using assms(2,3) by (cases r) auto
  have "n = unat c" using b assms(2) by (simp add: n r unat_ucast_up)
  moreover have "unat c < 2 ^ 8" using unat_lt [of c] by simp
  ultimately show ?thesis using b by (simp add: pushdata_len_def opcode_length_def r)
next
  assume b: "b = OP_PUSHDATA2"
  have "n = unat (le_word (take 2 r) :: u16)"
    unfolding n using b assms(2)
    by (simp add: le_word_ucast [where 'b = 16 and 'a = 32] unat_ucast_up)
  moreover have "unat (le_word (take 2 r) :: u16) < 2 ^ 16"
    using unat_lt [of "le_word (take 2 r) :: u16"] by simp
  ultimately show ?thesis using b by (simp add: pushdata_len_def opcode_length_def)
next
  assume b: "b = OP_PUSHDATA4"
  then show ?thesis using assms(2) by (auto simp: pushdata_len_def opcode_length_def sint_cases n)
qed

text \<open>\<open>Next\<close> reads exactly one opcode of the remaining bytes, or fails when the push does not fit.\<close>

lemma tokenizer_Next_parse:
  "tokenizer_Next t =
    (if tokenizer_Done t then (False, t)
     else case parse_op (drop (tk_offset t) (tk_script t)) of
       None \<Rightarrow> (False, tk_fail t) | Some (b, d, n) \<Rightarrow> (True, tk_advance t b d n))"
proof (cases "tokenizer_Done t")
  case True
  then show ?thesis by (simp add: tokenizer_Next_def)
next
  case False
  then have "tk_offset t < length (tk_script t)" by (simp add: tokenizer_Done_def)
  then obtain b r where d: "drop (tk_offset t) (tk_script t) = b # r"
    by (metis Cons_nth_drop_Suc)
  note N = tokenizer_Next_unfold [OF False d]
  consider (data) "1 \<le> b \<and> b \<le> 75" | (push) "b = OP_PUSHDATA1 \<or> b = OP_PUSHDATA2 \<or> b = OP_PUSHDATA4"
    | (op) "\<not> (1 \<le> b \<and> b \<le> 75)" "b \<noteq> OP_PUSHDATA1" "b \<noteq> OP_PUSHDATA2" "b \<noteq> OP_PUSHDATA4"
    by blast
  then have "tokenizer_Next t = (case parse_op (b # r) of
      None \<Rightarrow> (False, tk_fail t) | Some (b, d, n) \<Rightarrow> (True, tk_advance t b d n))"
  proof cases
    case data
    define n where "n = unat b"
    have n: "unat b = n" "uint b = int n" by (simp_all add: n_def)
    have l: "opcode_length b = int n + 1" "1 \<le> n"
      using data by (simp_all add: opcode_length_def word_le_nat_alt flip: n)
    show ?thesis
      unfolding N parse_op_def using data l(2) by (simp add: l n nat_add_distrib)
  next
    case push
    define k where "k = (if b = OP_PUSHDATA1 then 1 else if b = OP_PUSHDATA2 then 2 else 4::nat)"
    define n where "n = unat (le_word (take k r) :: u32)"
    have nb: "\<not> (1 \<le> b \<and> b \<le> 75)" using push by auto
    have l: "opcode_length b = - int k" and k: "0 < k"
      using push by (auto simp: opcode_length_def k_def)
    note DL = pushdata_len_eq [OF push k_def _ n_def]
    have P: "parse_op (b # r) = (if length r < k \<or> n \<ge> 2 ^ 31 \<or> length r < k + n then None
            else Some (b, Some (take n (drop k r)), Suc (k + n)))"
      using push by (simp add: parse_op_def Let_def if_not_P [OF nb] flip: k_def n_def)
    have "n < 2 ^ 32" unfolding n_def using unat_lt [of "le_word (take k r) :: u32"] by simp
    then show ?thesis
      unfolding N P using k by (cases "k \<le> length r") (auto simp: l DL [unfolded l])
  next
    case op
    then have "opcode_length b = 1" by (auto simp: opcode_length_def)
    then show ?thesis using op by (auto simp: N parse_op_def)
  qed
  with False d show ?thesis by simp
qed

section \<open>Loops over a tokenizer\<close>

text \<open>
  \<open>for tokenizer.Next() { body }\<close>: the body sees the tokenizer after the call and either goes on
  with a new loop state or leaves the loop.
\<close>

datatype 's flow = Continue 's | Break 's

function for_next ::
  "(tokenizer \<Rightarrow> 's \<Rightarrow> 's flow) \<Rightarrow> tokenizer \<Rightarrow> 's \<Rightarrow> tokenizer \<times> 's" where
  "for_next body t s =
    (case tokenizer_Next t of
       (False, t') \<Rightarrow> (t', s)
     | (True, t') \<Rightarrow> (case body t' s of Continue s' \<Rightarrow> for_next body t' s' | Break s' \<Rightarrow> (t', s')))"
  by pat_completeness auto

lemma tokenizer_Next_progress:
  "tokenizer_Next t = (True, t') \<Longrightarrow>
   tk_script t' = tk_script t \<and> tk_offset t < tk_offset t' \<and> tk_offset t' \<le> length (tk_script t)
   \<and> tk_err t = None \<and> tk_err t' = None"
  by (auto simp: tokenizer_Next_parse tokenizer_Done_def tk_advance_def
        dest: parse_op_bounds split: if_splits option.splits)

termination for_next
  by (relation "measure (\<lambda>(_, t, _). length (tk_script t) - tk_offset t)")
    (auto dest!: tokenizer_Next_progress [OF sym])

declare for_next.simps [simp del]

text \<open>A loop whose body looks at the opcode and its data only.\<close>

primrec run_tokens ::
  "(byte \<Rightarrow> bytes option \<Rightarrow> 's \<Rightarrow> 's flow) \<Rightarrow> (byte \<times> bytes option \<times> bytes) list \<Rightarrow> 's \<Rightarrow> 's flow"
where
  "run_tokens g [] s = Continue s"
| "run_tokens g (x # xs) s =
    (case g (fst x) (fst (snd x)) s of Continue s' \<Rightarrow> run_tokens g xs s' | Break s' \<Rightarrow> Break s')"

definition token_loop ::
  "(byte \<Rightarrow> bytes option \<Rightarrow> 's \<Rightarrow> 's flow) \<Rightarrow> bytes \<Rightarrow> 's \<Rightarrow> bool \<times> 's" where
  "token_loop g bs s =
    (case run_tokens g (fst (tokens bs)) s of
       Continue s' \<Rightarrow> (snd (tokens bs), s') | Break s' \<Rightarrow> (True, s'))"

lemma token_loop_unfold:
  "token_loop g bs s =
    (if bs = [] then (True, s)
     else case parse_op bs of None \<Rightarrow> (False, s)
       | Some (b, d, n) \<Rightarrow>
          (case g b d s of Continue s' \<Rightarrow> token_loop g (drop n bs) s' | Break s' \<Rightarrow> (True, s')))"
proof (cases "bs = []")
  case True
  then show ?thesis by (simp add: token_loop_def tokens.simps [of "[]"])
next
  case False
  then show ?thesis
    by (cases "parse_op bs")
      (auto simp: token_loop_def tokens.simps [of bs] split: prod.split flow.split)
qed

lemma for_next_token_loop:
  assumes "tk_err t = None" "tk_offset t \<le> length (tk_script t)"
    and "for_next (\<lambda>t. g (tokenizer_Opcode t) (tk_data t)) t s = (t', s')"
  shows "(tk_err t' = None, s') = token_loop g (drop (tk_offset t) (tk_script t)) s"
  using assms
proof (induction "\<lambda>t. g (tokenizer_Opcode t) (tk_data t)" t s arbitrary: t' s' rule: for_next.induct)
  case (1 t s)
  show ?case
  proof (cases "tokenizer_Next t")
    case (Pair more u)
    show ?thesis
    proof (cases more)
      case False
      then have "t' = u" "s' = s" using 1(4) Pair by (simp_all add: for_next.simps [of _ t])
      then show ?thesis
        using Pair False 1(2,3)
        by (auto simp: token_loop_unfold [of g "drop _ _"] tokenizer_Next_parse tokenizer_Done_def tk_fail_def
            split: if_splits option.splits)
    next
      case True
      then obtain b d n where x: "parse_op (drop (tk_offset t) (tk_script t)) = Some (b, d, n)"
        and u: "u = tk_advance t b d n" and nd: "\<not> tokenizer_Done t"
        using Pair by (auto simp: tokenizer_Next_parse split: if_splits option.splits)
      have f: "tk_script u = tk_script t" "tk_offset u = n + tk_offset t" "tk_err u = None"
        "tokenizer_Opcode u = b" "tk_data u = d"
        using 1(2) by (simp_all add: u tk_advance_def tokenizer_Opcode_def)
      have o: "tk_offset u \<le> length (tk_script u)"
        using tokenizer_Next_progress [of t u] Pair True by simp
      have L: "token_loop g (drop (tk_offset t) (tk_script t)) s =
         (case g b d s of Continue s' \<Rightarrow> token_loop g (drop (tk_offset u) (tk_script u)) s'
          | Break s' \<Rightarrow> (True, s'))"
        using x nd by (subst token_loop_unfold) (simp add: f tokenizer_Done_def 1(2) split: flow.split)
      show ?thesis
      proof (cases "g b d s")
        case (Continue s1)
        have "for_next (\<lambda>t. g (tokenizer_Opcode t) (tk_data t)) u s1 = (t', s')"
          using 1(4) Pair True Continue by (simp add: for_next.simps [of _ t] f)
        then show ?thesis
          unfolding L using 1(1) [OF Pair [symmetric] _ _ f(3) o] True Continue f by simp
      next
        case (Break s1)
        then show ?thesis
          unfolding L using 1(4) Pair True f by (simp add: for_next.simps [of _ t])
      qed
    qed
  qed
qed

text \<open>Invariants of a loop, and two loops that run in step.\<close>

lemma for_next_inv [consumes 1, case_names stop step break]:
  assumes "I t s"
    and "\<And>t s t'. I t s \<Longrightarrow> tokenizer_Next t = (False, t') \<Longrightarrow> P (t', s)"
    and "\<And>t s t' s'. I t s \<Longrightarrow> tokenizer_Next t = (True, t') \<Longrightarrow> body t' s = Continue s' \<Longrightarrow> I t' s'"
    and "\<And>t s t' s'. I t s \<Longrightarrow> tokenizer_Next t = (True, t') \<Longrightarrow> body t' s = Break s' \<Longrightarrow> P (t', s')"
  shows "P (for_next body t s)"
  using assms(1)
proof (induction "length (tk_script t) - tk_offset t" arbitrary: t s rule: less_induct)
  case less
  obtain got u where N: "tokenizer_Next t = (got, u)" by (cases "tokenizer_Next t")
  show ?case
  proof (cases got)
    case False
    then show ?thesis using assms(2) [OF less.prems] N by (simp add: for_next.simps [of _ t])
  next
    case True
    with N have N: "tokenizer_Next t = (True, u)" by simp
    have m: "length (tk_script u) - tk_offset u < length (tk_script t) - tk_offset t"
      using tokenizer_Next_progress [of t u] N True by auto
    show ?thesis
    proof (cases "body u s")
      case (Continue s')
      then show ?thesis
        using less.hyps [OF m assms(3) [OF less.prems N Continue]] N
        by (simp add: for_next.simps [of _ t])
    next
      case (Break s')
      then show ?thesis using assms(4) [OF less.prems N Break] N by (simp add: for_next.simps [of _ t])
    qed
  qed
qed

lemma for_next_sim:
  assumes "R s1 s2"
    and "\<And>t s1 s2. R s1 s2 \<Longrightarrow> rel_flow R (f t s1) (g t s2)"
  shows "rel_prod (=) R (for_next f t s1) (for_next g t s2)"
  using assms(1)
proof (induction "length (tk_script t) - tk_offset t" arbitrary: t s1 s2 rule: less_induct)
  case less
  obtain got u where N: "tokenizer_Next t = (got, u)" by (cases "tokenizer_Next t")
  show ?case
  proof (cases got)
    case False
    then show ?thesis using less.prems N by (simp add: for_next.simps [of _ t])
  next
    case True
    with N have N: "tokenizer_Next t = (True, u)" by simp
    have m: "length (tk_script u) - tk_offset u < length (tk_script t) - tk_offset t"
      using tokenizer_Next_progress [of t u] N True by auto
    show ?thesis
      using assms(2) [OF less.prems, of u] less.hyps [OF m] N
      by (auto simp: for_next.simps [of _ t] elim!: flow.rel_cases)
  qed
qed

lemma MakeScriptTokenizer_simps [simp]:
  "tk_script (MakeScriptTokenizer v bs) = bs" "tk_offset (MakeScriptTokenizer v bs) = 0"
  "tk_err (MakeScriptTokenizer 0 bs) = None" "tk_data (MakeScriptTokenizer v bs) = None"
  by (simp_all add: MakeScriptTokenizer_def)

lemma for_next_v0:
  "for_next (\<lambda>t. g (tokenizer_Opcode t) (tk_data t)) (MakeScriptTokenizer 0 bs) s = (t', s') \<Longrightarrow>
   (tk_err t' = None, s') = token_loop g bs s"
  using for_next_token_loop [of "MakeScriptTokenizer 0 bs" g s t' s'] by simp

lemma tk_advance_simps [simp]:
  "tk_script (tk_advance t b d n) = tk_script t" "tk_offset (tk_advance t b d n) = tk_offset t + n"
  "tk_err (tk_advance t b d n) = tk_err t" "tk_data (tk_advance t b d n) = d"
  "tokenizer_Opcode (tk_advance t b d n) = b"
  by (simp_all add: tk_advance_def tokenizer_Opcode_def)

lemma Next_first:
  assumes "bs \<noteq> []"
  shows "tokenizer_Next (MakeScriptTokenizer 0 bs) =
    (case parse_op bs of None \<Rightarrow> (False, tk_fail (MakeScriptTokenizer 0 bs))
     | Some (b, d, n) \<Rightarrow> (True, tk_advance (MakeScriptTokenizer 0 bs) b d n))"
  using assms by (simp add: tokenizer_Next_parse tokenizer_Done_def)

text \<open>The pieces of a reading are the script, up to the point where it stops.\<close>

lemma tokens_concat:
  "\<exists>rest. bs = concat (map (\<lambda>(b, d, raw). raw) (fst (tokens bs))) @ rest
     \<and> (snd (tokens bs) \<longleftrightarrow> rest = [])"
proof (induction bs rule: tokens.induct)
  case (1 bs)
  show ?case
  proof (cases "bs = [] \<or> parse_op bs = None")
    case True
    then show ?thesis by (cases "bs = []") (auto simp: tokens.simps [of bs] tokens.simps [of "[]"])
  next
    case False
    then obtain b d n where x: "parse_op bs = Some (b, d, n)" "bs \<noteq> []" by auto
    obtain ts ok where t: "tokens (drop n bs) = (ts, ok)" by (cases "tokens (drop n bs)")
    obtain rest where "drop n bs = concat (map (\<lambda>(b, d, raw). raw) ts) @ rest" "ok \<longleftrightarrow> rest = []"
      using 1 [OF x(2,1) refl refl] t by auto
    then have "bs = (take n bs @ concat (map (\<lambda>(b, d, raw). raw) ts)) @ rest" "ok \<longleftrightarrow> rest = []"
      by (metis append.assoc append_take_drop_id)+
    then show ?thesis using x t by (intro exI [of _ rest]) (simp add: tokens.simps [of bs])
  qed
qed

end
