(* ===== verification/Script_Analysis.thy ===== *)
theory Script_Analysis
  imports Script_Tokenizer
begin

text \<open>
  Script analysis: \<open>txscript/script.go\<close> and the classification half of \<open>txscript/standard.go\<close>.
  Every loop of the code over a tokenizer is a \<^const>\<open>for_next\<close> with the body of the source; the
  lemmas turn it into a fold over \<^const>\<open>tokens\<close>.
\<close>

section \<open>Opcodes and pushes (\<open>script.go\<close>)\<close>

abbreviation (input) MaxScriptSize :: nat where "MaxScriptSize \<equiv> 10000"
abbreviation (input) MaxPubKeysPerMultiSig :: nat where "MaxPubKeysPerMultiSig \<equiv> 20"
abbreviation (input) MaxScriptElementSize :: nat where "MaxScriptElementSize \<equiv> 520"
abbreviation (input) MaxDataCarrierSize :: nat where "MaxDataCarrierSize \<equiv> 80"

definition IsSmallInt :: "byte \<Rightarrow> bool" where
  "IsSmallInt op \<longleftrightarrow> op = OP_0 \<or> (op \<ge> OP_1 \<and> op \<le> OP_16)"

definition AsSmallInt :: "byte \<Rightarrow> nat" where
  "AsSmallInt op = (if op = OP_0 then 0 else unat (op - (OP_1 - 1)))"

definition isCanonicalPush :: "byte \<Rightarrow> bytes \<Rightarrow> bool" where
  "isCanonicalPush opcode data =
    (let dataLen = length data in
     if opcode > OP_16 then True
     else if opcode < OP_PUSHDATA1 \<and> opcode > OP_0 \<and> (dataLen = 1 \<and> data ! 0 \<le> 16) then False
     else if opcode = OP_PUSHDATA1 \<and> dataLen < 0x4c then False
     else if opcode = OP_PUSHDATA2 \<and> dataLen \<le> 0xff then False
     else if opcode = OP_PUSHDATA4 \<and> dataLen \<le> 0xffff then False
     else True)"

section \<open>Loops over a script\<close>

text \<open>The early \<open>return false\<close> leaves the loop with state \<^const>\<open>False\<close>.\<close>

definition IsPushOnlyScript :: "bytes \<Rightarrow> bool" where
  "IsPushOnlyScript script =
    (case for_next (\<lambda>t _. if tokenizer_Opcode t > OP_16 then Break False else Continue True)
       (MakeScriptTokenizer 0 script) True of
     (t, pushOnly) \<Rightarrow> pushOnly \<and> tk_err t = None)"

definition checkScriptParses :: "u16 \<Rightarrow> bytes \<Rightarrow> script_error option" where
  "checkScriptParses scriptVersion script =
    tk_err (fst (for_next (\<lambda>_ _. Continue ()) (MakeScriptTokenizer scriptVersion script) ()))"

definition removeOpcodeRaw :: "bytes \<Rightarrow> byte \<Rightarrow> bytes" where
  "removeOpcodeRaw script opcode =
    (if length script = 0 then script
     else case for_next (\<lambda>t (result, prevOffset).
         Continue
           (if tokenizer_Opcode t = opcode
            then (case result of None \<Rightarrow> Some (take prevOffset script) | Some r \<Rightarrow> Some r)
            else (case result of None \<Rightarrow> None
                  | Some r \<Rightarrow> Some (r @ slice prevOffset (tk_offset t) script)),
            tk_offset t))
       (MakeScriptTokenizer 0 script) (None, 0) of
     (t, result, prevOffset) \<Rightarrow> (case result of None \<Rightarrow> script | Some r \<Rightarrow> r))"

definition removeOpcodeCanonical ::
  "tokenizer \<Rightarrow> bytes \<Rightarrow> bytes \<Rightarrow> nat \<Rightarrow> bytes option \<Rightarrow> bytes option \<times> nat \<times> bool" where
  "removeOpcodeCanonical t script dataToRemove prevOffset result =
    (let op = tokenizer_Opcode t; data = slice_bytes (tk_data t) in
     if isCanonicalPush op data \<and> data = dataToRemove
     then (case result of None \<Rightarrow> Some (take prevOffset script) | Some r \<Rightarrow> Some r,
           tk_offset t, True)
     else (case result of None \<Rightarrow> None
             | Some r \<Rightarrow> Some (r @ slice prevOffset (tk_offset t) script),
           tk_offset t, False))"

definition removeOpcodeByData :: "bytes \<Rightarrow> bytes \<Rightarrow> bytes \<times> bool" where
  "removeOpcodeByData script dataToRemove =
    (if length script = 0 \<or> length dataToRemove = 0 then (script, False)
     else case for_next (\<lambda>t (result, prevOffset, match).
         (case removeOpcodeCanonical t script dataToRemove prevOffset result of
            (result', prevOffset', found) \<Rightarrow> Continue (result', prevOffset', found \<or> match)))
       (MakeScriptTokenizer 0 script) (None, 0, False) of
     (t, result, prevOffset, match) \<Rightarrow>
       (case result of None \<Rightarrow> script | Some r \<Rightarrow> r, match))"

definition countSigOpsV0 :: "bytes \<Rightarrow> bool \<Rightarrow> nat" where
  "countSigOpsV0 script precise =
    fst (snd (for_next (\<lambda>t (numSigOps, prevOp).
         Continue
           (if tokenizer_Opcode t \<in> {OP_CHECKSIG, OP_CHECKSIGVERIFY} then numSigOps + 1
            else if tokenizer_Opcode t \<in> {OP_CHECKMULTISIG, OP_CHECKMULTISIGVERIFY} then
              (if precise \<and> prevOp \<ge> OP_1 \<and> prevOp \<le> OP_16 then numSigOps + AsSmallInt prevOp
               else numSigOps + MaxPubKeysPerMultiSig)
            else numSigOps,
            tokenizer_Opcode t))
       (MakeScriptTokenizer 0 script) (0, OP_INVALIDOPCODE)))"

definition GetSigOpCount :: "bytes \<Rightarrow> nat" where
  "GetSigOpCount script = countSigOpsV0 script False"

definition finalOpcodeData :: "u16 \<Rightarrow> bytes \<Rightarrow> bytes option" where
  "finalOpcodeData scriptVersion script =
    (if length script = 0 then None
     else case for_next (\<lambda>t _. Continue (tk_data t)) (MakeScriptTokenizer scriptVersion script) None of
       (t, data) \<Rightarrow> if tk_err t \<noteq> None then None else data)"

definition PushedData :: "bytes \<Rightarrow> script_error + bytes option list" where
  "PushedData script =
    (case for_next (\<lambda>t data. Continue
         (if tk_data t \<noteq> None then data @ [tk_data t]
          else if tokenizer_Opcode t = OP_0 then data @ [None] else data))
       (MakeScriptTokenizer 0 script) [] of
     (t, data) \<Rightarrow> (case tk_err t of Some e \<Rightarrow> Inl e | None \<Rightarrow> Inr data))"

definition IsUnspendable :: "bytes \<Rightarrow> bool" where
  "IsUnspendable pkScript =
    (if length pkScript > 0 \<and> pkScript ! 0 = OP_RETURN then True
     else if length pkScript > MaxScriptSize then True
     else checkScriptParses 0 pkScript \<noteq> None)"

text \<open>The keys of \<open>successOpcodes\<close> in \<open>opcode.go\<close>.\<close>

definition successOpcodes :: "byte list" where
  "successOpcodes = [80, 98, 126, 127, 128, 129, 131, 132, 133, 134, 137, 138, 141, 142,
     149, 150, 151, 152, 153] @ map word_of_nat [187..<255]"

definition ScriptHasOpSuccess :: "bytes \<Rightarrow> bool" where
  "ScriptHasOpSuccess witnessScript =
    snd (for_next (\<lambda>t _. if tokenizer_Opcode t \<in> set successOpcodes then Break True
                          else Continue False)
      (MakeScriptTokenizer 0 witnessScript) False)"

section \<open>Script forms (\<open>standard.go\<close>)\<close>

datatype ScriptClass = NonStandardTy | PubKeyTy | PubKeyHashTy | WitnessV0PubKeyHashTy
  | ScriptHashTy | WitnessV0ScriptHashTy | MultiSigTy | NullDataTy | WitnessV1TaprootTy
  | PayToAnchorTy | WitnessUnknownTy

definition extractCompressedPubKey :: "bytes \<Rightarrow> bytes option" where
  "extractCompressedPubKey script =
    (if length script = 35 \<and> script ! 34 = OP_CHECKSIG \<and> script ! 0 = OP_DATA_33
        \<and> (script ! 1 = 0x02 \<or> script ! 1 = 0x03)
     then Some (slice 1 34 script) else None)"

definition extractUncompressedPubKey :: "bytes \<Rightarrow> bytes option" where
  "extractUncompressedPubKey script =
    (if length script = 67 \<and> script ! 66 = OP_CHECKSIG \<and> script ! 0 = OP_DATA_65
        \<and> (script ! 1 = 0x04 \<or> script ! 1 = 0x06 \<or> script ! 1 = 0x07)
     then Some (slice 1 66 script) else None)"

definition extractPubKey :: "bytes \<Rightarrow> bytes option" where
  "extractPubKey script =
    (case extractCompressedPubKey script of
       Some pubKey \<Rightarrow> Some pubKey | None \<Rightarrow> extractUncompressedPubKey script)"

definition isPubKeyScript :: "bytes \<Rightarrow> bool" where
  "isPubKeyScript script \<longleftrightarrow> extractPubKey script \<noteq> None"

definition extractPubKeyHash :: "bytes \<Rightarrow> bytes option" where
  "extractPubKeyHash script =
    (if length script = 25 \<and> script ! 0 = OP_DUP \<and> script ! 1 = OP_HASH160
        \<and> script ! 2 = OP_DATA_20 \<and> script ! 23 = OP_EQUALVERIFY \<and> script ! 24 = OP_CHECKSIG
     then Some (slice 3 23 script) else None)"

definition isPubKeyHashScript :: "bytes \<Rightarrow> bool" where
  "isPubKeyHashScript script \<longleftrightarrow> extractPubKeyHash script \<noteq> None"

definition extractScriptHash :: "bytes \<Rightarrow> bytes option" where
  "extractScriptHash script =
    (if length script = 23 \<and> script ! 0 = OP_HASH160 \<and> script ! 1 = OP_DATA_20
        \<and> script ! 22 = OP_EQUAL
     then Some (slice 2 22 script) else None)"

definition isScriptHashScript :: "bytes \<Rightarrow> bool" where
  "isScriptHashScript script \<longleftrightarrow> extractScriptHash script \<noteq> None"

text \<open>\<open>isStrictPubKeyEncoding\<close> of \<open>engine.go\<close>.\<close>

definition isStrictPubKeyEncoding :: "bytes \<Rightarrow> bool" where
  "isStrictPubKeyEncoding pubKey \<longleftrightarrow>
    length pubKey = 33 \<and> (pubKey ! 0 = 0x02 \<or> pubKey ! 0 = 0x03) \<or>
    length pubKey = 65 \<and> (pubKey ! 0 = 0x04 \<or> pubKey ! 0 = 0x06 \<or> pubKey ! 0 = 0x07)"

record multiSigDetails =
  ms_requiredSigs :: nat
  ms_numPubKeys :: nat
  ms_pubKeys :: "bytes list"
  ms_valid :: bool

definition no_multiSigDetails :: multiSigDetails where
  "no_multiSigDetails = \<lparr>ms_requiredSigs = 0, ms_numPubKeys = 0, ms_pubKeys = [], ms_valid = False\<rparr>"

definition extractMultisigScriptDetails :: "u16 \<Rightarrow> bytes \<Rightarrow> bool \<Rightarrow> multiSigDetails" where
  "extractMultisigScriptDetails scriptVersion script extractPubKeys =
    (if scriptVersion \<noteq> 0 then no_multiSigDetails
     else if length script < 3 \<or> script ! (length script - 1) \<noteq> OP_CHECKMULTISIG
     then no_multiSigDetails
     else case tokenizer_Next (MakeScriptTokenizer scriptVersion script) of
       (got, t) \<Rightarrow>
       if \<not> got \<or> \<not> IsSmallInt (tokenizer_Opcode t) then no_multiSigDetails
       else let required = AsSmallInt (tokenizer_Opcode t) in
       case for_next (\<lambda>t (n, keys).
           if IsSmallInt (tokenizer_Opcode t) then Break (n, keys)
           else let data = slice_bytes (tk_data t) in
             if \<not> isStrictPubKeyEncoding data then Continue (n + 1, keys)
             else Continue (n + 1, if extractPubKeys then keys @ [data] else keys))
         t (0, []) of
       (t, n, keys) \<Rightarrow>
         if tokenizer_Done t then no_multiSigDetails
         else let op = tokenizer_Opcode t in
           if \<not> IsSmallInt op \<or> AsSmallInt op \<noteq> n then no_multiSigDetails
           else if length (tk_script t) - tk_offset t \<noteq> 1 then no_multiSigDetails
           else \<lparr>ms_requiredSigs = required, ms_numPubKeys = n, ms_pubKeys = keys, ms_valid = True\<rparr>)"

definition isMultisigScript :: "u16 \<Rightarrow> bytes \<Rightarrow> bool" where
  "isMultisigScript scriptVersion script =
    ms_valid (extractMultisigScriptDetails scriptVersion script False)"

definition IsMultisigSigScript :: "bytes \<Rightarrow> bool" where
  "IsMultisigSigScript script =
    (if length script < 4 \<or> script ! (length script - 1) \<noteq> OP_CHECKMULTISIG then False
     else case finalOpcodeData 0 script of
       None \<Rightarrow> False | Some possibleRedeemScript \<Rightarrow> isMultisigScript 0 possibleRedeemScript)"

definition extractWitnessPubKeyHash :: "bytes \<Rightarrow> bytes option" where
  "extractWitnessPubKeyHash script =
    (if length script = 22 \<and> script ! 0 = OP_0 \<and> script ! 1 = OP_DATA_20
     then Some (slice 2 22 script) else None)"

definition isWitnessPubKeyHashScript :: "bytes \<Rightarrow> bool" where
  "isWitnessPubKeyHashScript script \<longleftrightarrow> extractWitnessPubKeyHash script \<noteq> None"

definition extractWitnessV0ScriptHash :: "bytes \<Rightarrow> bytes option" where
  "extractWitnessV0ScriptHash script =
    (if length script = 34 \<and> script ! 0 = OP_0 \<and> script ! 1 = OP_DATA_32
     then Some (slice 2 34 script) else None)"

definition extractWitnessV1KeyBytes :: "bytes \<Rightarrow> bytes option" where
  "extractWitnessV1KeyBytes script =
    (if length script = 34 \<and> script ! 0 = OP_1 \<and> script ! 1 = OP_DATA_32
     then Some (slice 2 34 script) else None)"

definition isWitnessScriptHashScript :: "bytes \<Rightarrow> bool" where
  "isWitnessScriptHashScript script \<longleftrightarrow> extractWitnessV0ScriptHash script \<noteq> None"

text \<open>The version, the program and the flag \<open>valid\<close> of the code.\<close>

definition extractWitnessProgramInfo :: "bytes \<Rightarrow> nat \<times> bytes option \<times> bool" where
  "extractWitnessProgramInfo script =
    (if length script < 4 \<or> length script > 42 then (0, None, False)
     else case tokenizer_Next (MakeScriptTokenizer 0 script) of
       (got, t) \<Rightarrow>
       if \<not> got \<or> \<not> IsSmallInt (tokenizer_Opcode t) then (0, None, False)
       else let version = AsSmallInt (tokenizer_Opcode t) in
       case tokenizer_Next t of
       (got, t) \<Rightarrow>
       if \<not> got \<or> \<not> isCanonicalPush (tokenizer_Opcode t) (slice_bytes (tk_data t))
       then (0, None, False)
       else (version, tk_data t, tokenizer_Done t \<and> tk_err t = None))"

definition ExtractWitnessProgramInfo :: "bytes \<Rightarrow> (nat \<times> bytes option) option" where
  "ExtractWitnessProgramInfo script =
    (case extractWitnessProgramInfo script of
       (version, program, valid) \<Rightarrow> if \<not> valid then None else Some (version, program))"

definition isWitnessProgramScript :: "bytes \<Rightarrow> bool" where
  "isWitnessProgramScript script = snd (snd (extractWitnessProgramInfo script))"

definition isWitnessTaprootScript :: "bytes \<Rightarrow> bool" where
  "isWitnessTaprootScript script \<longleftrightarrow> extractWitnessV1KeyBytes script \<noteq> None"

definition isAnnexedWitness :: "bytes list \<Rightarrow> bool" where
  "isAnnexedWitness witness =
    (if length witness < 2 then False
     else let lastElement = witness ! (length witness - 1) in
       length lastElement > 0 \<and> lastElement ! 0 = 0x50)"

definition extractAnnex :: "bytes list \<Rightarrow> bytes option" where
  "extractAnnex witness =
    (if \<not> isAnnexedWitness witness then None else Some (witness ! (length witness - 1)))"

definition PayToAnchorScript :: bytes where
  "PayToAnchorScript = [OP_1, OP_DATA_2, 0x4e, 0x73]"

definition extractPayToAnchor :: "bytes \<Rightarrow> bytes option" where
  "extractPayToAnchor script =
    (if script = PayToAnchorScript then Some (slice 2 4 script) else None)"

definition IsPayToAnchorScript :: "bytes \<Rightarrow> bool" where
  "IsPayToAnchorScript script \<longleftrightarrow> extractPayToAnchor script \<noteq> None"

definition isNullDataScript :: "u16 \<Rightarrow> bytes \<Rightarrow> bool" where
  "isNullDataScript scriptVersion script =
    (if scriptVersion \<noteq> 0 then False
     else if length script < 1 \<or> script ! 0 \<noteq> OP_RETURN then False
     else if length script = 1 then True
     else case tokenizer_Next (MakeScriptTokenizer scriptVersion (drop 1 script)) of
       (got, t) \<Rightarrow> got \<and> tokenizer_Done t
         \<and> (IsSmallInt (tokenizer_Opcode t) \<or> tokenizer_Opcode t \<le> OP_PUSHDATA4)
         \<and> length (slice_bytes (tk_data t)) \<le> MaxDataCarrierSize)"

definition typeOfScript :: "u16 \<Rightarrow> bytes \<Rightarrow> ScriptClass" where
  "typeOfScript scriptVersion script =
    (if scriptVersion = 0 then
       (if isPubKeyScript script then PubKeyTy
        else if isPubKeyHashScript script then PubKeyHashTy
        else if isScriptHashScript script then ScriptHashTy
        else if isWitnessPubKeyHashScript script then WitnessV0PubKeyHashTy
        else if isWitnessScriptHashScript script then WitnessV0ScriptHashTy
        else if isMultisigScript scriptVersion script then MultiSigTy
        else if isNullDataScript scriptVersion script then NullDataTy
        else NonStandardTy)
     else if scriptVersion = 1 then
       (if IsPayToAnchorScript script then PayToAnchorTy
        else if isWitnessTaprootScript script then WitnessV1TaprootTy
        else NonStandardTy)
     else NonStandardTy)"

definition GetScriptClass :: "bytes \<Rightarrow> ScriptClass" where
  "GetScriptClass script =
    (let classSegWit = typeOfScript 0 script in
     if classSegWit \<noteq> NonStandardTy then classSegWit else typeOfScript 1 script)"

fun expectedInputs :: "bytes \<Rightarrow> ScriptClass \<Rightarrow> int" where
  "expectedInputs script PubKeyTy = 1"
| "expectedInputs script PubKeyHashTy = 2"
| "expectedInputs script WitnessV0PubKeyHashTy = 2"
| "expectedInputs script ScriptHashTy = 1"
| "expectedInputs script WitnessV0ScriptHashTy = 1"
| "expectedInputs script WitnessV1TaprootTy = 1"
| "expectedInputs script PayToAnchorTy = 0"
| "expectedInputs script MultiSigTy = int (AsSmallInt (script ! 0)) + 1"
| "expectedInputs script _ = - 1"

section \<open>Signature operations\<close>

definition getWitnessSigOps :: "bytes \<Rightarrow> bytes list \<Rightarrow> nat" where
  "getWitnessSigOps pkScript witness =
    (case ExtractWitnessProgramInfo pkScript of None \<Rightarrow> 0
     | Some (witnessVersion, witnessProgram) \<Rightarrow>
        if witnessVersion = 0 then
          (if length (slice_bytes witnessProgram) = 20 then 1
           else if length (slice_bytes witnessProgram) = 32 \<and> length witness > 0
           then countSigOpsV0 (witness ! (length witness - 1)) True
           else 0)
        else 0)"

definition GetPreciseSigOpCount :: "bytes \<Rightarrow> bytes \<Rightarrow> nat" where
  "GetPreciseSigOpCount scriptSig scriptPubKey =
    (if \<not> isScriptHashScript scriptPubKey then countSigOpsV0 scriptPubKey True
     else if length scriptSig = 0 \<or> \<not> IsPushOnlyScript scriptSig then 0
     else let redeemScript = slice_bytes (finalOpcodeData 0 scriptSig) in
       if length redeemScript = 0 then 0 else countSigOpsV0 redeemScript True)"

definition GetWitnessSigOpCount :: "bytes \<Rightarrow> bytes \<Rightarrow> bytes list \<Rightarrow> nat" where
  "GetWitnessSigOpCount sigScript pkScript witness =
    (if isWitnessProgramScript pkScript then getWitnessSigOps pkScript witness
     else if isScriptHashScript pkScript \<and> IsPushOnlyScript sigScript \<and> length sigScript > 0 then
       (let redeem = slice_bytes (finalOpcodeData 0 sigScript) in
        if length redeem > 0 \<and> isWitnessProgramScript redeem then getWitnessSigOps redeem witness
        else 0)
     else 0)"

section \<open>Script pairs\<close>

record ScriptInfo =
  si_PkScriptClass :: ScriptClass
  si_NumInputs :: nat
  si_ExpectedInputs :: int
  si_SigOps :: nat

datatype scriptinfo_error = ErrScript script_error | ErrNotPushOnly

text \<open>Inputs, signature operations and the number of inputs of a pay-to-script-hash pair.\<close>

definition calcP2SHScriptInfo ::
  "u16 \<Rightarrow> bytes \<Rightarrow> bytes \<Rightarrow> bytes list \<Rightarrow> nat \<Rightarrow> int \<Rightarrow> bool \<Rightarrow> int \<times> nat \<times> nat" where
  "calcP2SHScriptInfo scriptVersion sigScript pkScript witness numInputs expectedInputCount0 segwit =
    (let redeemScript = slice_bytes (finalOpcodeData scriptVersion sigScript);
         redeemClass = typeOfScript scriptVersion redeemScript;
         rsInputs = expectedInputs redeemScript redeemClass;
         expectedInputCount1 = (if rsInputs = - 1 then - 1 else expectedInputCount0 + rsInputs)
     in if segwit \<and> isWitnessProgramScript redeemScript then
          (let expectedInputCount2 =
             (if redeemClass = WitnessV0ScriptHashTy \<and> length witness > 0 then
                (let witnessScript = witness ! (length witness - 1);
                     wsInputs = expectedInputs witnessScript (typeOfScript scriptVersion witnessScript)
                 in if wsInputs = - 1 then - 1
                    else if expectedInputCount1 \<noteq> - 1 then expectedInputCount1 + wsInputs
                    else expectedInputCount1)
              else expectedInputCount1)
           in (expectedInputCount2, GetWitnessSigOpCount sigScript pkScript witness,
               length witness + numInputs))
        else (expectedInputCount1, countSigOpsV0 redeemScript True, numInputs))"

definition CalcScriptInfo ::
  "bytes \<Rightarrow> bytes \<Rightarrow> bytes list \<Rightarrow> bool \<Rightarrow> bool \<Rightarrow> (scriptinfo_error, ScriptInfo) outcome" where
  "CalcScriptInfo sigScript pkScript witness bip16 segwit =
    (case for_next (\<lambda>_ n. Continue (n + 1)) (MakeScriptTokenizer 0 sigScript) 0 of
     (t, numInputs) \<Rightarrow>
     case tk_err t of Some e \<Rightarrow> Fail (ErrScript e) | None \<Rightarrow>
     case checkScriptParses 0 pkScript of Some e \<Rightarrow> Fail (ErrScript e) | None \<Rightarrow>
     if \<not> IsPushOnlyScript sigScript then Fail ErrNotPushOnly
     else let class = typeOfScript 0 pkScript; expected = expectedInputs pkScript class in
       if class = ScriptHashTy \<and> bip16 then
         (case calcP2SHScriptInfo 0 sigScript pkScript witness numInputs expected segwit of
            (e, ops, n) \<Rightarrow>
              Ret \<lparr>si_PkScriptClass = class, si_NumInputs = n, si_ExpectedInputs = e, si_SigOps = ops\<rparr>)
       else if class = WitnessV0PubKeyHashTy \<and> segwit then
         Ret \<lparr>si_PkScriptClass = class, si_NumInputs = length witness, si_ExpectedInputs = expected,
              si_SigOps = GetWitnessSigOpCount sigScript pkScript witness\<rparr>
       else if class = WitnessV0ScriptHashTy \<and> segwit then
         (if witness = [] then Panic
          else let witnessScript = witness ! (length witness - 1);
                   shInputs = expectedInputs witnessScript (typeOfScript 0 witnessScript)
            in Ret \<lparr>si_PkScriptClass = class, si_NumInputs = length witness,
                   si_ExpectedInputs = (if shInputs = - 1 then - 1 else expected + shInputs),
                   si_SigOps = GetWitnessSigOpCount sigScript pkScript witness\<rparr>)
       else
         Ret \<lparr>si_PkScriptClass = class, si_NumInputs = numInputs, si_ExpectedInputs = expected,
              si_SigOps = countSigOpsV0 pkScript True\<rparr>)"

definition CalcMultiSigStats :: "bytes \<Rightarrow> (nat \<times> nat) option" where
  "CalcMultiSigStats script =
    (let details = extractMultisigScriptDetails 0 script False in
     if \<not> ms_valid details then None else Some (ms_numPubKeys details, ms_requiredSigs details))"

section \<open>Witness programs\<close>

lemma parse_op_SmallInt: "IsSmallInt b \<Longrightarrow> parse_op (b # r) = Some (b, None, 1)"
  by (auto simp: IsSmallInt_def parse_op_def word_le_nat_alt)

text \<open>The second opcode of a witness program is a direct push of the rest of the script.\<close>

lemma canonical_push_rest:
  assumes "3 \<le> length bs" "length bs \<le> 41"
  shows "(parse_op bs = Some (b, d, length bs) \<and> isCanonicalPush b (slice_bytes d)) \<longleftrightarrow>
    (\<exists>p. bs = b # p \<and> d = Some p \<and> b = word_of_nat (length p))"
    (is "?L \<longleftrightarrow> ?R")
proof
  assume L: ?L
  then obtain r where bs: "bs = b # r" using parse_op_bounds [of bs b d "length bs"] by (cases bs) auto
  show ?R
  proof (cases "1 \<le> b \<and> b \<le> 75")
    case True
    then have "length r = unat b" "d = Some r"
      using L by (auto simp: bs parse_op_def split: if_splits)
    then show ?thesis by (simp add: bs)
  next
    case False
    then show ?thesis
      using L assms
      by (auto simp: bs parse_op_def isCanonicalPush_def slice_bytes_def Let_def split: if_splits)
  qed
next
  assume ?R
  then obtain p where p: "bs = b # p" "d = Some p" "b = word_of_nat (length p)" by blast
  then have u: "unat b = length p" using assms by (simp add: unat_of_nat take_bit_eq_mod)
  then have "1 \<le> b" "b \<le> 75" using assms p by (simp_all add: word_le_nat_alt)
  moreover have "parse_op bs = Some (b, d, length bs)"
    using calculation u by (simp add: parse_op_def p(1,2))
  moreover have "isCanonicalPush b p"
    using assms calculation p(1) u by (auto simp: isCanonicalPush_def Let_def word_le_nat_alt word_less_nat_alt)
  ultimately show ?L by (simp add: p(2) slice_bytes_def)
qed

lemma witness_program_iff:
  "extractWitnessProgramInfo script = (v, d, True) \<longleftrightarrow>
    (\<exists>op p. script = op # word_of_nat (length p) # p \<and> IsSmallInt op \<and> v = AsSmallInt op
      \<and> d = Some p \<and> 2 \<le> length p \<and> length p \<le> 40)"
  (is "?L \<longleftrightarrow> ?R")
proof (cases "4 \<le> length script \<and> length script \<le> 42")
  case False
  then show ?thesis by (auto simp: extractWitnessProgramInfo_def)
next
  case True
  then obtain op r where s: "script = op # r" by (cases script) auto
  have lr: "3 \<le> length r" "length r \<le> 41" using True s by auto
  show ?thesis
  proof (cases "IsSmallInt op")
    case False
    then show ?thesis
      using True by (auto simp: s extractWitnessProgramInfo_def Next_first dest: parse_op_bounds split: option.splits)
  next
    case op: True
    have "?L \<longleftrightarrow> v = AsSmallInt op \<and>
      (\<exists>b. parse_op r = Some (b, d, length r) \<and> isCanonicalPush b (slice_bytes d))"
      using True lr
      by (auto simp: s extractWitnessProgramInfo_def Next_first parse_op_SmallInt [OF op] op
          tokenizer_Next_parse [of "tk_advance _ _ _ _"] tokenizer_Done_def
          dest: parse_op_bounds split: option.splits)
    also have "\<dots> \<longleftrightarrow> v = AsSmallInt op \<and> (\<exists>b p. r = b # p \<and> d = Some p \<and> b = word_of_nat (length p))"
      using canonical_push_rest [OF lr] by auto
    finally show ?thesis using op lr by (auto simp: s)
  qed
qed

section \<open>Cutting pieces out of a script\<close>

definition cut_step :: "bytes \<Rightarrow> (byte \<Rightarrow> bytes option \<Rightarrow> bool) \<Rightarrow> tokenizer
    \<Rightarrow> bytes option \<times> nat \<Rightarrow> (bytes option \<times> nat) flow" where
  "cut_step script rm t = (\<lambda>(result, prevOffset). Continue
     (if rm (tokenizer_Opcode t) (tk_data t)
      then (case result of None \<Rightarrow> Some (take prevOffset script) | Some r \<Rightarrow> Some r)
      else (case result of None \<Rightarrow> None | Some r \<Rightarrow> Some (r @ slice prevOffset (tk_offset t) script)),
      tk_offset t))"

definition kept :: "(byte \<Rightarrow> bytes option \<Rightarrow> bool) \<Rightarrow> bytes \<Rightarrow> bytes" where
  "kept rm bs = concat (map (\<lambda>(b, d, raw). raw) (filter (\<lambda>(b, d, raw). \<not> rm b d) (fst (tokens bs))))"

definition cuts :: "(byte \<Rightarrow> bytes option \<Rightarrow> bool) \<Rightarrow> bytes \<Rightarrow> bool" where
  "cuts rm bs \<longleftrightarrow> (\<exists>(b, d, raw) \<in> set (fst (tokens bs)). rm b d)"

lemma kept_cuts_simps:
  "bs = [] \<or> parse_op bs = None \<Longrightarrow> kept rm bs = [] \<and> \<not> cuts rm bs"
  "parse_op bs = Some (b, d, n) \<Longrightarrow> bs \<noteq> [] \<Longrightarrow> kept rm bs = (if rm b d then kept rm (drop n bs) else take n bs @ kept rm (drop n bs))"
  "parse_op bs = Some (b, d, n) \<Longrightarrow> bs \<noteq> [] \<Longrightarrow> cuts rm bs \<longleftrightarrow> rm b d \<or> cuts rm (drop n bs)"
  by (auto simp: kept_def cuts_def tokens.simps [of bs] split: prod.splits)

lemma for_next_cut:
  assumes "tk_script t = script" "tk_err t = None" "tk_offset t \<le> length script"
  shows "fst (snd (for_next (cut_step script rm) t (result, tk_offset t))) =
     (case result of Some r \<Rightarrow> Some (r @ kept rm (drop (tk_offset t) script))
      | None \<Rightarrow> if cuts rm (drop (tk_offset t) script)
          then Some (take (tk_offset t) script @ kept rm (drop (tk_offset t) script)) else None)"
  using assms
proof (induction "length script - tk_offset t" arbitrary: t result rule: less_induct)
  case less
  let ?bs = "drop (tk_offset t) script"
  show ?case
  proof (cases "?bs = [] \<or> parse_op ?bs = None")
    case True
    then have "\<not> fst (tokenizer_Next t)"
      using less.prems by (auto simp: tokenizer_Next_parse tokenizer_Done_def)
    then obtain u where "tokenizer_Next t = (False, u)" by (cases "tokenizer_Next t") auto
    then show ?thesis
      using kept_cuts_simps(1) [OF True, of rm] by (simp add: for_next.simps [of _ t] split: option.split)
  next
    case False
    then obtain b d n where x: "parse_op ?bs = Some (b, d, n)" "?bs \<noteq> []" by auto
    define u where "u = tk_advance t b d n"
    have N: "tokenizer_Next t = (True, u)"
      using x less.prems by (simp add: tokenizer_Next_parse tokenizer_Done_def u_def)
    have u: "tk_script u = script" "tk_err u = None" "tk_offset u \<le> length script"
        "length script - tk_offset u < length script - tk_offset t"
      using tokenizer_Next_progress [OF N] less.prems by auto
    have d: "drop (tk_offset u) script = drop n ?bs" by (simp add: u_def add.commute)
    have t: "take (tk_offset u) script = take (tk_offset t) script @ take n ?bs"
      by (simp add: u_def take_add)
    note IH = less.hyps [OF u(4) u(1-3), unfolded d t]
    show ?thesis
      using x(2) IH
      by (cases "rm b d"; cases result)
        (auto simp: for_next.simps [of _ t] N kept_cuts_simps(2,3) [OF x] cut_step_def slice_def
           tokenizer_Opcode_def u_def tk_advance_def split: flow.split)
  qed
qed


lemma kept_all: "snd (tokens bs) \<Longrightarrow> \<not> cuts rm bs \<Longrightarrow> kept rm bs = bs"
proof -
  assume "snd (tokens bs)" "\<not> cuts rm bs"
  then have "filter (\<lambda>(b, d, raw). \<not> rm b d) (fst (tokens bs)) = fst (tokens bs)"
    by (auto simp: cuts_def filter_id_conv)
  then show ?thesis using tokens_concat [of bs] \<open>snd (tokens bs)\<close> by (auto simp: kept_def)
qed

lemma cut_loop:
  "fst (snd (for_next (cut_step script rm) (MakeScriptTokenizer 0 script) (None, 0))) =
   (if cuts rm script then Some (kept rm script) else None)"
  using for_next_cut [of "MakeScriptTokenizer 0 script" script rm None] by simp

lemma removeOpcodeRaw_kept:
  assumes "snd (tokens script)"
  shows "removeOpcodeRaw script opcode = kept (\<lambda>b d. b = opcode) script"
  using cut_loop [of script "\<lambda>b d. b = opcode"] kept_all [OF assms, of "\<lambda>b d. b = opcode"]
  by (auto simp: removeOpcodeRaw_def kept_cuts_simps cut_step_def [abs_def]
      split: prod.splits option.splits if_splits)

definition canonical_data :: "bytes \<Rightarrow> byte \<Rightarrow> bytes option \<Rightarrow> bool" where
  "canonical_data data b d \<longleftrightarrow> isCanonicalPush b (slice_bytes d) \<and> slice_bytes d = data"

lemma removeOpcodeByData_kept:
  assumes "snd (tokens script)" "data \<noteq> []"
  shows "removeOpcodeByData script data =
    (kept (canonical_data data) script, cuts (canonical_data data) script)"
proof (cases "script = []")
  case True
  then show ?thesis by (simp add: removeOpcodeByData_def kept_cuts_simps)
next
  case False
  define R where "R = (\<lambda>(r1, p1 :: nat, m) (r2, p2). r1 = (r2 :: bytes option) \<and> p1 = p2 \<and> m = (r1 \<noteq> None))"
  define f where "f = (\<lambda>t (result, prevOffset, match).
         (case removeOpcodeCanonical t script data prevOffset result of
            (result', prevOffset', found) \<Rightarrow> Continue (result', prevOffset', found \<or> match)))"
  let ?T = "MakeScriptTokenizer 0 script" and ?C = "cut_step script (canonical_data data)"
  have "rel_flow R (f t s1) (?C t s2)" if "R s1 s2" for t s1 s2
    using that
    by (auto simp: f_def R_def cut_step_def removeOpcodeCanonical_def canonical_data_def Let_def
        split: option.splits)
  then have "rel_prod (=) R (for_next f ?T (None, 0, False)) (for_next ?C ?T (None, 0))"
    by (intro for_next_sim) (auto simp: R_def)
  moreover obtain t1 r p m where L: "for_next f ?T (None, 0, False) = (t1, r, p, m)"
    by (rule prod_cases4)
  moreover obtain t2 r2 p2 where "for_next ?C ?T (None, 0) = (t2, r2, p2)"
    by (rule prod_cases3)
  ultimately have "fst (snd (for_next ?C ?T (None, 0))) = r" "m = (r \<noteq> None)"
    by (simp_all add: R_def)
  with L have "removeOpcodeByData script data =
      (case fst (snd (for_next ?C ?T (None, 0))) of None \<Rightarrow> (script, False) | Some r \<Rightarrow> (r, True))"
    using assms(2) False by (simp add: removeOpcodeByData_def flip: f_def split: option.split)
  then show ?thesis
    using kept_all [OF assms(1), of "canonical_data data"] by (auto simp: cut_loop)
qed

section \<open>Parsing and push-only scripts\<close>

lemma run_tokens_all:
  "run_tokens (\<lambda>b d s. if Q b then Break False else Continue True) ts True =
    (if list_all (\<lambda>(b, d, raw). \<not> Q b) ts then Continue True else Break False)"
  by (induction ts) auto

lemma IsPushOnlyScript_iff:
  "IsPushOnlyScript s \<longleftrightarrow> snd (tokens s) \<and> list_all (\<lambda>(b, d, raw). b \<le> OP_16) (fst (tokens s))"
proof -
  obtain t p where L: "for_next (\<lambda>t _. if tokenizer_Opcode t > OP_16 then Break False else Continue True)
       (MakeScriptTokenizer 0 s) True = (t, p)" by fastforce
  from for_next_v0 [where g = "\<lambda>b d s. if b > OP_16 then Break False else Continue True", OF L]
  have "(tk_err t = None, p) = token_loop (\<lambda>b d s. if b > OP_16 then Break False else Continue True) s True" .
  with L show ?thesis
    by (auto simp: IsPushOnlyScript_def token_loop_def run_tokens_all not_less split: if_splits)
qed

lemma run_tokens_Continue: "\<exists>s'. run_tokens (\<lambda>b d s. Continue (h b d s)) ts s = Continue s'"
  by (induction ts arbitrary: s) auto

lemma loop_err_iff:
  "tk_err (fst (for_next (\<lambda>t s. Continue (h (tokenizer_Opcode t) (tk_data t) s)) (MakeScriptTokenizer 0 bs) s)) = None
   \<longleftrightarrow> snd (tokens bs)"
proof -
  obtain t p where L: "for_next (\<lambda>t s. Continue (h (tokenizer_Opcode t) (tk_data t) s)) (MakeScriptTokenizer 0 bs) s = (t, p)"
    by fastforce
  from for_next_v0 [where g = "\<lambda>b d s. Continue (h b d s)", OF L]
    run_tokens_Continue [of h "fst (tokens bs)" s] L
  show ?thesis by (auto simp: token_loop_def)
qed

lemma checkScriptParses_iff: "checkScriptParses 0 bs = None \<longleftrightarrow> snd (tokens bs)"
  unfolding checkScriptParses_def by (rule loop_err_iff)

lemma tokens_push_rest:
  "IsSmallInt op \<Longrightarrow> 1 \<le> length p \<Longrightarrow> length p \<le> 75 \<Longrightarrow>
   tokens (op # word_of_nat (length p) # p) =
     ([(op, None, [op]), (word_of_nat (length p), Some p, word_of_nat (length p) # p)], True)"
proof -
  assume op: "IsSmallInt op" and p: "1 \<le> length p" "length p \<le> 75"
  define b :: byte where "b = word_of_nat (length p)"
  have u: "unat b = length p" using p by (simp add: b_def unat_of_nat take_bit_eq_mod)
  then have "parse_op (b # p) = Some (b, Some p, Suc (length p))"
    using p by (simp add: parse_op_def word_le_nat_alt)
  then show ?thesis
    unfolding b_def [symmetric]
    by (simp add: tokens.simps [of "op # _"] parse_op_SmallInt [OF op] tokens.simps [of "b # p"]
        tokens.simps [of "[]"])
qed

section \<open>The script forms exclude each other\<close>

lemma push_byte:
  fixes p :: bytes
  defines "b \<equiv> word_of_nat (length p) :: byte"
  assumes "1 \<le> length p" "length p \<le> 75"
  shows "parse_op (b # p) = Some (b, Some p, Suc (length p))" "\<not> IsSmallInt b"
proof -
  have u: "unat b = length p" using assms by (simp add: b_def unat_of_nat take_bit_eq_mod)
  then show "parse_op (b # p) = Some (b, Some p, Suc (length p))"
    using assms by (simp add: parse_op_def word_le_nat_alt)
  show "\<not> IsSmallInt b"
    using u assms by (auto simp: IsSmallInt_def word_le_nat_alt)
qed

lemma not_multisig_push:
  assumes op: "IsSmallInt op" and p: "1 \<le> length p" "length p \<le> 75"
  shows "\<not> isMultisigScript 0 (op # word_of_nat (length p) # p)"
proof -
  define b :: byte where "b = word_of_nat (length p)"
  let ?s = "op # b # p"
  let ?t = "tk_advance (MakeScriptTokenizer 0 ?s) op None (Suc 0)"
  let ?u = "tk_advance ?t b (Some p) (Suc (length p))"
  have t: "tokenizer_Next (MakeScriptTokenizer 0 ?s) = (True, ?t)"
    by (simp add: Next_first parse_op_SmallInt [OF op])
  have u: "tokenizer_Next ?t = (True, ?u)"
    using push_byte [OF p, folded b_def] by (simp add: tokenizer_Next_parse tokenizer_Done_def)
  have d: "tokenizer_Done ?u" by (simp add: tokenizer_Done_def)
  have fin: "tokenizer_Done (fst (for_next body ?t s))" if c: "\<And>s'. \<exists>s''. body ?u s' = Continue s''"
    for body :: "tokenizer \<Rightarrow> nat \<times> bytes list \<Rightarrow> (nat \<times> bytes list) flow" and s
  proof -
    obtain s' where "body ?u s = Continue s'" using c by blast
    moreover have "for_next body ?u s' = (?u, s')"
      using d by (simp add: for_next.simps [of _ ?u] tokenizer_Next_parse)
    ultimately show ?thesis using u d by (simp add: for_next.simps [of _ ?t])
  qed
  have "tokenizer_Done (fst (for_next (\<lambda>t (n, keys).
           if IsSmallInt (tokenizer_Opcode t) then Break (n, keys)
           else let data = slice_bytes (tk_data t) in
             if \<not> isStrictPubKeyEncoding data then Continue (n + 1, keys)
             else Continue (n + 1, if False then keys @ [data] else keys)) ?t (0::nat, [])))"
    by (rule fin) (use push_byte(2) [OF p, folded b_def] in \<open>auto simp: Let_def\<close>)
  then show ?thesis
    unfolding b_def [symmetric]
    by (auto simp: isMultisigScript_def extractMultisigScriptDetails_def no_multiSigDetails_def t op
        split: prod.split)
qed

lemma isMultisig_first: "isMultisigScript 0 (b # r) \<Longrightarrow> IsSmallInt b"
  by (auto simp: isMultisigScript_def extractMultisigScriptDetails_def no_multiSigDetails_def Next_first
      Let_def dest: parse_op_bounds split: option.splits if_splits)

lemma witness_form:
  assumes "s ! 0 = op" "s ! 1 = word_of_nat n" "length s = n + 2" "IsSmallInt op" "1 \<le> n" "n \<le> 75"
  shows "s = op # word_of_nat n # drop 2 s" "\<not> isMultisigScript 0 s"
proof -
  show s: "s = op # word_of_nat n # drop 2 s" using assms(1-3) by (cases s; cases "tl s") auto
  have "length (drop 2 s) = n" using assms by simp
  then show "\<not> isMultisigScript 0 s"
    by (subst s) (use not_multisig_push [OF assms(4), of "drop 2 s"] assms(5,6) in simp)
qed

lemma witness_v0_facts:
  "isWitnessPubKeyHashScript s \<Longrightarrow> s ! 0 = OP_0 \<and> length s = 22 \<and> \<not> isMultisigScript 0 s"
  "isWitnessScriptHashScript s \<Longrightarrow> s ! 0 = OP_0 \<and> length s = 34 \<and> \<not> isMultisigScript 0 s"
  "isWitnessTaprootScript s \<Longrightarrow> s ! 0 = OP_1 \<and> length s = 34 \<and> \<not> isMultisigScript 0 s"
  using witness_form(2) [of s OP_0 20] witness_form(2) [of s OP_0 32] witness_form(2) [of s OP_1 32]
  by (simp_all add: isWitnessPubKeyHashScript_def extractWitnessPubKeyHash_def IsSmallInt_def
      isWitnessScriptHashScript_def extractWitnessV0ScriptHash_def
      isWitnessTaprootScript_def extractWitnessV1KeyBytes_def split: if_splits)

lemma form_first_byte:
  "isPubKeyScript s \<Longrightarrow> s ! 0 = OP_DATA_33 \<or> s ! 0 = OP_DATA_65"
  "isPubKeyHashScript s \<Longrightarrow> s ! 0 = OP_DUP"
  "isScriptHashScript s \<Longrightarrow> s ! 0 = OP_HASH160"
  "isMultisigScript 0 s \<Longrightarrow> IsSmallInt (s ! 0)"
  "isNullDataScript 0 s \<Longrightarrow> s ! 0 = OP_RETURN"
proof -
  show "isPubKeyScript s \<Longrightarrow> s ! 0 = OP_DATA_33 \<or> s ! 0 = OP_DATA_65"
    by (auto simp: isPubKeyScript_def extractPubKey_def extractCompressedPubKey_def
        extractUncompressedPubKey_def split: if_splits option.splits)
  show "isPubKeyHashScript s \<Longrightarrow> s ! 0 = OP_DUP"
    by (simp add: isPubKeyHashScript_def extractPubKeyHash_def split: if_splits)
  show "isScriptHashScript s \<Longrightarrow> s ! 0 = OP_HASH160"
    by (simp add: isScriptHashScript_def extractScriptHash_def split: if_splits)
  show "isMultisigScript 0 s \<Longrightarrow> IsSmallInt (s ! 0)"
    using isMultisig_first
    by (cases s) (simp_all add: isMultisigScript_def extractMultisigScriptDetails_def no_multiSigDetails_def)
  show "isNullDataScript 0 s \<Longrightarrow> s ! 0 = OP_RETURN"
    by (simp add: isNullDataScript_def split: if_splits)
qed

text \<open>A form that holds is the class the script gets, whatever the order of the tests.\<close>

lemma typeOfScript_WSH: "isWitnessScriptHashScript s \<Longrightarrow> typeOfScript 0 s = WitnessV0ScriptHashTy"
  using witness_v0_facts(1,2) [of s] form_first_byte(1-3) [of s] by (auto simp: typeOfScript_def)

lemma typeOfScript_WSH_iff: "typeOfScript 0 s = WitnessV0ScriptHashTy \<longleftrightarrow> isWitnessScriptHashScript s"
proof
  show "typeOfScript 0 s = WitnessV0ScriptHashTy \<Longrightarrow> isWitnessScriptHashScript s"
    by (simp add: typeOfScript_def split: if_splits)
qed (rule typeOfScript_WSH)

lemma WSH_parses: "isWitnessScriptHashScript s \<Longrightarrow> snd (tokens s)"
proof -
  assume "isWitnessScriptHashScript s"
  then have "s ! 0 = OP_0" "s ! 1 = word_of_nat 32" "length s = 32 + 2"
    by (simp_all add: isWitnessScriptHashScript_def extractWitnessV0ScriptHash_def split: if_splits)
  then have "s = OP_0 # word_of_nat 32 # drop 2 s" "length (drop 2 s) = 32"
    using witness_form(1) [of s OP_0 32] by (simp_all add: IsSmallInt_def)
  then show ?thesis
    using tokens_push_rest [of OP_0 "drop 2 s"] by (simp add: IsSmallInt_def)
qed

section \<open>Properties\<close>

text \<open>
  C36: \<open>extractWitnessProgramInfo\<close> accepts exactly the scripts that BIP 141 calls witness programs, a
  small integer opcode followed by one direct push of 2 to 40 bytes that ends the script, and
  returns the version that the opcode stands for and the bytes pushed.
\<close>

theorem witness_program_form:
  "(ExtractWitnessProgramInfo script = Some (v, d) \<longleftrightarrow>
      (\<exists>op p. script = op # word_of_nat (length p) # p \<and> IsSmallInt op \<and> v = AsSmallInt op
        \<and> d = Some p \<and> 2 \<le> length p \<and> length p \<le> 40))
   \<and> (isWitnessProgramScript script \<longleftrightarrow> ExtractWitnessProgramInfo script \<noteq> None)"
  unfolding witness_program_iff [symmetric]
  by (auto simp: ExtractWitnessProgramInfo_def isWitnessProgramScript_def split: prod.splits if_splits)

text \<open>
  On a script that parses, \<open>removeOpcodeRaw\<close> and \<open>removeOpcodeByData\<close> return the script without
  the opcodes to remove: the pieces of the script that are kept, in their order and byte for byte,
  together with the flag that says whether one was removed.
\<close>

theorem removeOpcode_keeps:
  assumes "checkScriptParses 0 script = None" "data \<noteq> []"
  shows "removeOpcodeRaw script opcode = kept (\<lambda>b d. b = opcode) script
    \<and> removeOpcodeByData script data =
        (kept (canonical_data data) script, cuts (canonical_data data) script)"
  using assms removeOpcodeRaw_kept removeOpcodeByData_kept by (simp add: checkScriptParses_iff)

theorem removeOpcode_keeps_witness:
  "checkScriptParses 0 [OP_1, 2, 0xab, 0xcd, OP_CHECKSIG] = None
   \<and> removeOpcodeRaw [OP_1, 2, 0xab, 0xcd, OP_CHECKSIG] OP_CHECKSIG = [OP_1, 2, 0xab, 0xcd]
   \<and> removeOpcodeByData [OP_1, 2, 0xab, 0xcd, OP_CHECKSIG] [0xab, 0xcd] = ([OP_1, OP_CHECKSIG], True)"
proof -
  let ?s = "[OP_1, 2, 0xab, 0xcd, OP_CHECKSIG] :: bytes" and ?d = "[0xab, 0xcd] :: bytes"
  have t: "tokens ?s = ([(OP_1, None, [OP_1]), (2, Some ?d, 2 # ?d), (OP_CHECKSIG, None, [OP_CHECKSIG])], True)"
    by (simp add: tokens.simps parse_op_def)
  have h: "checkScriptParses 0 ?s = None" by (simp add: checkScriptParses_iff t)
  show ?thesis
    using h removeOpcode_keeps [OF h, of ?d OP_CHECKSIG]
    by (simp add: kept_def cuts_def t canonical_data_def slice_bytes_def isCanonicalPush_def)
qed

text \<open>
  C38: counting signature operations precisely never counts more than counting them coarsely, and a
  script has at most twenty per byte.
\<close>

theorem countSigOps_bounds:
  "countSigOpsV0 script True \<le> countSigOpsV0 script False
   \<and> countSigOpsV0 script False \<le> 20 * length script"
proof
  define body where "body = (\<lambda>precise t (numSigOps, prevOp).
         Continue
           (if tokenizer_Opcode t \<in> {OP_CHECKSIG, OP_CHECKSIGVERIFY} then numSigOps + 1
            else if tokenizer_Opcode t \<in> {OP_CHECKMULTISIG, OP_CHECKMULTISIGVERIFY} then
              (if precise \<and> prevOp \<ge> OP_1 \<and> prevOp \<le> OP_16 then numSigOps + AsSmallInt prevOp
               else numSigOps + MaxPubKeysPerMultiSig)
            else numSigOps,
            tokenizer_Opcode t))"
  have eq: "countSigOpsV0 script precise = fst (snd (for_next (body precise) (MakeScriptTokenizer 0 script) (0, OP_INVALIDOPCODE)))"
    for precise by (simp add: countSigOpsV0_def body_def)
  define R where "R = (\<lambda>(n1, p1 :: byte) (n2, p2). n1 \<le> (n2 :: nat) \<and> p1 = p2)"
  have small: "x + AsSmallInt p \<le> y + MaxPubKeysPerMultiSig" if "x \<le> y" "p \<le> OP_16" "p \<ge> OP_1"
    for p x y
    using that by (auto simp: AsSmallInt_def word_le_nat_alt unat_sub)
  have "rel_flow R (body True t s1) (body False t s2)" if "R s1 s2" for t s1 s2
    using that by (auto simp: body_def R_def intro: small)
  then have "rel_prod (=) R (for_next (body True) (MakeScriptTokenizer 0 script) (0, OP_INVALIDOPCODE))
     (for_next (body False) (MakeScriptTokenizer 0 script) (0, OP_INVALIDOPCODE))"
    by (intro for_next_sim) (auto simp: R_def)
  then show "countSigOpsV0 script True \<le> countSigOpsV0 script False"
    by (auto simp: eq R_def rel_prod_conv split: prod.splits)
  show "countSigOpsV0 script False \<le> 20 * length script"
    unfolding eq
    by (rule for_next_inv [where I = "\<lambda>t s. fst s \<le> 20 * tk_offset t \<and> tk_offset t \<le> length script \<and> tk_script t = script"])
      (auto simp: body_def dest!: tokenizer_Next_progress split: if_splits)
qed


text \<open>
  C39: \<open>CalcScriptInfo\<close> panics on exactly one kind of input: a pay-to-witness-script-hash output spent
  with an empty witness, where the code takes the last element of the witness without a check.
\<close>

theorem CalcScriptInfo_panic:
  "CalcScriptInfo sigScript pkScript witness bip16 segwit = Panic \<longleftrightarrow>
     isWitnessScriptHashScript pkScript \<and> segwit \<and> witness = [] \<and> IsPushOnlyScript sigScript"
proof -
  have "tk_err (fst (for_next (\<lambda>_ n. Continue (n + 1)) (MakeScriptTokenizer 0 sigScript) (0::nat))) = None
      \<longleftrightarrow> snd (tokens sigScript)"
    by (rule loop_err_iff)
  then show ?thesis
    using WSH_parses [of pkScript] checkScriptParses_iff [of pkScript] IsPushOnlyScript_iff [of sigScript]
    by (auto simp: CalcScriptInfo_def Let_def typeOfScript_WSH_iff typeOfScript_WSH
        split: prod.splits option.splits if_splits)
qed

end
