(* ===== verification/Sugar_Serialize.thy ===== *)
theory Sugar_Serialize
  imports Script_Analysis
begin

text \<open>
  The byte formats of the address, unspent, spent and timestamp index: \<open>sugarindex/serialize.go\<close>
  and \<open>sugarindex/types.go\<close>. A writer \<open>enc\<close> is the bytes it has accumulated; a reader \<open>dec\<close> is a
  byte string with an offset, and \<^const>\<open>None\<close> as the result of a read is \<open>errShort\<close>. A key whose
  hash is longer than 32 bytes makes \<open>hashIndex\<close> panic, which is \<^const>\<open>None\<close> as the result of a writer.
\<close>

section \<open>Writers (\<open>serialize.go\<close>)\<close>

abbreviation (input) DBAddressIndex :: byte where "DBAddressIndex \<equiv> 0x61"
abbreviation (input) DBAddressUnspent :: byte where "DBAddressUnspent \<equiv> 0x75"
abbreviation (input) DBTimestampIndex :: byte where "DBTimestampIndex \<equiv> 0x73"
abbreviation (input) DBSpentIndex :: byte where "DBSpentIndex \<equiv> 0x70"

abbreviation (input) AddrIndtUnknown :: nat where "AddrIndtUnknown \<equiv> 0"
abbreviation (input) AddrIndtPubkeyAddress :: nat where "AddrIndtPubkeyAddress \<equiv> 1"
abbreviation (input) AddrIndtScriptAddress :: nat where "AddrIndtScriptAddress \<equiv> 2"
abbreviation (input) AddrIndtWitnessV0KeyHash :: nat where "AddrIndtWitnessV0KeyHash \<equiv> 5"
abbreviation (input) AddrIndtWitnessV0ScriptHash :: nat where "AddrIndtWitnessV0ScriptHash \<equiv> 6"
abbreviation (input) AddrIndtWitnessV1Taproot :: nat where "AddrIndtWitnessV1Taproot \<equiv> 7"

definition enc_u8 :: "byte \<Rightarrow> bytes \<Rightarrow> bytes" where
  "enc_u8 v e = e @ [v]"

definition enc_u32 :: "u32 \<Rightarrow> bytes \<Rightarrow> bytes" where
  "enc_u32 v e = e @ le_bytes 4 v"

definition enc_i32 :: "i32 \<Rightarrow> bytes \<Rightarrow> bytes" where
  "enc_i32 v e = enc_u32 v e"

definition enc_i64 :: "i64 \<Rightarrow> bytes \<Rightarrow> bytes" where
  "enc_i64 v e = e @ le_bytes 8 v"

definition enc_boolean :: "bool \<Rightarrow> bytes \<Rightarrow> bytes" where
  "enc_boolean v e = (if v then enc_u8 1 e else enc_u8 0 e)"

definition enc_compactSize :: "u64 \<Rightarrow> bytes \<Rightarrow> bytes" where
  "enc_compactSize n e =
    (if n < 253 then enc_u8 (ucast n) e
     else if n \<le> 0xffff then enc_u32 (ucast n) (enc_u8 0xfd e)
     else if n \<le> 0xffffffff then enc_u32 (ucast n) (enc_u8 0xfe e)
     else enc_u8 0xff e @ le_bytes 8 n)"

definition enc_hash :: "hash \<Rightarrow> bytes \<Rightarrow> bytes" where
  "enc_hash h e = e @ h"

definition enc_hashIndex :: "bytes \<Rightarrow> bytes \<Rightarrow> bytes option" where
  "enc_hashIndex hashBytes e =
    (if length hashBytes > 32 then None
     else Some (e @ hashBytes @ replicate (32 - length hashBytes) 0))"

definition enc_script :: "bytes \<Rightarrow> bytes \<Rightarrow> bytes" where
  "enc_script s e = enc_compactSize (word_of_nat (length s)) e @ s"

text \<open>An empty key makes the remainder panic for a non-empty value; the key in use has 8 bytes.\<close>

definition xorObfuscate :: "bytes \<Rightarrow> bytes \<Rightarrow> bytes" where
  "xorObfuscate key value =
    map (\<lambda>i. value ! i XOR key ! (i mod length key)) [0..<length value]"

section \<open>Readers\<close>

record dec =
  d_b :: bytes
  d_off :: nat

definition dec_remaining :: "dec \<Rightarrow> nat" where
  "dec_remaining d = length (d_b d) - d_off d"

definition dec_u8 :: "dec \<Rightarrow> (byte \<times> dec) option" where
  "dec_u8 d = (if dec_remaining d < 1 then None
     else Some (d_b d ! d_off d, d\<lparr>d_off := d_off d + 1\<rparr>))"

definition dec_u16 :: "dec \<Rightarrow> (u16 \<times> dec) option" where
  "dec_u16 d = (if dec_remaining d < 2 then None
     else Some (le_word (take 2 (drop (d_off d) (d_b d))), d\<lparr>d_off := d_off d + 2\<rparr>))"

definition dec_u32 :: "dec \<Rightarrow> (u32 \<times> dec) option" where
  "dec_u32 d = (if dec_remaining d < 4 then None
     else Some (le_word (take 4 (drop (d_off d) (d_b d))), d\<lparr>d_off := d_off d + 4\<rparr>))"

definition dec_i32 :: "dec \<Rightarrow> (i32 \<times> dec) option" where
  "dec_i32 d = dec_u32 d"

definition dec_u64 :: "dec \<Rightarrow> (u64 \<times> dec) option" where
  "dec_u64 d = (if dec_remaining d < 8 then None
     else Some (le_word (take 8 (drop (d_off d) (d_b d))), d\<lparr>d_off := d_off d + 8\<rparr>))"

definition dec_i64 :: "dec \<Rightarrow> (i64 \<times> dec) option" where
  "dec_i64 d = (if dec_remaining d < 8 then None
     else Some (le_word (take 8 (drop (d_off d) (d_b d))), d\<lparr>d_off := d_off d + 8\<rparr>))"

definition dec_boolean :: "dec \<Rightarrow> (bool \<times> dec) option" where
  "dec_boolean d = do { (v, d) \<leftarrow> dec_u8 d; Some (v \<noteq> 0, d) }"

definition dec_compactSize :: "dec \<Rightarrow> (u64 \<times> dec) option" where
  "dec_compactSize d = do {
     (first, d) \<leftarrow> dec_u8 d;
     if first = 0xfd then do { (v, d) \<leftarrow> dec_u16 d; Some (ucast v, d) }
     else if first = 0xfe then do { (v, d) \<leftarrow> dec_u32 d; Some (ucast v, d) }
     else if first = 0xff then dec_u64 d
     else Some (ucast first, d) }"

definition dec_hash :: "dec \<Rightarrow> (hash \<times> dec) option" where
  "dec_hash d = (if dec_remaining d < 32 then None
     else Some (slice (d_off d) (d_off d + 32) (d_b d), d\<lparr>d_off := d_off d + 32\<rparr>))"

definition dec_script :: "dec \<Rightarrow> (bytes \<times> dec) option" where
  "dec_script d = do {
     (n, d) \<leftarrow> dec_compactSize d;
     if dec_remaining d < unat n then None
     else Some (slice (d_off d) (d_off d + unat n) (d_b d), d\<lparr>d_off := d_off d + unat n\<rparr>) }"

section \<open>Keys and values (\<open>types.go\<close>)\<close>

definition ExtractIndexInfo :: "bytes \<Rightarrow> nat \<times> bytes" where
  "ExtractIndexInfo pkScript =
    (if isPubKeyHashScript pkScript then (AddrIndtPubkeyAddress, slice 3 23 pkScript)
     else if isScriptHashScript pkScript then (AddrIndtScriptAddress, slice 2 22 pkScript)
     else if isWitnessScriptHashScript pkScript then (AddrIndtWitnessV0ScriptHash, slice 2 34 pkScript)
     else case ExtractWitnessProgramInfo pkScript of
       Some (version, program) \<Rightarrow>
         if version = 0 then (AddrIndtWitnessV0KeyHash, slice_bytes program)
         else if version = 1 then (AddrIndtWitnessV1Taproot, slice_bytes program)
         else (AddrIndtUnknown, [])
     | None \<Rightarrow> (AddrIndtUnknown, []))"

record AddressIndexKey =
  ak_Type :: u32
  ak_HashBytes :: bytes
  ak_BlockHeight :: i32
  ak_TxIndex :: u32
  ak_TxHash :: hash
  ak_Index :: u32
  ak_Spending :: bool

definition AddressIndexKey_Key :: "AddressIndexKey \<Rightarrow> bytes option" where
  "AddressIndexKey_Key k = do {
     let e = enc_u32 (ak_Type k) (enc_u8 DBAddressIndex []);
     e \<leftarrow> enc_hashIndex (ak_HashBytes k) e;
     Some (enc_boolean (ak_Spending k) (enc_u32 (ak_Index k) (enc_hash (ak_TxHash k)
       (enc_u32 (ak_TxIndex k) (enc_i32 (ak_BlockHeight k) e))))) }"

record AddressUnspentKey =
  uk_Type :: u32
  uk_HashBytes :: bytes
  uk_TxHash :: hash
  uk_Index :: u32

definition AddressUnspentKey_Key :: "AddressUnspentKey \<Rightarrow> bytes option" where
  "AddressUnspentKey_Key k = do {
     let e = enc_u32 (uk_Type k) (enc_u8 DBAddressUnspent []);
     e \<leftarrow> enc_hashIndex (uk_HashBytes k) e;
     Some (enc_u32 (uk_Index k) (enc_hash (uk_TxHash k) e)) }"

record AddressUnspentValue =
  uv_Satoshis :: i64
  uv_Script :: bytes
  uv_BlockHeight :: i32

definition AddressUnspentValue_Encode :: "AddressUnspentValue \<Rightarrow> bytes" where
  "AddressUnspentValue_Encode v =
    enc_i32 (uv_BlockHeight v) (enc_script (uv_Script v) (enc_i64 (uv_Satoshis v) []))"

record SpentIndexKey =
  sk_TxID :: hash
  sk_OutputIndex :: u32

definition SpentIndexKey_Key :: "SpentIndexKey \<Rightarrow> bytes" where
  "SpentIndexKey_Key k = enc_u32 (sk_OutputIndex k) (enc_hash (sk_TxID k) (enc_u8 DBSpentIndex []))"

record SpentIndexValue =
  sv_TxID :: hash
  sv_InputIndex :: u32
  sv_BlockHeight :: i32
  sv_Satoshis :: i64
  sv_AddressType :: i32
  sv_AddressHash :: bytes

definition SpentIndexValue_Encode :: "SpentIndexValue \<Rightarrow> bytes option" where
  "SpentIndexValue_Encode v =
    enc_hashIndex (sv_AddressHash v) (enc_i32 (sv_AddressType v) (enc_i64 (sv_Satoshis v)
      (enc_i32 (sv_BlockHeight v) (enc_u32 (sv_InputIndex v) (enc_hash (sv_TxID v) [])))))"

record TimestampIndexKey =
  tk_Timestamp :: u32
  tk_BlockHash :: hash

definition TimestampIndexKey_Key :: "TimestampIndexKey \<Rightarrow> bytes" where
  "TimestampIndexKey_Key k = enc_hash (tk_BlockHash k) (enc_u32 (tk_Timestamp k) (enc_u8 DBTimestampIndex []))"

section \<open>A field that is written can be read back\<close>

text \<open>
  The interface of one field of a record: what \<open>put\<close> appends, \<open>get\<close> reads at the current offset and
  moves the offset past it, whatever follows. The values \<open>ok\<close> singles out are those the format carries.
\<close>

lemma drop_after:
  "drop (d_off d) (d_b d) = xs @ rest \<Longrightarrow>
   drop (d_off (d\<lparr>d_off := d_off d + length xs\<rparr>)) (d_b (d\<lparr>d_off := d_off d + length xs\<rparr>)) = rest"
  by (simp flip: drop_drop add: add.commute)

locale reader =
  fixes put :: "'a \<Rightarrow> bytes \<Rightarrow> bytes"
    and get :: "dec \<Rightarrow> ('a \<times> dec) option"
    and ok :: "'a \<Rightarrow> bool"
  assumes put_append: "put x e = e @ put x []"
    and get_at: "ok x \<Longrightarrow> drop (d_off d) (d_b d) = put x [] @ rest \<Longrightarrow>
      get d = Some (x, d\<lparr>d_off := d_off d + length (put x [])\<rparr>)"
begin

lemma get_next:
  assumes "ok x" "drop (d_off d) (d_b d) = put x [] @ rest"
  obtains d' where "get d = Some (x, d')" "d_b d' = d_b d" "drop (d_off d') (d_b d') = rest"
proof
  show "get d = Some (x, d\<lparr>d_off := d_off d + length (put x [])\<rparr>)" using assms by (rule get_at)
  show "drop (d_off (d\<lparr>d_off := d_off d + length (put x [])\<rparr>)) (d_b (d\<lparr>d_off := d_off d + length (put x [])\<rparr>)) = rest"
    using assms(2) by (rule drop_after)
qed simp

end

sublocale reader \<subseteq> prefix_code "\<lambda>x. put x []" ok
proof
  fix x y r s assume ok: "ok x" "ok y" and e: "put x [] @ r = put y [] @ s"
  let ?d = "\<lparr>d_b = put x [] @ r, d_off = 0\<rparr>"
  have "get ?d = Some (x, ?d\<lparr>d_off := d_off ?d + length (put x [])\<rparr>)"
    by (rule get_at [OF ok(1)]) simp
  moreover have "get ?d = Some (y, ?d\<lparr>d_off := d_off ?d + length (put y [])\<rparr>)"
    by (rule get_at [OF ok(2)]) (simp add: e)
  ultimately show "x = y" by simp
qed

lemma dec_remaining_drop: "drop (d_off d) (d_b d) = bs \<Longrightarrow> dec_remaining d = length bs"
  by (auto simp: dec_remaining_def)

lemma nth_of_drop: "drop i xs = y # ys \<Longrightarrow> xs ! i = y"
  by (metis drop_eq_Nil2 hd_drop_conv_nth linorder_not_less list.distinct(1) list.sel(1))

interpretation rd_u8: reader enc_u8 dec_u8 "\<lambda>_. True"
  by unfold_locales (auto simp: enc_u8_def dec_u8_def dec_remaining_drop nth_of_drop)

interpretation rd_u32: reader enc_u32 dec_u32 "\<lambda>_. True"
  by unfold_locales (auto simp: enc_u32_def dec_u32_def dec_remaining_drop codec)

interpretation rd_i32: reader enc_i32 dec_i32 "\<lambda>_. True"
  by unfold_locales (auto simp: enc_i32_def dec_i32_def enc_u32_def dec_u32_def dec_remaining_drop codec)

interpretation rd_i64: reader enc_i64 dec_i64 "\<lambda>_. True"
  by unfold_locales (auto simp: enc_i64_def dec_i64_def dec_remaining_drop codec)

interpretation rd_boolean: reader enc_boolean dec_boolean "\<lambda>_. True"
  by unfold_locales
    (auto simp: enc_boolean_def enc_u8_def dec_boolean_def dec_u8_def dec_remaining_drop nth_of_drop)

interpretation rd_hash: reader enc_hash dec_hash is_hash
  by unfold_locales
    (auto simp: enc_hash_def dec_hash_def dec_remaining_drop is_hash_def slice_def)

lemma dec_u64_read: "drop (d_off d) (d_b d) = le_bytes 8 n @ rest \<Longrightarrow>
    dec_u64 d = Some (n, d\<lparr>d_off := d_off d + 8\<rparr>)"
  by (simp add: dec_u64_def dec_remaining_drop codec)

lemma dec_u8_read: "drop (d_off d) (d_b d) = v # rest \<Longrightarrow> dec_u8 d = Some (v, d\<lparr>d_off := d_off d + 1\<rparr>)
    \<and> drop (d_off (d\<lparr>d_off := d_off d + 1\<rparr>)) (d_b (d\<lparr>d_off := d_off d + 1\<rparr>)) = rest"
  by (auto simp: dec_u8_def dec_remaining_drop nth_of_drop drop_Suc simp flip: tl_drop)

lemma byte_of_small:
  assumes "n < (253 :: u64)"
  shows "ucast (ucast n :: byte) = n" "(ucast n :: byte) \<noteq> 0xfd" "(ucast n :: byte) \<noteq> 0xfe" "(ucast n :: byte) \<noteq> 0xff"
proof -
  have n: "unat n < 253" using assms by (simp add: word_less_nat_alt)
  then show "ucast (ucast n :: byte) = n" by (simp add: ucast_ucast_small)
  have "unat (ucast n :: byte) = unat n" by (rule unat_ucast_small) (use n in simp)
  with n have "unat (ucast n :: byte) < 253" by simp
  then show "(ucast n :: byte) \<noteq> 0xfd" "(ucast n :: byte) \<noteq> 0xfe" "(ucast n :: byte) \<noteq> 0xff"
    by auto
qed

lemma compactSize_read:
  assumes n: "n < 253 \<or> 0xffff < n" and d: "drop (d_off d) (d_b d) = enc_compactSize n [] @ rest"
  shows "dec_compactSize d = Some (n, d\<lparr>d_off := d_off d + length (enc_compactSize n [])\<rparr>)"
proof -
  consider (byte) "n < 253" | (u32) "\<not> n < 253" "0xffff < n" "n \<le> 0xffffffff"
    | (u64) "\<not> n < 253" "\<not> n \<le> 0xffff" "\<not> n \<le> 0xffffffff" using n by fastforce
  then show ?thesis
  proof cases
    case byte
    then show ?thesis
      using d dec_u8_read [of d "ucast n" rest] byte_of_small [OF byte]
      by (simp add: enc_compactSize_def enc_u8_def dec_compactSize_def)
  next
    case u32
    then have e: "enc_compactSize n [] = 0xfe # le_bytes 4 (ucast n :: u32)"
      by (simp add: enc_compactSize_def enc_u8_def enc_u32_def not_le)
    let ?d = "d\<lparr>d_off := d_off d + 1\<rparr>"
    have r: "dec_u8 d = Some (0xfe, ?d)" "drop (d_off ?d) (d_b ?d) = le_bytes 4 (ucast n :: u32) @ rest"
      using d dec_u8_read [of d] by (simp_all add: e)
    have "dec_u32 ?d = Some (ucast n, ?d\<lparr>d_off := d_off ?d + 4\<rparr>)"
      using r(2) by (simp add: dec_u32_def dec_remaining_drop codec)
    moreover have "ucast (ucast n :: u32) = n"
      using u32(3) by (intro ucast_ucast_small) (simp add: word_le_nat_alt)
    ultimately show ?thesis using r(1) by (simp add: dec_compactSize_def e)
  next
    case u64
    then have e: "enc_compactSize n [] = 0xff # le_bytes 8 n"
      by (simp add: enc_compactSize_def enc_u8_def)
    let ?d = "d\<lparr>d_off := d_off d + 1\<rparr>"
    have r: "dec_u8 d = Some (0xff, ?d)" "drop (d_off ?d) (d_b ?d) = le_bytes 8 n @ rest"
      using d dec_u8_read [of d] by (simp_all add: e)
    then show ?thesis
      using dec_u64_read [of ?d n rest] by (simp add: dec_compactSize_def e)
  qed
qed

lemma enc_compactSize_append: "enc_compactSize n e = e @ enc_compactSize n []"
  by (simp add: enc_compactSize_def enc_u8_def enc_u32_def)

interpretation rd_compactSize: reader enc_compactSize dec_compactSize "\<lambda>n. n < 253 \<or> 0xffff < n"
  by unfold_locales (rule enc_compactSize_append, rule compactSize_read)

text \<open>A script is carried faithfully when its length is, and when it fits the address space.\<close>

definition script_ok :: "bytes \<Rightarrow> bool" where
  "script_ok s \<longleftrightarrow> (length s < 253 \<or> 0xffff < length s) \<and> length s < 2 ^ 64"

interpretation rd_script: reader enc_script dec_script script_ok
proof unfold_locales
  show "enc_script x e = e @ enc_script x []" for x e
    unfolding enc_script_def by (subst enc_compactSize_append) simp
  fix s rest and d :: dec
  assume ok: "script_ok s" and d: "drop (d_off d) (d_b d) = enc_script s [] @ rest"
  let ?n = "word_of_nat (length s) :: u64"
  have u: "unat ?n = length s" using ok by (simp add: script_ok_def unat_of_nat)
  then have "?n < 253 \<or> 0xffff < ?n" using ok by (simp add: script_ok_def word_less_nat_alt)
  moreover have "drop (d_off d) (d_b d) = enc_compactSize ?n [] @ s @ rest"
    using d by (simp add: enc_script_def)
  moreover define d' where "d' = d\<lparr>d_off := d_off d + length (enc_compactSize ?n [])\<rparr>"
  ultimately have d': "dec_compactSize d = Some (?n, d')" "drop (d_off d') (d_b d') = s @ rest"
    using compactSize_read [of ?n d "s @ rest"] drop_after [of d "enc_compactSize ?n []" "s @ rest"]
    by simp_all
  show "dec_script d = Some (s, d\<lparr>d_off := d_off d + length (enc_script s [])\<rparr>)"
    using d' dec_remaining_drop [OF d'(2)] by (simp add: dec_script_def u slice_def)
      (simp add: d'_def enc_script_def)
qed


section \<open>Keys and values are read back\<close>

lemma enc_hashIndex_Some: "enc_hashIndex hb e = Some r \<longleftrightarrow>
    length hb \<le> 32 \<and> r = e @ hb @ replicate (32 - length hb) 0"
  by (auto simp: enc_hashIndex_def)

definition pad_hash :: "bytes \<Rightarrow> hash" where
  "pad_hash hb = hb @ replicate (32 - length hb) 0"

lemma is_hash_pad: "length hb \<le> 32 \<Longrightarrow> is_hash (pad_hash hb)"
  by (simp add: is_hash_def pad_hash_def)

lemma xorObfuscate_length [simp]: "length (xorObfuscate key value) = length value"
  by (simp add: xorObfuscate_def)

lemma xorObfuscate_xorObfuscate [simp]: "xorObfuscate key (xorObfuscate key value) = value"
  by (rule nth_equalityI) (simp_all add: xorObfuscate_def xor.assoc)

lemmas enc_defs = enc_u8_def enc_u32_def enc_i32_def enc_i64_def enc_boolean_def enc_hash_def

lemma AddressIndexKey_Key_eq:
  "AddressIndexKey_Key k = (if length (ak_HashBytes k) \<le> 32 then Some
     (DBAddressIndex # le_bytes 4 (ak_Type k) @ pad_hash (ak_HashBytes k) @ le_bytes 4 (ak_BlockHeight k)
        @ le_bytes 4 (ak_TxIndex k) @ ak_TxHash k @ le_bytes 4 (ak_Index k) @ [if ak_Spending k then 1 else 0])
     else None)"
  by (simp add: AddressIndexKey_Key_def enc_hashIndex_def enc_defs pad_hash_def)

lemma AddressUnspentKey_Key_eq:
  "AddressUnspentKey_Key k = (if length (uk_HashBytes k) \<le> 32 then Some
     (DBAddressUnspent # le_bytes 4 (uk_Type k) @ pad_hash (uk_HashBytes k) @ uk_TxHash k @ le_bytes 4 (uk_Index k))
     else None)"
  by (simp add: AddressUnspentKey_Key_def enc_hashIndex_def enc_defs pad_hash_def)

lemma SpentIndexKey_Key_eq: "SpentIndexKey_Key k = DBSpentIndex # sk_TxID k @ le_bytes 4 (sk_OutputIndex k)"
  by (simp add: SpentIndexKey_Key_def enc_defs)

lemma TimestampIndexKey_Key_eq:
  "TimestampIndexKey_Key k = DBTimestampIndex # le_bytes 4 (tk_Timestamp k) @ tk_BlockHash k"
  by (simp add: TimestampIndexKey_Key_def enc_defs)

lemmas key_eqs = AddressIndexKey_Key_eq AddressUnspentKey_Key_eq SpentIndexKey_Key_eq TimestampIndexKey_Key_eq


section \<open>What the index stores of an output\<close>

lemma witness_program_Some:
  "ExtractWitnessProgramInfo s = Some (v, d) \<longleftrightarrow>
    (\<exists>op p. s = op # word_of_nat (length p) # p \<and> IsSmallInt op \<and> v = AsSmallInt op
      \<and> d = Some p \<and> 2 \<le> length p \<and> length p \<le> 40)"
  unfolding witness_program_iff [symmetric]
  by (auto simp: ExtractWitnessProgramInfo_def split: prod.splits if_splits)

lemma AsSmallInt_01: "IsSmallInt op \<Longrightarrow> AsSmallInt op = 0 \<longleftrightarrow> op = OP_0"
  "IsSmallInt op \<Longrightarrow> AsSmallInt op = Suc 0 \<longleftrightarrow> op = OP_1"
proof -
  assume op: "IsSmallInt op"
  then have r: "op = OP_0 \<or> 81 \<le> unat op" by (auto simp: IsSmallInt_def word_le_nat_alt)
  then have a: "AsSmallInt op = (if op = OP_0 then 0 else unat op - 80)"
    by (auto simp: AsSmallInt_def unat_sub word_le_nat_alt)
  show "AsSmallInt op = 0 \<longleftrightarrow> op = OP_0" using r by (auto simp: a)
  have "unat op = 81 \<longleftrightarrow> op = OP_1" by (simp add: word_unat_eq_iff)
  then show "AsSmallInt op = Suc 0 \<longleftrightarrow> op = OP_1" using r by (auto simp: a)
qed

text \<open>The indexed scripts are short, and only a witness program of more than 32 bytes has a long hash.\<close>

definition long_program :: "bytes \<Rightarrow> bool" where
  "long_program s \<longleftrightarrow> 35 \<le> length s \<and> length s \<le> 42 \<and> (s ! 0 = OP_0 \<or> s ! 0 = OP_1)
     \<and> s ! 1 = word_of_nat (length s - 2)"

lemma form_lengths:
  "isPubKeyHashScript s \<Longrightarrow> length s = 25" "isScriptHashScript s \<Longrightarrow> length s = 23"
  "isWitnessScriptHashScript s \<Longrightarrow> length s = 34"
  by (auto simp: isPubKeyHashScript_def extractPubKeyHash_def isScriptHashScript_def
      extractScriptHash_def isWitnessScriptHashScript_def extractWitnessV0ScriptHash_def split: if_splits)

lemma ExtractIndexInfo_bounds:
  assumes "ExtractIndexInfo s = (t, hb)" "t \<noteq> 0"
  shows "length s \<le> 42 \<and> length hb \<le> 40 \<and> t < 8 \<and> (32 < length hb \<longleftrightarrow> long_program s)"
proof (cases "isPubKeyHashScript s \<or> isScriptHashScript s \<or> isWitnessScriptHashScript s")
  case True
  then show ?thesis
    using assms form_lengths [of s]
    by (auto simp: ExtractIndexInfo_def long_program_def split: if_splits)
next
  case False
  then obtain op p where s: "s = op # word_of_nat (length p) # p" "IsSmallInt op" "2 \<le> length p" "length p \<le> 40"
    and t: "hb = p" "op = OP_0 \<and> t = 5 \<or> op = OP_1 \<and> t = 7"
    using assms
    by (auto simp: ExtractIndexInfo_def witness_program_Some slice_bytes_def AsSmallInt_01
        split: option.splits if_splits)
  then show ?thesis by (auto simp: long_program_def)
qed

lemma ExtractIndexInfo_long:
  assumes "long_program s"
  shows "fst (ExtractIndexInfo s) \<noteq> 0 \<and> 32 < length (snd (ExtractIndexInfo s))"
proof -
  let ?p = "drop 2 s"
  have l: "35 \<le> length s" "length s \<le> 42" and op: "s ! 0 = OP_0 \<or> s ! 0 = OP_1"
    and b: "s ! 1 = word_of_nat (length ?p)" using assms by (auto simp: long_program_def)
  have s: "s = s ! 0 # s ! 1 # ?p" using l by (cases s; cases "tl s") auto
  have lp: "2 \<le> length ?p" "length ?p \<le> 40" using l by simp_all
  have si: "IsSmallInt (s ! 0)" using op by (auto simp: IsSmallInt_def)
  have "ExtractWitnessProgramInfo s = Some (AsSmallInt (s ! 0), Some ?p)"
    unfolding witness_program_Some
    by (rule exI [of _ "s ! 0"], rule exI [of _ ?p]) (use s b lp si in \<open>simp only: simp_thms\<close>)
  moreover have "\<not> isPubKeyHashScript s" "\<not> isScriptHashScript s" "\<not> isWitnessScriptHashScript s"
    using form_lengths [of s] l by auto
  moreover have "AsSmallInt (s ! 0) = 0 \<or> AsSmallInt (s ! 0) = Suc 0"
    using op AsSmallInt_01 [OF si] by auto
  ultimately show ?thesis using l by (auto simp: ExtractIndexInfo_def slice_bytes_def)
qed

lemma le_bytes_4_2:
  assumes "unat w < 2 ^ 16"
  shows "le_bytes 4 (w :: u32) = le_bytes 2 (ucast w :: u16) @ [0, 0]"
proof -
  have "unat (drop_bit 16 w) = 0" unfolding unat_drop_bit_eq using assms by (simp add: drop_bit_eq_div)
  then have z: "drop_bit 16 w = 0" by (simp add: unat_eq_zero)
  then have z': "drop_bit 24 w = 0" using drop_bit_drop_bit [of 8 16 w] by simp
  have b: "ucast (drop_bit 8 w) = (ucast (drop_bit 8 (ucast w :: u16)) :: byte)"
    by (rule bit_word_eqI) (auto simp: bit_simps)
  have c: "ucast w = (ucast (ucast w :: u16) :: byte)"
    by (rule bit_word_eqI) (auto simp: bit_simps)
  have n: "4 = Suc (Suc (Suc (Suc 0)))" "2 = Suc (Suc (0::nat))" by simp_all
  show ?thesis
    unfolding n le_bytes.simps drop_bit_drop_bit using z z' by (simp add: b c)
qed

lemma ExtractIndexInfo_v0:
  assumes "length p = 20 \<or> length p = 21"
  shows "ExtractIndexInfo (OP_0 # word_of_nat (length p) # p) = (AddrIndtWitnessV0KeyHash, p)"
proof -
  let ?s = "OP_0 # word_of_nat (length p) # p"
  have "ExtractWitnessProgramInfo ?s = Some (0, Some p)"
    unfolding witness_program_Some using assms by (auto simp: IsSmallInt_def AsSmallInt_def)
  moreover have "\<not> isPubKeyHashScript ?s" "\<not> isScriptHashScript ?s" "\<not> isWitnessScriptHashScript ?s"
    using assms form_lengths(1) [of ?s] form_first_byte(3) [of ?s] form_lengths(3) [of ?s] by auto
  ultimately show ?thesis by (simp add: ExtractIndexInfo_def slice_bytes_def)
qed

section \<open>Properties\<close>

text \<open>
  C26: the indexer panics on an output exactly when the output pays to a version 0 or version 1
  witness program of 33 to 40 bytes: \<open>ExtractIndexInfo\<close> hands the whole program to a key that has room
  for 32 bytes. Consensus accepts such outputs.
\<close>

theorem index_key_panics:
  "(fst (ExtractIndexInfo pkScript) \<noteq> AddrIndtUnknown \<and>
    AddressUnspentKey_Key \<lparr>uk_Type = word_of_nat (fst (ExtractIndexInfo pkScript)),
      uk_HashBytes = snd (ExtractIndexInfo pkScript), uk_TxHash = txHash, uk_Index = index\<rparr> = None)
   \<longleftrightarrow> long_program pkScript"
  using ExtractIndexInfo_bounds [of pkScript] ExtractIndexInfo_long [of pkScript]
  by (cases "ExtractIndexInfo pkScript") (auto simp: AddressUnspentKey_Key_eq not_le)

text \<open>
  C28: two different outputs can share their index keys: a version 0 program of 21 bytes that ends in a
  zero byte, which nobody can spend, is filed under the address of the key hash that its first 20 bytes
  spell, so it counts towards that address in every query.
\<close>

theorem padded_program_shares_key:
  assumes "length h = 20"
  shows "ExtractIndexInfo (OP_0 # 20 # h) = (AddrIndtWitnessV0KeyHash, h)
    \<and> ExtractIndexInfo (OP_0 # 21 # h @ [0]) = (AddrIndtWitnessV0KeyHash, h @ [0])
    \<and> AddressUnspentKey_Key \<lparr>uk_Type = 5, uk_HashBytes = h @ [0], uk_TxHash = txHash, uk_Index = index\<rparr>
      = AddressUnspentKey_Key \<lparr>uk_Type = 5, uk_HashBytes = h, uk_TxHash = txHash, uk_Index = index\<rparr>"
proof -
  have "replicate 12 (0::byte) = 0 # replicate 11 0" by (simp flip: replicate_Suc)
  then show ?thesis
    using ExtractIndexInfo_v0 [of h] ExtractIndexInfo_v0 [of "h @ [0]"] assms by (simp add: AddressUnspentKey_Key_eq pad_hash_def)
qed

theorem padded_program_shares_key_witness:
  "length (replicate 20 (7::byte)) = 20
   \<and> AddressUnspentKey_Key \<lparr>uk_Type = 5, uk_HashBytes = replicate 20 7 @ [0], uk_TxHash = zero_hash, uk_Index = 0\<rparr>
     = AddressUnspentKey_Key \<lparr>uk_Type = 5, uk_HashBytes = replicate 20 7, uk_TxHash = zero_hash, uk_Index = 0\<rparr>"
proof -
  have "length (replicate 20 (7::byte)) = 20" by simp
  from padded_program_shares_key [OF this, of zero_hash 0] this show ?thesis by blast
qed

text \<open>
  C35: a script of 253 to 65535 bytes does not survive its serialization: \<open>compactSize\<close> writes its length in
  four bytes and the reader takes two, so two zero bytes appear in front and the last two bytes are lost.
\<close>

theorem script_two_byte_length_lost:
  assumes "253 \<le> length s" "length s \<le> 0xffff"
  shows "dec_script \<lparr>d_b = enc_script s [], d_off = 0\<rparr> =
    Some ([0, 0] @ take (length s - 2) s, \<lparr>d_b = enc_script s [], d_off = length s + 3\<rparr>)"
proof -
  let ?n = "word_of_nat (length s) :: u64"
  define w where "w = (ucast ?n :: u32)"
  define d where "d = \<lparr>d_b = enc_script s [], d_off = 1\<rparr>"
  have u: "unat ?n = length s" using assms by (simp add: unat_of_nat)
  then have w: "unat w = length s" using assms by (simp add: w_def unat_ucast_small)
  have e: "enc_script s [] = 0xfd # le_bytes 2 (ucast w :: u16) @ [0, 0] @ s"
    using assms u w le_bytes_4_2 [of w]
    by (simp add: enc_script_def enc_compactSize_def enc_u8_def enc_u32_def word_less_nat_alt
        word_le_nat_alt flip: w_def)
  have "dec_u16 d = Some (ucast w, d\<lparr>d_off := 3\<rparr>)"
    using le_word_le_bytes [of 2 "ucast w :: u16"] by (simp add: dec_u16_def dec_remaining_def d_def e)
  moreover have "dec_u8 \<lparr>d_b = enc_script s [], d_off = 0\<rparr> = Some (0xfd, d)"
    by (simp add: dec_u8_def dec_remaining_def e d_def)
  moreover have "unat (ucast (ucast w :: u16) :: u64) = length s"
    using assms w by (simp add: unat_ucast_up unat_ucast_small)
  ultimately show ?thesis
    using assms
    by (simp add: dec_script_def dec_compactSize_def dec_remaining_def d_def slice_def)
      (auto simp: e take_Cons' numeral_2_eq_2)
qed

theorem script_two_byte_length_lost_witness:
  "length (replicate 300 (1::byte)) = 300 \<and>
   dec_script \<lparr>d_b = enc_script (replicate 300 1) [], d_off = 0\<rparr> =
    Some ([0, 0] @ replicate 298 1, \<lparr>d_b = enc_script (replicate 300 1) [], d_off = 303\<rparr>)"
  using script_two_byte_length_lost [of "replicate 300 1"] by (simp add: min_def)

end
