(* ===== verification/Sugar_Db.thy ===== *)
theory Sugar_Db
  imports Sugar_Serialize "HOL-Library.List_Lexorder" "HOL-Library.Sublist" "HOL-Library.RBT"
begin

text \<open>
  The database layer of the sugar index, \<open>sugarindex/db.go\<close>. The LevelDB package is not part of the
  repository: its operations are a parameter, a record of functions \<open>leveldb\<close>, and the locale
  \<open>leveldb_spec\<close> states what its documentation promises of a call that succeeds. Any call may fail.
\<close>

section \<open>LevelDB\<close>

datatype ldb_error = ErrNotFound | ErrIO

datatype batch_op = BPut bytes bytes | BDelete bytes

type_synonym batch = "batch_op list"

text \<open>
  \<open>NewIterator\<close> over the keys from \<open>Start\<close> up to, and without, \<open>Limit\<close> yields entries until it is
  exhausted or fails; the second component is what \<open>Error\<close> returns then.
\<close>

record 'db leveldb =
  ldb_Get :: "'db \<Rightarrow> bytes \<Rightarrow> ldb_error + bytes"
  ldb_Put :: "'db \<Rightarrow> bytes \<Rightarrow> bytes \<Rightarrow> ldb_error + 'db"
  ldb_Write :: "'db \<Rightarrow> batch \<Rightarrow> ldb_error + 'db"
  ldb_Iterate :: "'db \<Rightarrow> bytes \<Rightarrow> bytes option \<Rightarrow> (bytes \<times> bytes) list \<times> ldb_error option"

primrec apply_op :: "batch_op \<Rightarrow> (bytes \<rightharpoonup> bytes) \<Rightarrow> (bytes \<rightharpoonup> bytes)" where
  "apply_op (BPut k v) c = c(k \<mapsto> v)"
| "apply_op (BDelete k) c = c(k := None)"

definition apply_batch :: "batch \<Rightarrow> (bytes \<rightharpoonup> bytes) \<Rightarrow> (bytes \<rightharpoonup> bytes)" where
  "apply_batch b c = fold apply_op b c"

definition in_range :: "bytes \<Rightarrow> bytes option \<Rightarrow> bytes \<Rightarrow> bool" where
  "in_range start limit k \<longleftrightarrow> start \<le> k \<and> (case limit of None \<Rightarrow> True | Some l \<Rightarrow> k < l)"

locale leveldb_spec =
  fixes L :: "'db leveldb"
    and inv :: "'db \<Rightarrow> bool"
    and contents :: "'db \<Rightarrow> (bytes \<rightharpoonup> bytes)"
  assumes get_found: "inv db \<Longrightarrow> ldb_Get L db k = Inr v \<Longrightarrow> contents db k = Some v"
    and get_absent: "inv db \<Longrightarrow> ldb_Get L db k = Inl ErrNotFound \<Longrightarrow> contents db k = None"
    and put_ok: "inv db \<Longrightarrow> ldb_Put L db k v = Inr db' \<Longrightarrow> inv db' \<and> contents db' = (contents db)(k \<mapsto> v)"
    and write_ok: "inv db \<Longrightarrow> ldb_Write L db b = Inr db' \<Longrightarrow>
      inv db' \<and> contents db' = apply_batch b (contents db)"
    and iterate_ok: "inv db \<Longrightarrow> ldb_Iterate L db start limit = (kvs, None) \<Longrightarrow>
      sorted_wrt (<) (map fst kvs)
      \<and> (\<forall>k v. (k, v) \<in> set kvs \<longleftrightarrow> contents db k = Some v \<and> in_range start limit k)"

section \<open>The index manager\<close>

text \<open>The fields of \<open>Manager\<close> that the index logic uses: the database and the obfuscation key.\<close>

record 'db manager =
  m_db :: 'db
  m_key :: bytes

datatype index_error = ErrDb ldb_error | ErrKeyLength nat | ErrRand | ErrShort | ErrCorrupt
  | ErrNoChain | ErrBlock | ErrTxIndex | ErrInterrupt

definition obfuscateKeyName :: bytes where
  "obfuscateKeyName = map (word_of_nat \<circ> of_char) (CHR 0x00 # ''obfuscate_key'')"

definition indexTipKey :: bytes where
  "indexTipKey = map (word_of_nat \<circ> of_char) (CHR 0x00 # ''btcd_sugarindex_tip'')"

record txIndexValue =
  xv_height :: i32
  xv_txIndex :: u16

definition txIndexValue_bytes :: "txIndexValue \<Rightarrow> bytes" where
  "txIndexValue_bytes v = le_bytes 4 (xv_height v) @ le_bytes 2 (xv_txIndex v)"

definition decodeTxIndexValue :: "bytes \<Rightarrow> txIndexValue option" where
  "decodeTxIndexValue raw =
    (if length raw \<noteq> 6 then None
     else Some \<lparr>xv_height = le_word (slice 0 4 raw), xv_txIndex = le_word (slice 4 6 raw)\<rparr>)"

definition txIndexKey :: "hash \<Rightarrow> bytes" where
  "txIndexKey txid = 0x07 # txid"

text \<open>
  \<open>rand.Read\<close> gives the new key, or fails. The database in the result is the one after the key was
  stored.
\<close>

definition loadObfuscateKey ::
  "'db leveldb \<Rightarrow> bytes option \<Rightarrow> 'db \<Rightarrow> index_error + bytes \<times> 'db" where
  "loadObfuscateKey L random ldb =
    (case ldb_Get L ldb obfuscateKeyName of
       Inr key \<Rightarrow> if length key = 8 then Inr (key, ldb) else Inl (ErrKeyLength (length key))
     | Inl err \<Rightarrow>
        if err \<noteq> ErrNotFound then Inl (ErrDb err)
        else case random of None \<Rightarrow> Inl ErrRand
          | Some newKey \<Rightarrow>
             (case ldb_Put L ldb obfuscateKeyName newKey of
                Inl e \<Rightarrow> Inl (ErrDb e) | Inr ldb' \<Rightarrow> Inr (newKey, ldb')))"

definition obfuscate :: "'db manager \<Rightarrow> bytes \<Rightarrow> bytes" where
  "obfuscate m value = xorObfuscate (m_key m) value"

definition deobfuscate :: "'db manager \<Rightarrow> bytes \<Rightarrow> bytes" where
  "deobfuscate m value = xorObfuscate (m_key m) value"

definition putObfuscated :: "'db manager \<Rightarrow> bytes \<Rightarrow> bytes \<Rightarrow> batch \<Rightarrow> batch" where
  "putObfuscated m key value batch = batch @ [BPut key (obfuscate m value)]"

definition getRaw :: "'db leveldb \<Rightarrow> 'db manager \<Rightarrow> bytes \<Rightarrow> index_error + bytes option" where
  "getRaw L m key =
    (case ldb_Get L (m_db m) key of
       Inr value \<Rightarrow> Inr (Some value)
     | Inl ErrNotFound \<Rightarrow> Inr None
     | Inl err \<Rightarrow> Inl (ErrDb err))"

definition getValue :: "'db leveldb \<Rightarrow> 'db manager \<Rightarrow> bytes \<Rightarrow> index_error + bytes option" where
  "getValue L m key =
    (case getRaw L m key of
       Inl err \<Rightarrow> Inl err
     | Inr None \<Rightarrow> Inr None
     | Inr (Some value) \<Rightarrow> Inr (Some (deobfuscate m value)))"

text \<open>
  The loop of \<open>prefixSuccessor\<close> over the index \<open>i\<close>, which has \<open>i\<close> bytes left to try.
\<close>

primrec prefixSuccessor_loop :: "bytes \<Rightarrow> nat \<Rightarrow> bytes option" where
  "prefixSuccessor_loop succ 0 = None"
| "prefixSuccessor_loop succ (Suc i) =
    (if succ ! i < 0xff then Some (take (i + 1) (succ[i := succ ! i + 1]))
     else prefixSuccessor_loop succ i)"

definition prefixSuccessor :: "bytes \<Rightarrow> bytes option" where
  "prefixSuccessor pre = prefixSuccessor_loop pre (length pre)"

text \<open>The iteration with a callback that says whether to go on and carries the state \<open>'s\<close>.\<close>

primrec iter_entries ::
  "(bytes \<Rightarrow> bytes \<Rightarrow> 's \<Rightarrow> bool \<times> 's) \<Rightarrow> (bytes \<times> bytes) list \<Rightarrow> 's \<Rightarrow> 's" where
  "iter_entries fn [] s = s"
| "iter_entries fn (kv # kvs) s =
    (case fn (fst kv) (snd kv) s of (go, s') \<Rightarrow> if \<not> go then s' else iter_entries fn kvs s')"

definition iteratePrefix ::
  "'db leveldb \<Rightarrow> 'db manager \<Rightarrow> bytes \<Rightarrow> (bytes \<Rightarrow> bytes \<Rightarrow> 's \<Rightarrow> bool \<times> 's) \<Rightarrow> 's \<Rightarrow> index_error + 's"
where
  "iteratePrefix L m pre fn s =
    (case ldb_Iterate L (m_db m) pre (prefixSuccessor pre) of
       (kvs, err) \<Rightarrow>
         let s' = iter_entries fn kvs s
         in case err of Some e \<Rightarrow> Inl (ErrDb e) | None \<Rightarrow> Inr s')"

definition iteratePrefixDeobf ::
  "'db leveldb \<Rightarrow> 'db manager \<Rightarrow> bytes \<Rightarrow> (bytes \<Rightarrow> bytes \<Rightarrow> 's \<Rightarrow> bool \<times> 's) \<Rightarrow> 's \<Rightarrow> index_error + 's"
where
  "iteratePrefixDeobf L m pre fn s =
    iteratePrefix L m pre (\<lambda>key value. fn key (deobfuscate m value)) s"

text \<open>A stored tip shorter than 36 bytes makes the slices of \<open>fetchIndexTip\<close> panic.\<close>

definition fetchIndexTip ::
  "'db leveldb \<Rightarrow> 'db manager \<Rightarrow> (index_error, hash option \<times> i32) outcome" where
  "fetchIndexTip L m =
    (case getValue L m indexTipKey of
       Inl err \<Rightarrow> Fail err
     | Inr None \<Rightarrow> Ret (None, - 1)
     | Inr (Some raw) \<Rightarrow>
        if length raw < 36 then Panic
        else Ret (Some (slice 0 32 raw), le_word (slice 32 36 raw)))"

definition storeIndexTip :: "'db manager \<Rightarrow> hash \<Rightarrow> i32 \<Rightarrow> batch \<Rightarrow> batch" where
  "storeIndexTip m hash height batch =
    putObfuscated m indexTipKey (enc_i32 height (enc_hash hash [])) batch"

section \<open>Batches and prefixes\<close>

lemma apply_batch_simps [simp]:
  "apply_batch [] c = c" "apply_batch (op # b) c = apply_batch b (apply_op op c)"
  "apply_batch (b1 @ b2) c = apply_batch b2 (apply_batch b1 c)"
  by (simp_all add: apply_batch_def)

primrec op_key :: "batch_op \<Rightarrow> bytes" where
  "op_key (BPut k v) = k"
| "op_key (BDelete k) = k"

primrec op_value :: "batch_op \<Rightarrow> bytes option" where
  "op_value (BPut k v) = Some v"
| "op_value (BDelete k) = None"

lemma apply_op_eq: "apply_op op c = c(op_key op := op_value op)"
  by (cases op) simp_all

lemma apply_batch_other: "k \<notin> op_key ` set b \<Longrightarrow> apply_batch b c k = c k"
  by (induction b arbitrary: c) (auto simp: apply_op_eq)

lemma apply_batch_last: "k = op_key op \<Longrightarrow> k \<notin> op_key ` set b2 \<Longrightarrow> apply_batch (b1 @ op # b2) c k = op_value op"
  by (simp add: apply_batch_other apply_op_eq)

lemma apply_batch_distinct:
  "distinct (map op_key b) \<Longrightarrow> op \<in> set b \<Longrightarrow> apply_batch b c (op_key op) = op_value op"
proof -
  assume d: "distinct (map op_key b)" and "op \<in> set b"
  then obtain b1 b2 where b: "b = b1 @ op # b2" by (meson split_list)
  then show ?thesis using d by (simp add: apply_batch_other apply_op_eq)
qed

lemma prefixSuccessor_loop_Cons:
  "i \<le> length p \<Longrightarrow> prefixSuccessor_loop (c # p) (Suc i) =
    (case prefixSuccessor_loop p i of Some s \<Rightarrow> Some (c # s)
     | None \<Rightarrow> if c < 0xff then Some [c + 1] else None)"
  by (induction i) simp_all

lemma prefixSuccessor_Cons:
  "prefixSuccessor (c # p) =
    (case prefixSuccessor p of Some s \<Rightarrow> Some (c # s)
     | None \<Rightarrow> if c < 0xff then Some [c + 1] else None)"
  unfolding prefixSuccessor_def using prefixSuccessor_loop_Cons [of "length p" p c] by simp

lemma byte_less_succ: "c < 0xff \<Longrightarrow> d < c + 1 \<longleftrightarrow> d \<le> c" for c d :: byte
  by (simp add: word_less_nat_alt word_le_nat_alt unat_word_ariths less_Suc_eq_le)

lemma byte_max: "\<not> c < 0xff \<Longrightarrow> \<not> c < d" for c d :: byte
  using unat_lt [of d] by (simp add: word_less_nat_alt)

lemma in_range_prefixSuccessor: "in_range p (prefixSuccessor p) k \<longleftrightarrow> prefix p k"
proof (induction p arbitrary: k)
  case Nil
  then show ?case by (simp add: in_range_def prefixSuccessor_def)
next
  case (Cons c p)
  show ?case
  proof (cases k)
    case Nil
    then show ?thesis by (simp add: in_range_def)
  next
    case (Cons d k')
    show ?thesis
      using Cons.IH [of k'] byte_less_succ [of c d] byte_max [of c d]
      by (auto simp: Cons in_range_def prefixSuccessor_Cons split: option.splits)
  qed
qed

section \<open>What the manager reads is what it wrote\<close>

lemma le_slices:
  "is_hash h \<Longrightarrow> slice 0 32 (h @ le_bytes 4 w) = h"
  "is_hash h \<Longrightarrow> le_word (slice 32 36 (h @ le_bytes 4 (w :: u32))) = w"
  by (simp_all add: slice_def is_hash_def codec)

context leveldb_spec
begin

lemma getValue_written:
  assumes "inv (m_db m)" "contents (m_db m) k = Some (obfuscate m v)" "getValue L m k = Inr r"
  shows "r = Some v"
  using assms get_found [of "m_db m" k] get_absent [of "m_db m" k]
  by (auto simp: getValue_def getRaw_def obfuscate_def deobfuscate_def
      split: sum.splits ldb_error.splits option.splits)

lemma getValue_absent:
  assumes "inv (m_db m)" "contents (m_db m) k = None" "getValue L m k = Inr r"
  shows "r = None"
  using assms get_found [of "m_db m" k]
  by (auto simp: getValue_def getRaw_def split: sum.splits ldb_error.splits option.splits)

lemma fetch_stored_tip:
  assumes "inv (m_db m)" "is_hash h"
    and "ldb_Write L (m_db m) (storeIndexTip m h height b) = Inr db'"
    and "\<And>e. getValue L (m\<lparr>m_db := db'\<rparr>) indexTipKey \<noteq> Inl e"
  shows "fetchIndexTip L (m\<lparr>m_db := db'\<rparr>) = Ret (Some h, height)"
proof -
  have "inv db'" "contents db' indexTipKey = Some (obfuscate m (h @ le_bytes 4 height))"
    using write_ok [OF assms(1,3)]
    by (simp_all add: storeIndexTip_def putObfuscated_def enc_defs)
  then have "getValue L (m\<lparr>m_db := db'\<rparr>) indexTipKey = Inr r \<Longrightarrow> r = Some (h @ le_bytes 4 height)" for r
    using getValue_written [of "m\<lparr>m_db := db'\<rparr>" indexTipKey "h @ le_bytes 4 height"]
    by (simp add: obfuscate_def)
  then show ?thesis
    using assms(2,4)
    by (cases "getValue L (m\<lparr>m_db := db'\<rparr>) indexTipKey")
      (auto simp: fetchIndexTip_def le_slices is_hash_def [of h] le_slices [unfolded is_hash_def])
qed

end

section \<open>An ordered store that keeps the promises\<close>

text \<open>
  An in-memory LevelDB: a red-black tree over the byte order of the keys, on which no call fails.
\<close>

definition rbt_leveldb :: "(bytes, bytes) RBT.rbt leveldb" where
  "rbt_leveldb =
    \<lparr>ldb_Get = (\<lambda>db k. case RBT.lookup db k of Some v \<Rightarrow> Inr v | None \<Rightarrow> Inl ErrNotFound),
     ldb_Put = (\<lambda>db k v. Inr (RBT.insert k v db)),
     ldb_Write = (\<lambda>db b. Inr (fold (\<lambda>op db. case op of BPut k v \<Rightarrow> RBT.insert k v db
                                            | BDelete k \<Rightarrow> RBT.delete k db) b db)),
     ldb_Iterate = (\<lambda>db start limit. (filter (\<lambda>kv. in_range start limit (fst kv)) (RBT.entries db), None))\<rparr>"

lemma rbt_write_lookup:
  "RBT.lookup (fold (\<lambda>op db. case op of BPut k v \<Rightarrow> RBT.insert k v db | BDelete k \<Rightarrow> RBT.delete k db) b db)
   = apply_batch b (RBT.lookup db)"
  by (induction b arbitrary: db) (auto simp: split: batch_op.split)

interpretation rbt_db: leveldb_spec rbt_leveldb "\<lambda>_. True" RBT.lookup
proof
  fix db :: "(bytes, bytes) RBT.rbt" and start limit kvs
  assume "ldb_Iterate rbt_leveldb db start limit = (kvs, None)"
  then have kvs: "kvs = filter (\<lambda>kv. in_range start limit (fst kv)) (RBT.entries db)"
    by (simp add: rbt_leveldb_def)
  have "sorted_wrt (<) (map fst (RBT.entries db))"
    by (simp add: strict_sorted_iff RBT.sorted_entries RBT.distinct_entries)
  then have "sorted_wrt (<) (map fst kvs)"
    by (simp add: kvs sorted_wrt_map sorted_wrt_filter)
  then show "sorted_wrt (<) (map fst kvs)
      \<and> (\<forall>k v. (k, v) \<in> set kvs \<longleftrightarrow> RBT.lookup db k = Some v \<and> in_range start limit k)"
    by (auto simp: kvs RBT.lookup_in_tree)
qed (auto simp: rbt_leveldb_def rbt_write_lookup split: option.splits)

section \<open>Properties\<close>

text \<open>
  C25: the range that \<open>iteratePrefix\<close> asks for, from the prefix up to \<open>prefixSuccessor\<close>, holds exactly the
  keys that start with the prefix, also when the prefix ends in \<open>0xff\<close> bytes or is empty.
\<close>

theorem prefix_range_exact:
  "in_range pre (prefixSuccessor pre) k \<longleftrightarrow> (\<exists>rest. k = pre @ rest)"
  by (simp add: in_range_prefixSuccessor prefix_def)

end
