(* ===== verification/Sugar_Indexer.thy ===== *)
theory Sugar_Indexer
  imports Sugar_Db "HOL-Library.Finite_Map"
begin

text \<open>
  The indexer, \<open>sugarindex/indexer.go\<close>: what connecting and disconnecting a block writes, wiping the
  index, the catch-up of \<open>Init\<close>, and the lookup of a transaction by its hash. \<^const>\<open>None\<close> as the result of
  an accumulating function is a panic: a key that is too long or an index past the spend journal. The
  hash of a transaction, double SHA-256 of its serialization, is the parameter \<open>txid\<close>.
\<close>

section \<open>Blocks and spent outputs\<close>

record TxIn =
  ti_Hash :: hash
  ti_Index :: u32

record TxOut =
  to_Value :: i64
  to_PkScript :: bytes

record MsgTx =
  mt_TxIn :: "TxIn list"
  mt_TxOut :: "TxOut list"

text \<open>A block with the height and the hash that \<open>btcutil.Block\<close> carries, and its header's fields in use.\<close>

record Block =
  bl_Height :: i32
  bl_Hash :: hash
  bl_PrevBlock :: hash
  bl_Timestamp :: i64
  bl_Txs :: "MsgTx list"

record SpentTxOut =
  st_Amount :: i64
  st_PkScript :: bytes
  st_Height :: i32

section \<open>Delta accumulation\<close>

record addrIndexEntry =
  ai_key :: bytes
  ai_delta :: i64

record addrUnspentEntry =
  au_key :: bytes
  au_isNull :: bool
  au_satoshis :: i64
  au_script :: bytes
  au_height :: i32

definition addrUnspentEntry_encode :: "addrUnspentEntry \<Rightarrow> bytes" where
  "addrUnspentEntry_encode u = AddressUnspentValue_Encode
    \<lparr>uv_Satoshis = au_satoshis u, uv_Script = au_script u, uv_BlockHeight = au_height u\<rparr>"

record spentIndexEntry =
  se_key :: bytes
  se_txHash :: hash
  se_inIndex :: u32
  se_blockHeight :: i32
  se_satoshis :: i64
  se_addrType :: i32
  se_addrHashBytes :: bytes

definition spentIndexEntry_encode :: "spentIndexEntry \<Rightarrow> bytes option" where
  "spentIndexEntry_encode s =
    enc_hashIndex (se_addrHashBytes s) (enc_i32 (se_addrType s) (enc_i64 (se_satoshis s)
      (enc_i32 (se_blockHeight s) (enc_u32 (se_inIndex s) (enc_hash (se_txHash s) [])))))"

record blockDeltas =
  bd_addressIndex :: "addrIndexEntry list"
  bd_addressUnspent :: "addrUnspentEntry list"
  bd_spentIndex :: "spentIndexEntry list"
  bd_addressErase :: "addrIndexEntry list"
  bd_spentErase :: "SpentIndexKey list"

definition newBlockDeltas :: blockDeltas where
  "newBlockDeltas = \<lparr>bd_addressIndex = [], bd_addressUnspent = [], bd_spentIndex = [],
     bd_addressErase = [], bd_spentErase = []\<rparr>"

definition pushAddrIndex ::
  "bool \<Rightarrow> bool \<Rightarrow> nat \<Rightarrow> bytes \<Rightarrow> i32 \<Rightarrow> u32 \<Rightarrow> hash \<Rightarrow> u32 \<Rightarrow> i64 \<Rightarrow> blockDeltas \<Rightarrow> blockDeltas option" where
  "pushAddrIndex erase spending scriptType hashBytes height txIdx txHash index delta bd = do {
     key \<leftarrow> AddressIndexKey_Key \<lparr>ak_Type = word_of_nat scriptType, ak_HashBytes = hashBytes,
       ak_BlockHeight = height, ak_TxIndex = txIdx, ak_TxHash = txHash, ak_Index = index,
       ak_Spending = spending\<rparr>;
     let entry = \<lparr>ai_key = key, ai_delta = delta\<rparr>;
     if erase then Some (bd\<lparr>bd_addressErase := bd_addressErase bd @ [entry]\<rparr>)
     else Some (bd\<lparr>bd_addressIndex := bd_addressIndex bd @ [entry]\<rparr>) }"

definition addReceived ::
  "hash \<Rightarrow> i32 \<Rightarrow> u32 \<Rightarrow> TxOut \<Rightarrow> u32 \<Rightarrow> blockDeltas \<Rightarrow> blockDeltas option" where
  "addReceived txHash height txIdx txOut vIdx bd =
    (case ExtractIndexInfo (to_PkScript txOut) of (scriptType, hashBytes) \<Rightarrow>
     if scriptType = AddrIndtUnknown then Some bd
     else do {
       bd \<leftarrow> pushAddrIndex False False scriptType hashBytes height txIdx txHash vIdx (to_Value txOut) bd;
       key \<leftarrow> AddressUnspentKey_Key \<lparr>uk_Type = word_of_nat scriptType, uk_HashBytes = hashBytes,
         uk_TxHash = txHash, uk_Index = vIdx\<rparr>;
       Some (bd\<lparr>bd_addressUnspent := bd_addressUnspent bd @
         [\<lparr>au_key = key, au_isNull = False, au_satoshis = to_Value txOut,
           au_script = to_PkScript txOut, au_height = height\<rparr>]\<rparr>) })"

definition addSpent ::
  "hash \<Rightarrow> i32 \<Rightarrow> u32 \<Rightarrow> TxIn \<Rightarrow> SpentTxOut \<Rightarrow> u32 \<Rightarrow> blockDeltas \<Rightarrow> blockDeltas option" where
  "addSpent txHash height txIdx txIn stxo inIdx bd =
    (case ExtractIndexInfo (st_PkScript stxo) of (scriptType, hashBytes) \<Rightarrow>
     if scriptType = AddrIndtUnknown then Some bd
     else do {
       bd \<leftarrow> pushAddrIndex False True scriptType hashBytes height txIdx txHash inIdx (- st_Amount stxo) bd;
       key \<leftarrow> AddressUnspentKey_Key \<lparr>uk_Type = word_of_nat scriptType, uk_HashBytes = hashBytes,
         uk_TxHash = ti_Hash txIn, uk_Index = ti_Index txIn\<rparr>;
       Some (bd\<lparr>bd_addressUnspent := bd_addressUnspent bd @
           [\<lparr>au_key = key, au_isNull = True, au_satoshis = 0, au_script = [], au_height = 0\<rparr>],
         bd_spentIndex := bd_spentIndex bd @
           [\<lparr>se_key = SpentIndexKey_Key \<lparr>sk_TxID = ti_Hash txIn, sk_OutputIndex = ti_Index txIn\<rparr>,
             se_txHash = txHash, se_inIndex = inIdx, se_blockHeight = height,
             se_satoshis = st_Amount stxo, se_addrType = word_of_nat scriptType,
             se_addrHashBytes = hashBytes\<rparr>]\<rparr>) })"

definition undoReceived ::
  "hash \<Rightarrow> i32 \<Rightarrow> u32 \<Rightarrow> TxOut \<Rightarrow> u32 \<Rightarrow> blockDeltas \<Rightarrow> blockDeltas option" where
  "undoReceived txHash height txIdx txOut vIdx bd =
    (case ExtractIndexInfo (to_PkScript txOut) of (scriptType, hashBytes) \<Rightarrow>
     if scriptType = AddrIndtUnknown then Some bd
     else do {
       bd \<leftarrow> pushAddrIndex True False scriptType hashBytes height txIdx txHash vIdx (to_Value txOut) bd;
       key \<leftarrow> AddressUnspentKey_Key \<lparr>uk_Type = word_of_nat scriptType, uk_HashBytes = hashBytes,
         uk_TxHash = txHash, uk_Index = vIdx\<rparr>;
       Some (bd\<lparr>bd_addressUnspent := bd_addressUnspent bd @
         [\<lparr>au_key = key, au_isNull = True, au_satoshis = 0, au_script = [], au_height = 0\<rparr>]\<rparr>) })"

definition undoSpent ::
  "hash \<Rightarrow> i32 \<Rightarrow> u32 \<Rightarrow> TxIn \<Rightarrow> SpentTxOut \<Rightarrow> u32 \<Rightarrow> blockDeltas \<Rightarrow> blockDeltas option" where
  "undoSpent txHash height txIdx txIn stxo inIdx bd =
    (case ExtractIndexInfo (st_PkScript stxo) of (scriptType, hashBytes) \<Rightarrow>
     if scriptType = AddrIndtUnknown then Some bd
     else do {
       bd \<leftarrow> pushAddrIndex True True scriptType hashBytes height txIdx txHash inIdx (- st_Amount stxo) bd;
       key \<leftarrow> AddressUnspentKey_Key \<lparr>uk_Type = word_of_nat scriptType, uk_HashBytes = hashBytes,
         uk_TxHash = ti_Hash txIn, uk_Index = ti_Index txIn\<rparr>;
       Some (bd\<lparr>bd_addressUnspent := bd_addressUnspent bd @
           [\<lparr>au_key = key, au_isNull = False, au_satoshis = st_Amount stxo,
             au_script = st_PkScript stxo, au_height = st_Height stxo\<rparr>],
         bd_spentErase := bd_spentErase bd @
           [\<lparr>sk_TxID = ti_Hash txIn, sk_OutputIndex = ti_Index txIn\<rparr>]\<rparr>) })"

section \<open>Connecting and disconnecting a block\<close>

text \<open>
  The loop over the inputs of a transaction takes the spend journal entry at \<open>stxoIndex\<close> for each;
  the loop over the outputs numbers them.
\<close>

fun for_inputs ::
  "(TxIn \<Rightarrow> SpentTxOut \<Rightarrow> u32 \<Rightarrow> blockDeltas \<Rightarrow> blockDeltas option) \<Rightarrow> SpentTxOut list \<Rightarrow>
   TxIn list \<Rightarrow> nat \<Rightarrow> nat \<Rightarrow> blockDeltas \<Rightarrow> (blockDeltas \<times> nat) option" where
  "for_inputs spend stxos [] inIdx stxoIndex bd = Some (bd, stxoIndex)"
| "for_inputs spend stxos (txIn # rest) inIdx stxoIndex bd =
    (if length stxos \<le> stxoIndex then None
     else do {
       bd \<leftarrow> spend txIn (stxos ! stxoIndex) (word_of_nat inIdx) bd;
       for_inputs spend stxos rest (inIdx + 1) (stxoIndex + 1) bd })"

text \<open>The coinbase, transaction 0, has no entries in the spend journal.\<close>

definition tx_inputs ::
  "(TxIn \<Rightarrow> SpentTxOut \<Rightarrow> u32 \<Rightarrow> blockDeltas \<Rightarrow> blockDeltas option) \<Rightarrow> SpentTxOut list \<Rightarrow>
   MsgTx \<Rightarrow> nat \<Rightarrow> nat \<Rightarrow> blockDeltas \<Rightarrow> (blockDeltas \<times> nat) option" where
  "tx_inputs spend stxos tx txIdx stxoIndex bd =
    (if txIdx \<noteq> 0 then for_inputs spend stxos (mt_TxIn tx) 0 stxoIndex bd else Some (bd, stxoIndex))"

fun for_outputs ::
  "(TxOut \<Rightarrow> u32 \<Rightarrow> blockDeltas \<Rightarrow> blockDeltas option) \<Rightarrow> TxOut list \<Rightarrow> nat \<Rightarrow>
   blockDeltas \<Rightarrow> blockDeltas option" where
  "for_outputs receive [] vIdx bd = Some bd"
| "for_outputs receive (txOut # rest) vIdx bd = do {
     bd \<leftarrow> receive txOut (word_of_nat vIdx) bd;
     for_outputs receive rest (vIdx + 1) bd }"

fun connect_txs ::
  "(MsgTx \<Rightarrow> hash) \<Rightarrow> i32 \<Rightarrow> SpentTxOut list \<Rightarrow> MsgTx list \<Rightarrow> nat \<Rightarrow> nat \<Rightarrow> blockDeltas \<Rightarrow> batch \<Rightarrow>
   (blockDeltas \<times> batch) option" where
  "connect_txs txid height stxos [] txIdx stxoIndex bd batch = Some (bd, batch)"
| "connect_txs txid height stxos (tx # txs) txIdx stxoIndex bd batch = do {
     let txHash = txid tx;
     let batch = batch @ [BPut (txIndexKey txHash)
       (txIndexValue_bytes \<lparr>xv_height = height, xv_txIndex = word_of_nat txIdx\<rparr>)];
     (bd, stxoIndex) \<leftarrow> tx_inputs (addSpent txHash height (word_of_nat txIdx)) stxos tx txIdx stxoIndex bd;
     bd \<leftarrow> for_outputs (addReceived txHash height (word_of_nat txIdx)) (mt_TxOut tx) 0 bd;
     connect_txs txid height stxos txs (txIdx + 1) stxoIndex bd batch }"

text \<open>The loops over the accumulated entries fill the batch.\<close>

definition put_addressIndex :: "'db manager \<Rightarrow> addrIndexEntry list \<Rightarrow> batch \<Rightarrow> batch" where
  "put_addressIndex m es batch = fold (\<lambda>e. putObfuscated m (ai_key e) (enc_i64 (ai_delta e) [])) es batch"

definition put_addressUnspent :: "'db manager \<Rightarrow> addrUnspentEntry list \<Rightarrow> batch \<Rightarrow> batch" where
  "put_addressUnspent m us batch =
    fold (\<lambda>u b. if au_isNull u then b @ [BDelete (au_key u)]
                else putObfuscated m (au_key u) (addrUnspentEntry_encode u) b) us batch"

fun put_spentIndex :: "'db manager \<Rightarrow> spentIndexEntry list \<Rightarrow> batch \<Rightarrow> batch option" where
  "put_spentIndex m [] batch = Some batch"
| "put_spentIndex m (s # ss) batch = do {
     v \<leftarrow> spentIndexEntry_encode s;
     put_spentIndex m ss (putObfuscated m (se_key s) v batch) }"

definition connectBlockBatch ::
  "(MsgTx \<Rightarrow> hash) \<Rightarrow> 'db manager \<Rightarrow> Block \<Rightarrow> SpentTxOut list \<Rightarrow> batch \<Rightarrow> batch option" where
  "connectBlockBatch txid m block stxos batch = do {
     (bd, batch) \<leftarrow> connect_txs txid (bl_Height block) stxos (bl_Txs block) 0 0 newBlockDeltas batch;
     let batch = put_addressIndex m (bd_addressIndex bd) batch;
     let batch = put_addressUnspent m (bd_addressUnspent bd) batch;
     batch \<leftarrow> put_spentIndex m (bd_spentIndex bd) batch;
     let tk = TimestampIndexKey_Key \<lparr>tk_Timestamp = ucast (bl_Timestamp block), tk_BlockHash = bl_Hash block\<rparr>;
     Some (putObfuscated m tk [0] batch) }"

definition write_batch ::
  "'db leveldb \<Rightarrow> 'db manager \<Rightarrow> batch \<Rightarrow> (index_error, 'db manager) outcome" where
  "write_batch L m batch =
    (case ldb_Write L (m_db m) batch of Inl e \<Rightarrow> Fail (ErrDb e) | Inr db \<Rightarrow> Ret (m\<lparr>m_db := db\<rparr>))"

definition connectBlock ::
  "'db leveldb \<Rightarrow> (MsgTx \<Rightarrow> hash) \<Rightarrow> 'db manager \<Rightarrow> Block \<Rightarrow> SpentTxOut list \<Rightarrow>
   (index_error, 'db manager) outcome" where
  "connectBlock L txid m block stxos =
    (case connectBlockBatch txid m block stxos [] of None \<Rightarrow> Panic
     | Some batch \<Rightarrow> write_batch L m (storeIndexTip m (bl_Hash block) (bl_Height block) batch))"

fun disconnect_txs ::
  "(MsgTx \<Rightarrow> hash) \<Rightarrow> i32 \<Rightarrow> SpentTxOut list \<Rightarrow> MsgTx list \<Rightarrow> nat \<Rightarrow> nat \<Rightarrow> blockDeltas \<Rightarrow>
   blockDeltas option" where
  "disconnect_txs txid height stxos [] txIdx stxoIndex bd = Some bd"
| "disconnect_txs txid height stxos (tx # txs) txIdx stxoIndex bd = do {
     let txHash = txid tx;
     (bd, stxoIndex) \<leftarrow> tx_inputs (undoSpent txHash height (word_of_nat txIdx)) stxos tx txIdx stxoIndex bd;
     bd \<leftarrow> for_outputs (undoReceived txHash height (word_of_nat txIdx)) (mt_TxOut tx) 0 bd;
     disconnect_txs txid height stxos txs (txIdx + 1) stxoIndex bd }"

definition disconnectBlock ::
  "'db leveldb \<Rightarrow> (MsgTx \<Rightarrow> hash) \<Rightarrow> 'db manager \<Rightarrow> Block \<Rightarrow> SpentTxOut list \<Rightarrow>
   (index_error, 'db manager) outcome" where
  "disconnectBlock L txid m block stxos =
    (case disconnect_txs txid (bl_Height block) stxos (bl_Txs block) 0 0 newBlockDeltas of
       None \<Rightarrow> Panic
     | Some bd \<Rightarrow>
        let batch = map (\<lambda>e. BDelete (ai_key e)) (bd_addressErase bd);
            batch = put_addressUnspent m (bd_addressUnspent bd) batch;
            batch = batch @ map (\<lambda>sk. BDelete (SpentIndexKey_Key sk)) (bd_spentErase bd)
        in write_batch L m (storeIndexTip m (bl_PrevBlock block) (bl_Height block - 1) batch))"

section \<open>Looking up a transaction, wiping the index\<close>

text \<open>
  \<open>chain\<close> is \<open>BlockByHeight\<close> of the attached block chain, \<^const>\<open>None\<close> before \<open>SetChain\<close>. The result
  \<^term>\<open>Inr None\<close> says that the hash is unknown, which the code also answers when the read fails.
\<close>

definition GetTxByHash ::
  "'db leveldb \<Rightarrow> (i32 \<Rightarrow> Block option) option \<Rightarrow> 'db manager \<Rightarrow> hash \<Rightarrow> index_error + (MsgTx \<times> i32) option"
where
  "GetTxByHash L chain m txid =
    (case ldb_Get L (m_db m) (txIndexKey txid) of
       Inl _ \<Rightarrow> Inr None
     | Inr raw \<Rightarrow>
        (case decodeTxIndexValue raw of
           None \<Rightarrow> Inl ErrCorrupt
         | Some v \<Rightarrow>
            (case chain of None \<Rightarrow> Inl ErrNoChain
             | Some blockByHeight \<Rightarrow>
                (case blockByHeight (xv_height v) of
                   None \<Rightarrow> Inl ErrBlock
                 | Some block \<Rightarrow>
                    if length (bl_Txs block) \<le> unat (xv_txIndex v) then Inl ErrTxIndex
                    else Inr (Some (bl_Txs block ! unat (xv_txIndex v), xv_height v))))))"

definition wipeBatchKeys :: nat where
  "wipeBatchKeys = 100000"

definition index_prefixes :: "byte set" where
  "index_prefixes = {DBAddressIndex, DBAddressUnspent, DBTimestampIndex, DBSpentIndex}"

text \<open>The loop over the iterator: the manager, the batch being filled and its size.\<close>

fun wipe_loop ::
  "'db leveldb \<Rightarrow> bytes list \<Rightarrow> 'db manager \<Rightarrow> batch \<Rightarrow> nat \<Rightarrow> (index_error, 'db manager \<times> batch) outcome"
where
  "wipe_loop L [] m batch batched = Ret (m, batch)"
| "wipe_loop L (k # ks) m batch batched =
    (if length k > 0 \<and> k ! 0 \<in> index_prefixes then
       (let batch = batch @ [BDelete k]; batched = batched + 1 in
        if batched \<ge> wipeBatchKeys
        then obind (write_batch L m batch) (\<lambda>m. wipe_loop L ks m [] 0)
        else wipe_loop L ks m batch batched)
     else wipe_loop L ks m batch batched)"

definition wipeIndex :: "'db leveldb \<Rightarrow> 'db manager \<Rightarrow> (index_error, 'db manager) outcome" where
  "wipeIndex L m =
    (case ldb_Iterate L (m_db m) [] None of (kvs, err) \<Rightarrow>
     obind (wipe_loop L (map fst kvs) m [] 0) (\<lambda>(m, batch).
       case err of Some e \<Rightarrow> Fail (ErrDb e)
       | None \<Rightarrow> write_batch L m (batch @ [BDelete indexTipKey])))"

section \<open>Catching up\<close>

text \<open>
  The reader goroutines of \<open>Init\<close> deliver one result per height, in any order; the consumer parks them
  in \<open>pending\<close> and indexes the blocks in the order of their heights, skipping those it cannot get.
\<close>

datatype fetch_error = ErrBlockNotFound | ErrNotInMainChain | ErrFetch

datatype fetchResult = Fetched Block "SpentTxOut list" | FetchFailed fetch_error

definition rebuildBatchBlocks :: nat where
  "rebuildBatchBlocks = 1024"

record 'db rebuild =
  rb_m :: "'db manager"
  rb_batch :: batch
  rb_batched :: nat
  rb_next :: int
  rb_pending :: "(int, fetchResult) fmap"

definition rb_skip :: "'db rebuild \<Rightarrow> 'db rebuild" where
  "rb_skip st = st\<lparr>rb_pending := fmdrop (rb_next st) (rb_pending st), rb_next := rb_next st + 1\<rparr>"

text \<open>The body of the consumer's loop for a block: add it to the batch, flush the batch when it is due.\<close>

definition rb_index ::
  "'db leveldb \<Rightarrow> (MsgTx \<Rightarrow> hash) \<Rightarrow> int \<Rightarrow> Block \<Rightarrow> SpentTxOut list \<Rightarrow> 'db rebuild \<Rightarrow>
   (index_error, 'db rebuild) outcome" where
  "rb_index L txid best block stxos st =
    (case connectBlockBatch txid (rb_m st) block stxos (rb_batch st) of None \<Rightarrow> Panic
     | Some batch \<Rightarrow>
        if rb_batched st + 1 \<ge> rebuildBatchBlocks \<or> rb_next st = best then
          obind (write_batch L (rb_m st)
              (storeIndexTip (rb_m st) (bl_Hash block) (word_of_int (rb_next st)) batch))
            (\<lambda>m. Ret (st\<lparr>rb_m := m, rb_batch := [], rb_batched := 0\<rparr>))
        else Ret (st\<lparr>rb_batch := batch, rb_batched := rb_batched st + 1\<rparr>))"

function rb_consume ::
  "'db leveldb \<Rightarrow> (MsgTx \<Rightarrow> hash) \<Rightarrow> int \<Rightarrow> 'db rebuild \<Rightarrow> (index_error, 'db rebuild) outcome" where
  "rb_consume L txid best st =
    (case fmlookup (rb_pending st) (rb_next st) of
       None \<Rightarrow> Ret st
     | Some (FetchFailed err) \<Rightarrow>
        if err = ErrBlockNotFound \<or> err = ErrNotInMainChain then rb_consume L txid best (rb_skip st)
        else Fail ErrBlock
     | Some (Fetched block stxos) \<Rightarrow>
        (case rb_index L txid best block stxos st of
           Panic \<Rightarrow> Panic | Fail e \<Rightarrow> Fail e
         | Ret st' \<Rightarrow> rb_consume L txid best (rb_skip (st'\<lparr>rb_pending := rb_pending st, rb_next := rb_next st\<rparr>))))"
  by pat_completeness auto

lemma rb_skip_smaller:
  "fmlookup (rb_pending st) (rb_next st) = Some r \<Longrightarrow>
   fcard (fmdom (rb_pending (rb_skip st))) < fcard (fmdom (rb_pending st))"
  by (auto simp: rb_skip_def fmdom_drop intro!: fcard_fminus1_less fmdomI)

termination rb_consume
  by (relation "measure (\<lambda>(_, _, _, st). fcard (fmdom (rb_pending st)))")
    (auto dest!: rb_skip_smaller simp: rb_skip_def)

declare rb_consume.simps [simp del]

fun rb_results ::
  "'db leveldb \<Rightarrow> (MsgTx \<Rightarrow> hash) \<Rightarrow> int \<Rightarrow> (int \<times> fetchResult) list \<Rightarrow> 'db rebuild \<Rightarrow>
   (index_error, 'db rebuild) outcome" where
  "rb_results L txid best [] st = Ret st"
| "rb_results L txid best (r # rs) st =
    obind (rb_consume L txid best (st\<lparr>rb_pending := fmupd (fst r) (snd r) (rb_pending st)\<rparr>))
      (\<lambda>st. rb_results L txid best rs st)"

definition rb_start :: "'db manager \<Rightarrow> int \<Rightarrow> 'db rebuild" where
  "rb_start m n = \<lparr>rb_m = m, rb_batch = [], rb_batched = 0, rb_next = n, rb_pending = fmempty\<rparr>"

text \<open>
  \<open>Init\<close>: \<open>mainHash\<close> is \<open>MainChainHashByHeight\<close>, \<open>best\<close> the height of the best chain, \<open>results\<close> what
  the readers deliver for the heights that start at its argument.
\<close>

definition Init ::
  "'db leveldb \<Rightarrow> (MsgTx \<Rightarrow> hash) \<Rightarrow> (i32 \<Rightarrow> hash option) \<Rightarrow> int \<Rightarrow> (int \<Rightarrow> (int \<times> fetchResult) list) \<Rightarrow>
   bool \<Rightarrow> 'db manager \<Rightarrow> (index_error, 'db manager) outcome" where
  "Init L txid mainHash best results interrupted m =
    obind (fetchIndexTip L m) (\<lambda>(tipHash, tipHeight).
    obind (case tipHash of None \<Rightarrow> Ret (m, tipHeight)
           | Some h \<Rightarrow>
              (case mainHash tipHeight of
                 Some mh \<Rightarrow> if mh \<noteq> h then obind (wipeIndex L m) (\<lambda>m. Ret (m, - 1)) else Ret (m, tipHeight)
               | None \<Rightarrow> Ret (m, tipHeight))) (\<lambda>(m, tipHeight).
    if sint tipHeight \<ge> best then Ret m
    else
      obind (rb_results L txid best (results (sint tipHeight + 1)) (rb_start m (sint tipHeight + 1)))
        (\<lambda>st. if interrupted then Fail ErrInterrupt else Ret (rb_m st))))"

section \<open>When the accumulation panics\<close>

lemma ExtractIndexInfo_len:
  "ExtractIndexInfo s = (t, hb) \<Longrightarrow> t \<noteq> 0 \<Longrightarrow> length hb \<le> 32 \<longleftrightarrow> \<not> long_program s"
  using ExtractIndexInfo_bounds [of s t hb] by auto

lemma ExtractIndexInfo_unknown: "ExtractIndexInfo s = (0, hb) \<Longrightarrow> \<not> long_program s"
  using ExtractIndexInfo_long [of s] by auto

lemmas accumulate_defs = addReceived_def addSpent_def undoReceived_def undoSpent_def pushAddrIndex_def
  AddressIndexKey_Key_eq AddressUnspentKey_Key_eq

lemma accumulate_None:
  "addReceived h ht i out v bd = None \<longleftrightarrow> long_program (to_PkScript out)"
  "undoReceived h ht i out v bd = None \<longleftrightarrow> long_program (to_PkScript out)"
  "addSpent h ht i txin stxo v bd = None \<longleftrightarrow> long_program (st_PkScript stxo)"
  "undoSpent h ht i txin stxo v bd = None \<longleftrightarrow> long_program (st_PkScript stxo)"
  by (auto simp: accumulate_defs ExtractIndexInfo_len ExtractIndexInfo_unknown split: prod.splits)

lemma for_inputs_None:
  assumes "\<And>txin stxo v bd. spend txin stxo v bd = None \<longleftrightarrow> long_program (st_PkScript stxo)"
  shows "for_inputs spend stxos ins v si bd = None \<longleftrightarrow>
    ins \<noteq> [] \<and> length stxos < si + length ins
    \<or> (\<exists>s \<in> set (take (length ins) (drop si stxos)). long_program (st_PkScript s))"
proof (induction ins arbitrary: v si bd)
  case (Cons i ins)
  show ?case
  proof (cases "length stxos \<le> si")
    case False
    then have "drop si stxos = stxos ! si # drop (Suc si) stxos" by (simp add: Cons_nth_drop_Suc)
    then show ?thesis
      using False assms [of i "stxos ! si"] by (auto simp: Cons.IH Option.bind_eq_None_conv)
  qed simp
qed simp

lemma for_inputs_Some: "for_inputs spend stxos ins v si bd = Some (bd', si') \<Longrightarrow> si' = si + length ins"
  by (induction ins arbitrary: v si bd) (fastforce simp: Option.bind_eq_Some_conv split: if_splits)+

lemma for_outputs_None:
  assumes "\<And>out v bd. receive out v bd = None \<longleftrightarrow> long_program (to_PkScript out)"
  shows "for_outputs receive outs v bd = None \<longleftrightarrow> (\<exists>out \<in> set outs. long_program (to_PkScript out))"
  by (induction outs arbitrary: v bd) (auto simp: Option.bind_eq_None_conv assms)

text \<open>How many entries of the spend journal the transactions take, the coinbase none.\<close>

fun journal_inputs :: "MsgTx list \<Rightarrow> nat \<Rightarrow> nat" where
  "journal_inputs [] txIdx = 0"
| "journal_inputs (tx # txs) txIdx = (if txIdx \<noteq> 0 then length (mt_TxIn tx) else 0) + journal_inputs txs (txIdx + 1)"

definition txs_panic :: "SpentTxOut list \<Rightarrow> MsgTx list \<Rightarrow> nat \<Rightarrow> nat \<Rightarrow> bool" where
  "txs_panic stxos txs txIdx si \<longleftrightarrow>
    0 < journal_inputs txs txIdx \<and> length stxos < si + journal_inputs txs txIdx
    \<or> (\<exists>s \<in> set (take (journal_inputs txs txIdx) (drop si stxos)). long_program (st_PkScript s))
    \<or> (\<exists>tx \<in> set txs. \<exists>out \<in> set (mt_TxOut tx). long_program (to_PkScript out))"

lemma txs_panic_Cons:
  "txs_panic stxos (tx # txs) txIdx si \<longleftrightarrow>
    (let n = if txIdx \<noteq> 0 then length (mt_TxIn tx) else 0 in
     0 < n \<and> length stxos < si + n
     \<or> (\<exists>s \<in> set (take n (drop si stxos)). long_program (st_PkScript s))
     \<or> (\<exists>out \<in> set (mt_TxOut tx). long_program (to_PkScript out))
     \<or> txs_panic stxos txs (txIdx + 1) (si + n))"
proof -
  define n where "n = (if txIdx \<noteq> 0 then length (mt_TxIn tx) else 0)"
  define j where "j = journal_inputs txs (txIdx + 1)"
  have s: "set (take (n + j) (drop si stxos)) = set (take n (drop si stxos)) \<union> set (take j (drop (si + n) stxos))"
    by (simp add: take_add add.commute [of n si])
  have l: "0 < n + j \<and> length stxos < si + (n + j) \<longleftrightarrow>
      0 < n \<and> length stxos < si + n \<or> 0 < j \<and> length stxos < si + n + j"
    by auto
  have "journal_inputs (tx # txs) txIdx = n + j" by (simp add: n_def j_def)
  then show ?thesis
    unfolding txs_panic_def Let_def n_def [symmetric] j_def [symmetric] by (auto simp only: s l set_simps Un_iff bex_Un bex_simps)
qed

lemma tx_inputs_None:
  assumes "\<And>txin stxo v bd. spend txin stxo v bd = None \<longleftrightarrow> long_program (st_PkScript stxo)"
    and "n = (if txIdx \<noteq> 0 then length (mt_TxIn tx) else 0)"
  shows "tx_inputs spend stxos tx txIdx si bd = None \<longleftrightarrow>
    0 < n \<and> length stxos < si + n \<or> (\<exists>s \<in> set (take n (drop si stxos)). long_program (st_PkScript s))"
  using assms(2) by (simp add: tx_inputs_def for_inputs_None [OF assms(1)])

lemma tx_inputs_Some:
  "tx_inputs spend stxos tx txIdx si bd = Some (bd', si') \<Longrightarrow>
   si' = si + (if txIdx \<noteq> 0 then length (mt_TxIn tx) else 0)"
  by (auto simp: tx_inputs_def dest: for_inputs_Some split: if_splits)

lemma connect_txs_None:
  "connect_txs txid ht stxos txs txIdx si bd b = None \<longleftrightarrow> txs_panic stxos txs txIdx si"
proof (induction txs arbitrary: txIdx si bd b)
  case Nil
  then show ?case by (simp add: txs_panic_def)
next
  case (Cons tx txs)
  let ?F = "tx_inputs (addSpent (txid tx) ht (word_of_nat txIdx)) stxos tx txIdx si bd"
  have N: "?F = None \<longleftrightarrow> 0 < n \<and> length stxos < si + n
      \<or> (\<exists>s \<in> set (take n (drop si stxos)). long_program (st_PkScript s))"
    if "n = (if txIdx \<noteq> 0 then length (mt_TxIn tx) else 0)" for n
    by (rule tx_inputs_None) (rule accumulate_None, rule that)
  have O: "for_outputs (addReceived h ht' i) outs v bd = None \<longleftrightarrow> (\<exists>out \<in> set outs. long_program (to_PkScript out))"
    for h ht' i outs v bd by (rule for_outputs_None) (rule accumulate_None)
  show ?case
  proof (cases ?F)
    case None
    then show ?thesis using N [OF refl] by (auto simp: txs_panic_Cons Let_def split: if_splits)
  next
    case (Some x)
    then obtain bd' where x: "?F = Some (bd', si + (if txIdx \<noteq> 0 then length (mt_TxIn tx) else 0))"
      by (cases x) (auto dest: tx_inputs_Some)
    then show ?thesis
      using N [OF refl] by (auto simp: txs_panic_Cons Let_def Option.bind_eq_None_conv O Cons.IH)
  qed
qed

lemma disconnect_txs_None:
  "disconnect_txs txid ht stxos txs txIdx si bd = None \<longleftrightarrow> txs_panic stxos txs txIdx si"
proof (induction txs arbitrary: txIdx si bd)
  case Nil
  then show ?case by (simp add: txs_panic_def)
next
  case (Cons tx txs)
  let ?F = "tx_inputs (undoSpent (txid tx) ht (word_of_nat txIdx)) stxos tx txIdx si bd"
  have N: "?F = None \<longleftrightarrow> 0 < n \<and> length stxos < si + n
      \<or> (\<exists>s \<in> set (take n (drop si stxos)). long_program (st_PkScript s))"
    if "n = (if txIdx \<noteq> 0 then length (mt_TxIn tx) else 0)" for n
    by (rule tx_inputs_None) (rule accumulate_None, rule that)
  have O: "for_outputs (undoReceived h ht' i) outs v bd = None \<longleftrightarrow> (\<exists>out \<in> set outs. long_program (to_PkScript out))"
    for h ht' i outs v bd by (rule for_outputs_None) (rule accumulate_None)
  show ?case
  proof (cases ?F)
    case None
    then show ?thesis using N [OF refl] by (auto simp: txs_panic_Cons Let_def split: if_splits)
  next
    case (Some x)
    then obtain bd' where x: "?F = Some (bd', si + (if txIdx \<noteq> 0 then length (mt_TxIn tx) else 0))"
      by (cases x) (auto dest: tx_inputs_Some)
    then show ?thesis
      using N [OF refl] by (auto simp: txs_panic_Cons Let_def Option.bind_eq_None_conv O Cons.IH)
  qed
qed


section \<open>What a block writes\<close>

definition unspent_op :: "'db manager \<Rightarrow> addrUnspentEntry \<Rightarrow> batch_op" where
  "unspent_op m u = (if au_isNull u then BDelete (au_key u)
     else BPut (au_key u) (obfuscate m (addrUnspentEntry_encode u)))"

lemma put_addressIndex_eq:
  "put_addressIndex m es b = b @ map (\<lambda>e. BPut (ai_key e) (obfuscate m (enc_i64 (ai_delta e) []))) es"
  by (induction es arbitrary: b) (simp_all add: put_addressIndex_def putObfuscated_def)

lemma put_addressUnspent_eq: "put_addressUnspent m us b = b @ map (unspent_op m) us"
  by (induction us arbitrary: b) (simp_all add: put_addressUnspent_def unspent_op_def putObfuscated_def)

lemma unspent_op_key [simp]: "op_key (unspent_op m u) = au_key u"
  by (simp add: unspent_op_def)

lemma put_spentIndex_Some:
  "put_spentIndex m ss b = Some b' \<Longrightarrow> \<exists>ops. b' = b @ ops \<and> map op_key ops = map se_key ss"
proof (induction ss arbitrary: b)
  case (Cons s ss)
  then obtain v where v: "put_spentIndex m ss (putObfuscated m (se_key s) v b) = Some b'"
    by (auto simp: Option.bind_eq_Some_conv)
  from Cons.IH [OF v] obtain ops where "b' = putObfuscated m (se_key s) v b @ ops" "map op_key ops = map se_key ss"
    by blast
  then show ?case
    by (intro exI [of _ "BPut (se_key s) (obfuscate m v) # ops"]) (simp add: putObfuscated_def)
qed simp

text \<open>The keys an accumulator holds are in the namespaces of their tables.\<close>

definition bd_keys :: "blockDeltas \<Rightarrow> bool" where
  "bd_keys bd \<longleftrightarrow>
    list_all (\<lambda>e. hd (ai_key e) = DBAddressIndex) (bd_addressIndex bd) \<and>
    list_all (\<lambda>u. hd (au_key u) = DBAddressUnspent) (bd_addressUnspent bd) \<and>
    list_all (\<lambda>s. hd (se_key s) = DBSpentIndex \<and> length (se_addrHashBytes s) \<le> 32) (bd_spentIndex bd)"

text \<open>The accumulators of connecting and of disconnecting the same transactions mirror each other.\<close>

definition mirror :: "blockDeltas \<Rightarrow> blockDeltas \<Rightarrow> bool" where
  "mirror bd bd' \<longleftrightarrow> bd_keys bd
    \<and> bd_addressErase bd' = bd_addressIndex bd
    \<and> map SpentIndexKey_Key (bd_spentErase bd') = map se_key (bd_spentIndex bd)
    \<and> map au_key (bd_addressUnspent bd') = map au_key (bd_addressUnspent bd)
    \<and> map au_isNull (bd_addressUnspent bd') = map (Not \<circ> au_isNull) (bd_addressUnspent bd)"

lemma mirror_received:
  assumes "mirror bd bd'" "addReceived h ht i out v bd = Some b"
  shows "\<exists>b'. undoReceived h ht i out v bd' = Some b' \<and> mirror b b'"
  using assms
  by (auto simp: accumulate_defs mirror_def bd_keys_def Option.bind_eq_Some_conv Let_def
      split: prod.splits if_splits)

lemma mirror_spent:
  assumes "mirror bd bd'" "addSpent h ht i txin stxo v bd = Some b"
  shows "\<exists>b'. undoSpent h ht i txin stxo v bd' = Some b' \<and> mirror b b'"
  using assms
  by (auto simp: accumulate_defs mirror_def bd_keys_def Option.bind_eq_Some_conv Let_def SpentIndexKey_Key_eq
      split: prod.splits if_splits)


lemma mirror_inputs:
  assumes "mirror bd bd'" "for_inputs (addSpent h ht i) stxos ins v si bd = Some (b, si')"
  shows "\<exists>b'. for_inputs (undoSpent h ht i) stxos ins v si bd' = Some (b', si') \<and> mirror b b'"
  using assms
proof (induction ins arbitrary: v si bd bd')
  case (Cons txin ins)
  then obtain b1 where b1: "addSpent h ht i txin (stxos ! si) (word_of_nat v) bd = Some b1"
      "for_inputs (addSpent h ht i) stxos ins (v + 1) (si + 1) b1 = Some (b, si')"
    by (auto simp: Option.bind_eq_Some_conv split: if_splits)
  obtain b1' where b1': "undoSpent h ht i txin (stxos ! si) (word_of_nat v) bd' = Some b1'" "mirror b1 b1'"
    using mirror_spent [OF Cons.prems(1) b1(1)] by blast
  show ?case using Cons.IH [OF b1'(2) b1(2)] b1'(1) Cons.prems(2) by (auto split: if_splits)
qed simp

lemma mirror_tx_inputs:
  assumes "mirror bd bd'" "tx_inputs (addSpent h ht i) stxos tx n si bd = Some (b, si')"
  shows "\<exists>b'. tx_inputs (undoSpent h ht i) stxos tx n si bd' = Some (b', si') \<and> mirror b b'"
  using assms mirror_inputs [OF assms(1), of h ht i stxos "mt_TxIn tx" 0 si b si']
  by (cases "n = 0") (simp_all add: tx_inputs_def)

lemma mirror_outputs:
  assumes "mirror bd bd'" "for_outputs (addReceived h ht i) outs v bd = Some b"
  shows "\<exists>b'. for_outputs (undoReceived h ht i) outs v bd' = Some b' \<and> mirror b b'"
  using assms
proof (induction outs arbitrary: v bd bd')
  case (Cons out outs)
  then obtain b1 where b1: "addReceived h ht i out (word_of_nat v) bd = Some b1"
      "for_outputs (addReceived h ht i) outs (v + 1) b1 = Some b"
    by (auto simp: Option.bind_eq_Some_conv)
  obtain b1' where b1': "undoReceived h ht i out (word_of_nat v) bd' = Some b1'" "mirror b1 b1'"
    using mirror_received [OF Cons.prems(1) b1(1)] by blast
  show ?case using Cons.IH [OF b1'(2) b1(2)] b1'(1) by auto
qed simp

lemma mirror_txs:
  assumes "mirror bd bd'" "connect_txs txid ht stxos txs i si bd b = Some (bd1, b1)"
  shows "\<exists>bd1' ops. disconnect_txs txid ht stxos txs i si bd' = Some bd1' \<and> mirror bd1 bd1'
    \<and> b1 = b @ ops \<and> (\<forall>op \<in> set ops. hd (op_key op) = 0x07)"
  using assms
proof (induction txs arbitrary: i si bd bd' b)
  case (Cons tx txs)
  let ?w = "word_of_nat i :: u32" and ?op = "BPut (txIndexKey (txid tx)) (txIndexValue_bytes \<lparr>xv_height = ht, xv_txIndex = word_of_nat i\<rparr>)"
  obtain b2 si2 b3 where
    I: "tx_inputs (addSpent (txid tx) ht ?w) stxos tx i si bd = Some (b2, si2)" and
    O: "for_outputs (addReceived (txid tx) ht ?w) (mt_TxOut tx) 0 b2 = Some b3" and
    R: "connect_txs txid ht stxos txs (i + 1) si2 b3 (b @ [?op]) = Some (bd1, b1)"
    using Cons.prems(2) by (auto simp: Let_def Option.bind_eq_Some_conv)
  obtain b2' where I': "tx_inputs (undoSpent (txid tx) ht ?w) stxos tx i si bd' = Some (b2', si2)" "mirror b2 b2'"
    using mirror_tx_inputs [OF Cons.prems(1) I] by blast
  obtain b3' where O': "for_outputs (undoReceived (txid tx) ht ?w) (mt_TxOut tx) 0 b2' = Some b3'" "mirror b3 b3'"
    using mirror_outputs [OF I'(2) O] by blast
  obtain bd1' ops where "disconnect_txs txid ht stxos txs (i + 1) si2 b3' = Some bd1'" "mirror bd1 bd1'"
    "b1 = (b @ [?op]) @ ops" "\<forall>op \<in> set ops. hd (op_key op) = 0x07"
    using Cons.IH [OF O'(2) R] by blast
  then show ?case
    using I'(1) O'(1) by (intro exI [of _ bd1'] exI [of _ "?op # ops"]) (simp add: Let_def txIndexKey_def)
qed simp

lemma mirror_new: "mirror newBlockDeltas newBlockDeltas"
  by (simp add: mirror_def bd_keys_def newBlockDeltas_def)

lemma connectBlockBatch_Some:
  assumes "connectBlockBatch txid m block stxos b = Some b1"
  obtains bd bd' ops sops where
    "disconnect_txs txid (bl_Height block) stxos (bl_Txs block) 0 0 newBlockDeltas = Some bd'"
    "mirror bd bd'" "\<forall>op \<in> set ops. hd (op_key op) = 0x07" "map op_key sops = map se_key (bd_spentIndex bd)"
    "b1 = b @ ops @ map (\<lambda>e. BPut (ai_key e) (obfuscate m (enc_i64 (ai_delta e) []))) (bd_addressIndex bd)
       @ map (unspent_op m) (bd_addressUnspent bd) @ sops
       @ [BPut (TimestampIndexKey_Key \<lparr>tk_Timestamp = ucast (bl_Timestamp block), tk_BlockHash = bl_Hash block\<rparr>) (obfuscate m [0])]"
proof -
  obtain bd b2 b3 where C: "connect_txs txid (bl_Height block) stxos (bl_Txs block) 0 0 newBlockDeltas b = Some (bd, b2)"
    and S: "put_spentIndex m (bd_spentIndex bd) (put_addressUnspent m (bd_addressUnspent bd)
       (put_addressIndex m (bd_addressIndex bd) b2)) = Some b3"
    and b1: "b1 = putObfuscated m (TimestampIndexKey_Key
       \<lparr>tk_Timestamp = ucast (bl_Timestamp block), tk_BlockHash = bl_Hash block\<rparr>) [0] b3"
    using assms by (auto simp: connectBlockBatch_def Let_def Option.bind_eq_Some_conv)
  obtain bd' ops where D: "disconnect_txs txid (bl_Height block) stxos (bl_Txs block) 0 0 newBlockDeltas = Some bd'"
    "mirror bd bd'" "b2 = b @ ops" "\<forall>op \<in> set ops. hd (op_key op) = 0x07"
    using mirror_txs [OF mirror_new C] by blast
  obtain sops where "b3 = put_addressUnspent m (bd_addressUnspent bd) (put_addressIndex m (bd_addressIndex bd) b2) @ sops"
    "map op_key sops = map se_key (bd_spentIndex bd)"
    using put_spentIndex_Some [OF S] by blast
  with D b1 show ?thesis
    by (intro that [of bd' bd ops sops])
      (simp_all add: put_addressUnspent_eq put_addressIndex_eq putObfuscated_def)
qed


lemma apply_batch_const:
  assumes "\<exists>op \<in> set b. op_key op = k" "\<forall>op \<in> set b. op_key op = k \<longrightarrow> op_value op = v"
  shows "apply_batch b c k = v"
  using assms
proof (induction b rule: rev_induct)
  case (snoc op b)
  then show ?case by (cases "op_key op = k") (auto simp: apply_op_eq)
qed simp

section \<open>Disconnecting undoes connecting\<close>

text \<open>
  The index is ready for a block when it holds the coins the block spends, as the spend journal
  describes them, and none of the entries the block will write. In particular no coin that the block
  creates is spent in the block: it would have to be both present and absent.
\<close>

definition undo_ready ::
  "(MsgTx \<Rightarrow> hash) \<Rightarrow> 'db manager \<Rightarrow> (bytes \<rightharpoonup> bytes) \<Rightarrow> Block \<Rightarrow> SpentTxOut list \<Rightarrow> bool" where
  "undo_ready txid m c block stxos =
    (case disconnect_txs txid (bl_Height block) stxos (bl_Txs block) 0 0 newBlockDeltas of
       None \<Rightarrow> False
     | Some bd \<Rightarrow>
        list_all (\<lambda>u. c (au_key u) = op_value (unspent_op m u)) (bd_addressUnspent bd)
        \<and> list_all (\<lambda>e. c (ai_key e) = None) (bd_addressErase bd)
        \<and> list_all (\<lambda>k. c (SpentIndexKey_Key k) = None) (bd_spentErase bd))"

definition disconnect_batch :: "'db manager \<Rightarrow> Block \<Rightarrow> blockDeltas \<Rightarrow> batch" where
  "disconnect_batch m block bd =
    map (\<lambda>e. BDelete (ai_key e)) (bd_addressErase bd) @ map (unspent_op m) (bd_addressUnspent bd)
    @ map (\<lambda>sk. BDelete (SpentIndexKey_Key sk)) (bd_spentErase bd)
    @ [BPut indexTipKey (obfuscate m (enc_i32 (bl_Height block - 1) (enc_hash (bl_PrevBlock block) [])))]"

lemma disconnectBlock_eq:
  "disconnectBlock L txid m block stxos =
    (case disconnect_txs txid (bl_Height block) stxos (bl_Txs block) 0 0 newBlockDeltas of
       None \<Rightarrow> Panic | Some bd \<Rightarrow> write_batch L m (disconnect_batch m block bd))"
  by (simp add: disconnectBlock_def disconnect_batch_def put_addressUnspent_eq storeIndexTip_def
      putObfuscated_def Let_def split: option.split)

lemma hd_indexTipKey: "hd indexTipKey = 0"
  unfolding indexTipKey_def list.map list.sel by simp

text \<open>A key of one of the three tables, after both batches, has the value it had before.\<close>

lemma connect_disconnect_contents:
  assumes C: "connectBlockBatch txid m block stxos [] = Some b"
    and D: "disconnect_txs txid (bl_Height block) stxos (bl_Txs block) 0 0 newBlockDeltas = Some bd'"
    and ready: "undo_ready txid m c block stxos"
    and k: "hd k \<in> {DBAddressIndex, DBAddressUnspent, DBSpentIndex}"
  shows "apply_batch (disconnect_batch m block bd')
      (apply_batch (storeIndexTip m (bl_Hash block) (bl_Height block) b) c) k = c k"
proof -
  obtain bd bd2 ops sops where
    D2: "disconnect_txs txid (bl_Height block) stxos (bl_Txs block) 0 0 newBlockDeltas = Some bd2"
    and M2: "mirror bd bd2" and ops: "\<forall>op \<in> set ops. hd (op_key op) = 0x07"
    and sops: "map op_key sops = map se_key (bd_spentIndex bd)"
    and b: "b = [] @ ops @ map (\<lambda>e. BPut (ai_key e) (obfuscate m (enc_i64 (ai_delta e) []))) (bd_addressIndex bd)
       @ map (unspent_op m) (bd_addressUnspent bd) @ sops
       @ [BPut (TimestampIndexKey_Key \<lparr>tk_Timestamp = ucast (bl_Timestamp block), tk_BlockHash = bl_Hash block\<rparr>) (obfuscate m [0])]"
    by (rule connectBlockBatch_Some [OF C])
  have M: "mirror bd bd'" using M2 D D2 by simp
  let ?K = "ai_key ` set (bd_addressErase bd') \<union> au_key ` set (bd_addressUnspent bd')
     \<union> SpentIndexKey_Key ` set (bd_spentErase bd')"
  have keys: "ai_key ` set (bd_addressIndex bd) = ai_key ` set (bd_addressErase bd')"
    "au_key ` set (bd_addressUnspent bd) = au_key ` set (bd_addressUnspent bd')"
    "op_key ` set sops = SpentIndexKey_Key ` set (bd_spentErase bd')"
    using M sops unfolding mirror_def by (metis list.set_map)+
  have kt: "k \<noteq> indexTipKey" "k \<notin> op_key ` set ops"
    "k \<noteq> TimestampIndexKey_Key \<lparr>tk_Timestamp = ucast (bl_Timestamp block), tk_BlockHash = bl_Hash block\<rparr>"
    using k ops hd_indexTipKey by (auto simp: TimestampIndexKey_Key_eq)
  show ?thesis
  proof (cases "k \<in> ?K")
    case False
    then have "k \<notin> op_key ` set (storeIndexTip m (bl_Hash block) (bl_Height block) b)"
      "k \<notin> op_key ` set (disconnect_batch m block bd')"
      using kt keys by (auto simp: b storeIndexTip_def putObfuscated_def disconnect_batch_def)
    then show ?thesis by (simp add: apply_batch_other)
  next
    case True
    then have "\<exists>op \<in> set (disconnect_batch m block bd'). op_key op = k"
      by (auto simp: disconnect_batch_def bex_Un)
    moreover have "\<forall>op \<in> set (disconnect_batch m block bd'). op_key op = k \<longrightarrow> op_value op = c k"
      using ready D kt(1) by (auto simp: undo_ready_def disconnect_batch_def list_all_iff)
    ultimately show ?thesis by (rule apply_batch_const)
  qed
qed

section \<open>The effect of the writes\<close>

context leveldb_spec
begin

lemma write_batch_ok:
  assumes "inv (m_db m)" "write_batch L m b = Ret m'"
  shows "inv (m_db m')" "contents (m_db m') = apply_batch b (contents (m_db m))" "m_key m' = m_key m"
  using assms write_ok [of "m_db m" b] by (auto simp: write_batch_def split: sum.splits)

lemma connectBlock_ok:
  assumes "inv (m_db m)" "connectBlock L txid m block stxos = Ret m'"
  obtains b where "connectBlockBatch txid m block stxos [] = Some b" "inv (m_db m')" "m_key m' = m_key m"
    "contents (m_db m') = apply_batch (storeIndexTip m (bl_Hash block) (bl_Height block) b) (contents (m_db m))"
  using assms write_batch_ok [OF assms(1), of _ m'] by (auto simp: connectBlock_def split: option.splits)

lemma disconnectBlock_ok:
  assumes "inv (m_db m)" "disconnectBlock L txid m block stxos = Ret m'"
  obtains bd where "disconnect_txs txid (bl_Height block) stxos (bl_Txs block) 0 0 newBlockDeltas = Some bd"
    "inv (m_db m')" "m_key m' = m_key m"
    "contents (m_db m') = apply_batch (disconnect_batch m block bd) (contents (m_db m))"
  using assms write_batch_ok [OF assms(1), of _ m'] by (auto simp: disconnectBlock_eq split: option.splits)

lemma connect_disconnect:
  assumes "inv (m_db m)" "connectBlock L txid m block stxos = Ret m1" "disconnectBlock L txid m1 block stxos = Ret m2"
    and "undo_ready txid m (contents (m_db m)) block stxos" "hd k \<in> {DBAddressIndex, DBAddressUnspent, DBSpentIndex}"
  shows "contents (m_db m2) k = contents (m_db m) k"
proof -
  obtain b where C: "connectBlockBatch txid m block stxos [] = Some b" "inv (m_db m1)" "m_key m1 = m_key m"
    "contents (m_db m1) = apply_batch (storeIndexTip m (bl_Hash block) (bl_Height block) b) (contents (m_db m))"
    by (rule connectBlock_ok [OF assms(1,2)])
  obtain bd where D: "disconnect_txs txid (bl_Height block) stxos (bl_Txs block) 0 0 newBlockDeltas = Some bd"
    "contents (m_db m2) = apply_batch (disconnect_batch m1 block bd) (contents (m_db m1))"
    by (rule disconnectBlock_ok [OF C(2) assms(3)])
  have "disconnect_batch m1 block bd = disconnect_batch m block bd"
    using C(3) by (simp add: disconnect_batch_def obfuscate_def unspent_op_def)
  then show ?thesis
    using connect_disconnect_contents [OF C(1) D(1) assms(4,5)] C(4) D(2) by simp
qed

lemma wipe_loop_ok:
  assumes "inv (m_db m)" "wipe_loop L ks m b n = Ret (m', b')"
  shows "inv (m_db m') \<and> m_key m' = m_key m \<and> apply_batch b' (contents (m_db m')) k =
    (if k \<in> set ks \<and> k \<noteq> [] \<and> hd k \<in> index_prefixes then None else apply_batch b (contents (m_db m)) k)"
  using assms
proof (induction ks arbitrary: m b n)
  case (Cons x xs)
  show ?case
  proof (cases "x \<noteq> [] \<and> hd x \<in> index_prefixes")
    case False
    then have "wipe_loop L xs m b n = Ret (m', b')"
      using Cons.prems(2) by (cases x) auto
    then show ?thesis using Cons.IH [OF Cons.prems(1)] False by auto
  next
    case True
    show ?thesis
    proof (cases "n + 1 \<ge> wipeBatchKeys")
      case True2: True
      then obtain m1 where "write_batch L m (b @ [BDelete x]) = Ret m1" "wipe_loop L xs m1 [] 0 = Ret (m', b')"
        using Cons.prems(2) True by (cases x) (auto simp: Let_def obind_Ret_iff)
      then show ?thesis
        using Cons.IH [of m1 "[]" 0] write_batch_ok [OF Cons.prems(1)] True by auto
    next
      case False
      then have "wipe_loop L xs m (b @ [BDelete x]) (n + 1) = Ret (m', b')"
        using Cons.prems(2) True by (cases x) (auto simp: Let_def)
      then show ?thesis using Cons.IH [OF Cons.prems(1)] True by auto
    qed
  qed
qed simp

lemma wipeIndex_ok:
  assumes "inv (m_db m)" "wipeIndex L m = Ret m'"
  shows "contents (m_db m') k =
    (if k \<noteq> [] \<and> hd k \<in> index_prefixes \<or> k = indexTipKey then None else contents (m_db m) k)"
proof -
  obtain kvs m1 b where I: "ldb_Iterate L (m_db m) [] None = (kvs, None)"
    and W: "wipe_loop L (map fst kvs) m [] 0 = Ret (m1, b)" "write_batch L m1 (b @ [BDelete indexTipKey]) = Ret m'"
    using assms(2) by (auto simp: wipeIndex_def obind_Ret_iff split: prod.splits option.splits)
  have "inv (m_db m1)" and *: "apply_batch b (contents (m_db m1)) k =
    (if k \<in> set (map fst kvs) \<and> k \<noteq> [] \<and> hd k \<in> index_prefixes then None else contents (m_db m) k)"
    using wipe_loop_ok [OF assms(1) W(1), of k] by auto
  have "k \<in> set (map fst kvs) \<longleftrightarrow> contents (m_db m) k \<noteq> None"
    using iterate_ok [OF assms(1) I] by (force simp: in_range_def)
  then show ?thesis
    using * write_batch_ok(2) [OF \<open>inv (m_db m1)\<close> W(2)] by auto
qed

end


section \<open>When connecting a block panics\<close>

lemma put_spentIndex_None:
  "list_all (\<lambda>s. length (se_addrHashBytes s) \<le> 32) ss \<Longrightarrow> put_spentIndex m ss b \<noteq> None"
  by (induction ss arbitrary: b) (auto simp: spentIndexEntry_encode_def enc_hashIndex_def)

lemma connectBlockBatch_None:
  "connectBlockBatch txid m block stxos b = None \<longleftrightarrow> txs_panic stxos (bl_Txs block) 0 0"
proof (cases "connect_txs txid (bl_Height block) stxos (bl_Txs block) 0 0 newBlockDeltas b")
  case None
  then show ?thesis using None [unfolded connect_txs_None] by (simp add: connectBlockBatch_def)
next
  case (Some x)
  obtain bd b1 where x: "x = (bd, b1)" by (cases x)
  then have "bd_keys bd" using mirror_txs [OF mirror_new Some [unfolded x]] by (auto simp: mirror_def)
  then have "list_all (\<lambda>s. length (se_addrHashBytes s) \<le> 32) (bd_spentIndex bd)"
    by (auto simp: bd_keys_def list_all_iff)
  then obtain b2 where "put_spentIndex m (bd_spentIndex bd) (put_addressUnspent m (bd_addressUnspent bd)
      (put_addressIndex m (bd_addressIndex bd) b1)) = Some b2"
    using put_spentIndex_None by blast
  then have "connectBlockBatch txid m block stxos b \<noteq> None"
    using Some x by (simp add: connectBlockBatch_def Let_def)
  moreover have "\<not> txs_panic stxos (bl_Txs block) 0 0" using connect_txs_None Some by (metis option.distinct(1))
  ultimately show ?thesis by simp
qed

section \<open>The order in which results arrive\<close>

definition rb_add :: "int \<times> fetchResult \<Rightarrow> 'db rebuild \<Rightarrow> 'db rebuild" where
  "rb_add r st = st\<lparr>rb_pending := fmupd (fst r) (snd r) (rb_pending st)\<rparr>"

lemma obind_Ret [simp]: "obind m Ret = m" by (cases m) simp_all

lemma obind_obind: "obind (obind m f) g = obind m (\<lambda>x. obind (f x) g)" by (cases m) simp_all

lemma rb_index_pending:
  "rb_index L txid best blk stx (st\<lparr>rb_pending := P\<rparr>) =
    obind (rb_index L txid best blk stx st) (\<lambda>st'. Ret (st'\<lparr>rb_pending := P\<rparr>))"
  by (cases st) (simp add: rb_index_def obind_obind split: option.split)

lemma rb_index_keeps:
  "rb_index L txid best blk stx st = Ret st' \<Longrightarrow> rb_pending st' = rb_pending st \<and> rb_next st' = rb_next st"
  by (auto simp: rb_index_def obind_Ret_iff split: option.splits if_splits)

lemma rb_skip_add: "fst r \<noteq> rb_next st \<Longrightarrow> rb_skip (rb_add r st) = rb_add r (rb_skip st)"
  by (simp add: rb_skip_def rb_add_def fmap_ext fmdrop_fmupd)

lemma rb_consume_add:
  assumes "fmlookup (rb_pending st) (fst r) = None"
  shows "rb_consume L txid best (rb_add r st) =
    obind (rb_consume L txid best st) (\<lambda>st1. rb_consume L txid best (rb_add r st1))"
  using assms
proof (induction L txid best st rule: rb_consume.induct)
  case (1 L txid best st)
  show ?case
  proof (cases "fmlookup (rb_pending st) (rb_next st)")
    case None
    then show ?thesis by (simp add: rb_consume.simps [of _ _ _ st])
  next
    case (Some v)
    then have ne: "fst r \<noteq> rb_next st" using 1(3) by auto
    then have look: "fmlookup (rb_pending (rb_add r st)) (rb_next (rb_add r st)) = Some v"
      using Some by (simp add: rb_add_def)
    have pend: "fmlookup (rb_pending (rb_skip st)) (fst r) = None" using 1(3) by (simp add: rb_skip_def)
    show ?thesis
    proof (cases v)
      case (FetchFailed e)
      then show ?thesis
        using Some look ne pend 1(2) [OF Some FetchFailed]
        by (auto simp: rb_consume.simps [of _ _ _ st] rb_consume.simps [of _ _ _ "rb_add r st"] rb_skip_add)
    next
      case (Fetched blk stx)
      note I = rb_index_pending [where L = L and txid = txid and best = best and blk = blk and stx = stx and st = st
          and P = "fmupd (fst r) (snd r) (rb_pending st)", folded rb_add_def]
      show ?thesis
      proof (cases "rb_index L txid best blk stx st")
        case (Ret st')
        have k: "rb_pending st' = rb_pending st" "rb_next st' = rb_next st"
          using rb_index_keeps [OF Ret] by simp_all
        have e: "st'\<lparr>rb_pending := rb_pending st, rb_next := rb_next st\<rparr> = st'" using k by (cases st') simp
        have e': "rb_add r st'\<lparr>rb_pending := rb_pending (rb_add r st), rb_next := rb_next (rb_add r st)\<rparr> = rb_add r st'"
          using k by (cases st') (simp add: rb_add_def)
        have "rb_index L txid best blk stx (rb_add r st) = Ret (rb_add r st')"
          using I Ret k by (simp add: rb_add_def)
        moreover have "fmlookup (rb_pending (rb_skip st')) (fst r) = None" using pend k by (simp add: rb_skip_def)
        ultimately show ?thesis
          using Some look ne 1(1) [OF Some Fetched Ret] Fetched Ret k
          by (simp add: rb_consume.simps [of _ _ _ st] rb_consume.simps [of _ _ _ "rb_add r st"] e e' rb_skip_add)
      qed (use I Some look Fetched in \<open>simp_all add: rb_consume.simps [of _ _ _ st]
            rb_consume.simps [of _ _ _ "rb_add r st"]\<close>)
    qed
  qed
qed

lemma rb_results_consume:
  assumes "distinct (map fst rs)" "\<forall>r \<in> set rs. fmlookup (rb_pending st) (fst r) = None"
  shows "obind (rb_consume L txid best st) (rb_results L txid best rs) = rb_consume L txid best (fold rb_add rs st)"
  using assms
proof (induction rs arbitrary: st)
  case Nil
  then show ?case by (cases "rb_consume L txid best st") simp_all
next
  case (Cons r rs)
  have "rb_results L txid best (r # rs) = (\<lambda>s. obind (rb_consume L txid best (rb_add r s)) (rb_results L txid best rs))"
    by (rule ext) (simp add: rb_add_def)
  then have "obind (rb_consume L txid best st) (rb_results L txid best (r # rs)) =
      obind (rb_consume L txid best (rb_add r st)) (rb_results L txid best rs)"
    using Cons.prems(2) by (simp add: rb_consume_add obind_obind)
  also have "\<dots> = rb_consume L txid best (fold rb_add rs (rb_add r st))"
    using Cons.prems by (intro Cons.IH) (auto simp: rb_add_def image_iff)
  finally show ?case by (simp only: fold_Cons comp_apply)
qed

lemma fold_rb_add:
  "fold rb_add rs st = st\<lparr>rb_pending := fold (\<lambda>r. fmupd (fst r) (snd r)) rs (rb_pending st)\<rparr>"
  by (induction rs arbitrary: st) (simp_all add: rb_add_def)

lemma lookup_fold_upd:
  "distinct (map fst rs) \<Longrightarrow> fmlookup (fold (\<lambda>r. fmupd (fst r) (snd r)) rs P) h =
     (case map_of rs h of Some v \<Rightarrow> Some v | None \<Rightarrow> fmlookup P h)"
proof (induction rs arbitrary: P)
  case (Cons r rs)
  show ?case
  proof (cases "h = fst r")
    case True
    then have "map_of rs h = None" using Cons.prems by (simp add: map_of_eq_None_iff)
    then show ?thesis using Cons True by simp
  next
    case False
    then show ?thesis using Cons by (simp split: option.split)
  qed
qed simp

lemma rb_results_start:
  assumes "distinct (map fst rs)"
  shows "rb_results L txid best rs (rb_start m n) =
    rb_consume L txid best ((rb_start m n)\<lparr>rb_pending := fmap_of_list rs\<rparr>)"
proof -
  have "rb_consume L txid best (rb_start m n) = Ret (rb_start m n)"
    by (simp add: rb_consume.simps rb_start_def)
  then have "rb_results L txid best rs (rb_start m n) = rb_consume L txid best (fold rb_add rs (rb_start m n))"
    using rb_results_consume [OF assms, of "rb_start m n" L txid best] by (simp add: rb_start_def)
  moreover have "fold (\<lambda>r. fmupd (fst r) (snd r)) rs fmempty = fmap_of_list rs"
    by (rule fmap_ext) (simp add: lookup_fold_upd [OF assms] fmlookup_of_list split: option.split)
  ultimately show ?thesis by (simp add: fold_rb_add rb_start_def)
qed


section \<open>A batch that is not flushed\<close>



section \<open>The transaction table\<close>

definition tx_row :: "(MsgTx \<Rightarrow> hash) \<Rightarrow> i32 \<Rightarrow> nat \<times> MsgTx \<Rightarrow> batch_op" where
  "tx_row txid height p = BPut (txIndexKey (txid (snd p)))
     (txIndexValue_bytes \<lparr>xv_height = height, xv_txIndex = word_of_nat (fst p)\<rparr>)"

lemma connect_txs_rows:
  "connect_txs txid ht stxos txs i si bd b = Some (bd1, b1) \<Longrightarrow> b1 = b @ map (tx_row txid ht) (enumerate i txs)"
  by (induction txs arbitrary: i si bd b)
    (fastforce simp: Let_def Option.bind_eq_Some_conv tx_row_def)+

text \<open>The batch of a block: the transaction rows first, then rows of the other tables.\<close>

lemma connectBlockBatch_rows:
  assumes "connectBlockBatch txid m block stxos [] = Some b"
  obtains rest where "b = map (tx_row txid (bl_Height block)) (enumerate 0 (bl_Txs block)) @ rest @
      [BPut (TimestampIndexKey_Key \<lparr>tk_Timestamp = ucast (bl_Timestamp block), tk_BlockHash = bl_Hash block\<rparr>) (obfuscate m [0])]"
    "\<forall>op \<in> set rest. hd (op_key op) \<in> {DBAddressIndex, DBAddressUnspent, DBSpentIndex}"
proof -
  obtain bd b2 b3 where C: "connect_txs txid (bl_Height block) stxos (bl_Txs block) 0 0 newBlockDeltas [] = Some (bd, b2)"
    and S: "put_spentIndex m (bd_spentIndex bd) (put_addressUnspent m (bd_addressUnspent bd)
       (put_addressIndex m (bd_addressIndex bd) b2)) = Some b3"
    and b: "b = putObfuscated m (TimestampIndexKey_Key
       \<lparr>tk_Timestamp = ucast (bl_Timestamp block), tk_BlockHash = bl_Hash block\<rparr>) [0] b3"
    using assms by (auto simp: connectBlockBatch_def Let_def Option.bind_eq_Some_conv)
  have K: "bd_keys bd" using mirror_txs [OF mirror_new C] by (auto simp: mirror_def)
  obtain sops where s: "b3 = put_addressUnspent m (bd_addressUnspent bd) (put_addressIndex m (bd_addressIndex bd) b2) @ sops"
    "map op_key sops = map se_key (bd_spentIndex bd)"
    using put_spentIndex_Some [OF S] by blast
  have "op_key ` set sops = se_key ` set (bd_spentIndex bd)" using s(2) by (metis list.set_map)
  then have "\<forall>op \<in> set sops. hd (op_key op) = DBSpentIndex" using K by (force simp: bd_keys_def list_all_iff)
  then show ?thesis
    using K s(1) b connect_txs_rows [OF C]
    by (intro that [of "map (\<lambda>e. BPut (ai_key e) (obfuscate m (enc_i64 (ai_delta e) []))) (bd_addressIndex bd)
         @ map (unspent_op m) (bd_addressUnspent bd) @ sops"])
      (auto simp: put_addressUnspent_eq put_addressIndex_eq putObfuscated_def bd_keys_def list_all_iff)
qed

lemma tx_rows_lookup:
  assumes "distinct (map txid txs)" "i < length txs" "length txs \<le> 2 ^ 16"
  shows "apply_batch (map (tx_row txid ht) (enumerate 0 txs)) c (txIndexKey (txid (txs ! i))) =
    Some (txIndexValue_bytes \<lparr>xv_height = ht, xv_txIndex = word_of_nat i\<rparr>)"
proof -
  let ?op = "tx_row txid ht (i, txs ! i)"
  have "map op_key (map (tx_row txid ht) (enumerate 0 txs)) = map txIndexKey (map txid txs)"
    by (rule nth_equalityI) (simp_all add: tx_row_def nth_enumerate_eq)
  moreover have "inj txIndexKey" by (simp add: inj_def txIndexKey_def)
  ultimately have "distinct (map op_key (map (tx_row txid ht) (enumerate 0 txs)))"
    using assms(1) by (metis distinct_map inj_on_subset subset_UNIV)
  moreover have "?op \<in> set (map (tx_row txid ht) (enumerate 0 txs))"
    using assms(2) by (force simp: in_set_enumerate_eq)
  ultimately have "apply_batch (map (tx_row txid ht) (enumerate 0 txs)) c (op_key ?op) = op_value ?op"
    by (rule apply_batch_distinct)
  then show ?thesis by (simp add: tx_row_def)
qed

lemma tx_value_roundtrip: "decodeTxIndexValue (txIndexValue_bytes v) = Some v"
  by (cases v) (simp add: decodeTxIndexValue_def txIndexValue_bytes_def slice_def codec)

context leveldb_spec
begin

lemma connected_rows:
  assumes "inv (m_db m)" "connectBlock L txid m block stxos = Ret m1"
  shows "hd k = 0x07 \<Longrightarrow> contents (m_db m1) k =
      apply_batch (map (tx_row txid (bl_Height block)) (enumerate 0 (bl_Txs block))) (contents (m_db m)) k"
    and "contents (m_db m1) (TimestampIndexKey_Key
      \<lparr>tk_Timestamp = ucast (bl_Timestamp block), tk_BlockHash = bl_Hash block\<rparr>) = Some (obfuscate m [0])"
proof -
  obtain b where b: "connectBlockBatch txid m block stxos [] = Some b"
    "contents (m_db m1) = apply_batch (storeIndexTip m (bl_Hash block) (bl_Height block) b) (contents (m_db m))"
    by (rule connectBlock_ok [OF assms])
  obtain rest where r: "b = map (tx_row txid (bl_Height block)) (enumerate 0 (bl_Txs block)) @ rest @
      [BPut (TimestampIndexKey_Key \<lparr>tk_Timestamp = ucast (bl_Timestamp block), tk_BlockHash = bl_Hash block\<rparr>) (obfuscate m [0])]"
    "\<forall>op \<in> set rest. hd (op_key op) \<in> {DBAddressIndex, DBAddressUnspent, DBSpentIndex}"
    by (rule connectBlockBatch_rows [OF b(1)])
  have "TimestampIndexKey_Key t \<noteq> indexTipKey" for t
    using hd_indexTipKey by (auto simp: TimestampIndexKey_Key_eq dest: arg_cong [where f = hd])
  then show "contents (m_db m1) (TimestampIndexKey_Key
      \<lparr>tk_Timestamp = ucast (bl_Timestamp block), tk_BlockHash = bl_Hash block\<rparr>) = Some (obfuscate m [0])"
    by (simp add: b(2) r(1) storeIndexTip_def putObfuscated_def)
  assume k: "hd k = 0x07"
  then have "k \<notin> op_key ` set rest" "k \<noteq> indexTipKey" "k \<noteq> TimestampIndexKey_Key t" for t
    using r(2) hd_indexTipKey by (auto simp: TimestampIndexKey_Key_eq)
  then show "contents (m_db m1) k =
      apply_batch (map (tx_row txid (bl_Height block)) (enumerate 0 (bl_Txs block))) (contents (m_db m)) k"
    by (simp add: b(2) r(1) storeIndexTip_def putObfuscated_def apply_batch_other)
qed

lemma disconnected_rows:
  assumes "inv (m_db m)" "disconnectBlock L txid m block stxos = Ret m1" "hd k \<in> {0x07, DBTimestampIndex}"
  shows "contents (m_db m1) k = contents (m_db m) k"
proof -
  obtain bd where D: "disconnect_txs txid (bl_Height block) stxos (bl_Txs block) 0 0 newBlockDeltas = Some bd"
    "contents (m_db m1) = apply_batch (disconnect_batch m block bd) (contents (m_db m))"
    by (rule disconnectBlock_ok [OF assms(1,2)])
  obtain bd0 b0 where "connect_txs txid (bl_Height block) stxos (bl_Txs block) 0 0 newBlockDeltas [] = Some (bd0, b0)"
    using connect_txs_None [of txid _ stxos _ 0 0] disconnect_txs_None [of txid _ stxos _ 0 0] D(1)
    by (metis not_None_eq surj_pair)
  then have M: "mirror bd0 bd" using mirror_txs [OF mirror_new] D(1) by fastforce
  then have keys: "au_key ` set (bd_addressUnspent bd) = au_key ` set (bd_addressUnspent bd0)"
    unfolding mirror_def by (metis list.set_map)
  have "\<forall>x \<in> au_key ` set (bd_addressUnspent bd). hd x = DBAddressUnspent"
    unfolding keys using M by (simp add: mirror_def bd_keys_def list_all_iff)
  moreover have "\<forall>e \<in> set (bd_addressErase bd). hd (ai_key e) = DBAddressIndex"
    using M by (simp add: mirror_def bd_keys_def list_all_iff)
  ultimately have "\<forall>op \<in> set (disconnect_batch m block bd). hd (op_key op) \<notin> {0x07, DBTimestampIndex}"
    using hd_indexTipKey by (simp add: disconnect_batch_def SpentIndexKey_Key_eq ball_Un)
  then have "k \<notin> op_key ` set (disconnect_batch m block bd)" using assms(3) by blast
  then show ?thesis by (simp add: D(2) apply_batch_other)
qed

end

section \<open>Undoing the last transaction\<close>





section \<open>A small chain\<close>

text \<open>
  Concrete blocks on which the theorems below are instantiated: a coinbase, a transaction that spends a
  coin stored in the index, and one that spends an output of the same block.
\<close>

definition ex_txid :: "MsgTx \<Rightarrow> hash" where
  "ex_txid tx = word_of_nat (length (mt_TxIn tx)) # word_of_nat (length (mt_TxOut tx)) # replicate 30 0"

definition ex_script :: "byte \<Rightarrow> bytes" where
  "ex_script b = OP_0 # 20 # replicate 20 b"

definition ex_out :: "byte \<Rightarrow> TxOut" where
  "ex_out b = \<lparr>to_Value = 50, to_PkScript = ex_script b\<rparr>"

definition ex_coin :: SpentTxOut where
  "ex_coin = \<lparr>st_Amount = 70, st_PkScript = ex_script 9, st_Height = 3\<rparr>"

definition ex_coin_key :: bytes where
  "ex_coin_key = DBAddressUnspent # le_bytes 4 (5 :: u32) @ pad_hash (replicate 20 9) @ replicate 32 9 @ le_bytes 4 (1 :: u32)"

definition ex_coinbase :: MsgTx where
  "ex_coinbase = \<lparr>mt_TxIn = [], mt_TxOut = [ex_out 7]\<rparr>"

definition ex_spend :: MsgTx where
  "ex_spend = \<lparr>mt_TxIn = [\<lparr>ti_Hash = replicate 32 9, ti_Index = 1\<rparr>], mt_TxOut = [ex_out 8]\<rparr>"

definition ex_block :: Block where
  "ex_block = \<lparr>bl_Height = 4, bl_Hash = replicate 32 4, bl_PrevBlock = replicate 32 3, bl_Timestamp = 1000,
     bl_Txs = [ex_coinbase, ex_spend]\<rparr>"

definition ex_m :: "(bytes, bytes) RBT.rbt manager" where
  "ex_m = \<lparr>m_db = RBT.insert ex_coin_key (xorObfuscate [1,2,3,4,5,6,7,8] (addrUnspentEntry_encode
      \<lparr>au_key = ex_coin_key, au_isNull = False, au_satoshis = 70, au_script = ex_script 9, au_height = 3\<rparr>)) RBT.empty,
     m_key = [1,2,3,4,5,6,7,8]\<rparr>"

lemma ex_script_info [simp]: "ExtractIndexInfo (ex_script b) = (5, replicate 20 b)"
  using ExtractIndexInfo_v0 [of "replicate 20 b"] by (simp add: ex_script_def)

lemma ex_script_short [simp]: "\<not> long_program (ex_script b)"
  using ExtractIndexInfo_bounds [of "ex_script b" 5 "replicate 20 b"] by simp


lemma rbt_total:
  assumes "\<not> txs_panic stxos (bl_Txs block) 0 0"
  obtains m1 m2 where "connectBlock rbt_leveldb txid m block stxos = Ret m1"
    "disconnectBlock rbt_leveldb txid m1 block stxos = Ret m2"
proof -
  obtain b where b: "connectBlockBatch txid m block stxos [] = Some b"
    using connectBlockBatch_None [of txid m block stxos "[]"] assms by auto
  obtain bd where d: "disconnect_txs txid (bl_Height block) stxos (bl_Txs block) 0 0 newBlockDeltas = Some bd"
    using disconnect_txs_None assms by blast
  show ?thesis
    by (rule that) (simp_all add: connectBlock_def disconnectBlock_eq write_batch_def b d rbt_leveldb_def)
qed

lemma rbt_write_total: "\<exists>m'. write_batch rbt_leveldb m b = Ret m'"
  by (simp add: write_batch_def rbt_leveldb_def)

lemma rbt_wipe_loop_total: "\<exists>r. wipe_loop rbt_leveldb ks m b n = Ret r"
proof (induction ks arbitrary: m b n)
  case (Cons k ks)
  then show ?case using rbt_write_total [of m "b @ [BDelete k]"] by (auto simp: Let_def)
qed simp

lemma rbt_wipe_total:
  obtains m' where "wipeIndex rbt_leveldb m = Ret m'"
proof -
  obtain kvs where k: "ldb_Iterate rbt_leveldb (m_db m) [] None = (kvs, None)" by (simp add: rbt_leveldb_def)
  obtain m1 b where "wipe_loop rbt_leveldb (map fst kvs) m [] 0 = Ret (m1, b)"
    using rbt_wipe_loop_total [of "map fst kvs" m "[]" 0] by auto
  then show ?thesis
    using rbt_write_total [of m1 "b @ [BDelete indexTipKey]"] k that by (auto simp: wipeIndex_def)
qed

lemma ex_block_ok: "\<not> txs_panic [ex_coin] (bl_Txs ex_block) 0 0"
  by (simp add: txs_panic_def ex_block_def ex_coinbase_def ex_spend_def ex_coin_def ex_out_def)

lemma ex_key [simp]: "m_key ex_m = [1,2,3,4,5,6,7,8]" by (simp add: ex_m_def)

lemmas ex_defs = ex_block_def ex_coinbase_def ex_spend_def ex_coin_def ex_out_def


section \<open>Properties\<close>

text \<open>
  C29: connecting a block panics exactly when the spend journal is too short for its inputs, or an
  output it creates or spends pays to a witness program too long for a key.
\<close>

theorem connectBlock_panic_iff:
  "connectBlock L txid m block stxos = Panic \<longleftrightarrow> txs_panic stxos (bl_Txs block) 0 0"
  using connectBlockBatch_None [of txid m block stxos "[]"]
  by (auto simp: connectBlock_def write_batch_def split: option.splits sum.splits)



text \<open>
  Wiping removes exactly the rows of the four index tables and the stored tip. The rows of the
  transaction table, with prefix \<open>0x07\<close>, stay.
\<close>

theorem wipeIndex_exact:
  assumes "leveldb_spec L I contents" "I (m_db m)" "wipeIndex L m = Ret m'"
  shows "contents (m_db m') k =
    (if k \<noteq> [] \<and> hd k \<in> index_prefixes \<or> k = indexTipKey then None else contents (m_db m) k)"
  by (rule leveldb_spec.wipeIndex_ok [OF assms])

theorem wipeIndex_exact_witness:
  "\<exists>m'. wipeIndex rbt_leveldb ex_m = Ret m' \<and> RBT.lookup (m_db m') ex_coin_key = None"
proof -
  obtain m' where m: "wipeIndex rbt_leveldb ex_m = Ret m'" by (rule rbt_wipe_total)
  have "ex_coin_key \<noteq> [] \<and> hd ex_coin_key \<in> index_prefixes"
    by (simp add: ex_coin_key_def index_prefixes_def)
  then show ?thesis
    using wipeIndex_exact [OF rbt_db.leveldb_spec_axioms TrueI m, of ex_coin_key] m by simp
qed

text \<open>
  C22: the order in which the readers deliver the blocks does not matter: two deliveries of the same
  results, one per height, make \<open>Init\<close> end with the same database, or fail the same way.
\<close>

theorem Init_order_independent:
  assumes "\<And>n. distinct (map fst (results n))" "\<And>n. distinct (map fst (results' n))"
    and "\<And>n. set (results n) = set (results' n)"
  shows "Init L txid mainHash best results interrupted m = Init L txid mainHash best results' interrupted m"
proof -
  have "fmap_of_list (results n) = fmap_of_list (results' n)" for n
    proof (rule fmap_ext)
    fix h show "fmlookup (fmap_of_list (results n)) h = fmlookup (fmap_of_list (results' n)) h"
      using map_of_inject_set [OF assms(1,2), of n n] assms(3) by (simp add: fmlookup_of_list)
  qed
  then have "rb_results L txid best (results n) (rb_start m n) = rb_results L txid best (results' n) (rb_start m n)" for m n
    by (simp add: rb_results_start assms)
  then show ?thesis by (simp add: Init_def cong: if_cong)
qed

theorem Init_order_independent_witness:
  "Init rbt_leveldb ex_txid (\<lambda>_. None) 1 (\<lambda>n. [(n, FetchFailed ErrBlockNotFound), (n + 1, Fetched ex_block [ex_coin])]) False ex_m
   = Init rbt_leveldb ex_txid (\<lambda>_. None) 1 (\<lambda>n. [(n + 1, Fetched ex_block [ex_coin]), (n, FetchFailed ErrBlockNotFound)]) False ex_m"
  by (rule Init_order_independent) auto





text \<open>
  C24: after a block is connected, looking up any of its transactions by hash finds the transaction and the
  height of the block, as long as the chain serves that block and the read does not fail.
\<close>

theorem GetTxByHash_connected:
  assumes "leveldb_spec L I contents" "I (m_db m)" "connectBlock L txid m block stxos = Ret m1"
    and "distinct (map txid (bl_Txs block))" "i < length (bl_Txs block)" "length (bl_Txs block) \<le> 2 ^ 16"
    and "ldb_Get L (m_db m1) (txIndexKey (txid (bl_Txs block ! i))) \<noteq> Inl ErrIO"
    and "blockByHeight (bl_Height block) = Some block"
  shows "GetTxByHash L (Some blockByHeight) m1 (txid (bl_Txs block ! i)) = Inr (Some (bl_Txs block ! i, bl_Height block))"
proof -
  let ?k = "txIndexKey (txid (bl_Txs block ! i))"
    and ?v = "\<lparr>xv_height = bl_Height block, xv_txIndex = word_of_nat i\<rparr>"
  have "I (m_db m1)" by (rule leveldb_spec.connectBlock_ok [OF assms(1-3)])
  moreover have "contents (m_db m1) ?k = Some (txIndexValue_bytes ?v)"
    using leveldb_spec.connected_rows(1) [OF assms(1-3), of ?k] tx_rows_lookup [OF assms(4-6)]
    by (simp add: txIndexKey_def)
  ultimately have "ldb_Get L (m_db m1) ?k = Inr (txIndexValue_bytes ?v)"
    using leveldb_spec.get_found [OF assms(1), of "m_db m1" ?k] leveldb_spec.get_absent [OF assms(1), of "m_db m1" ?k] assms(7)
    by (cases "ldb_Get L (m_db m1) ?k") (auto intro: ldb_error.exhaust)
  moreover have "unat (word_of_nat i :: u16) = i" using assms(5,6) by (simp add: unat_of_nat)
  ultimately show ?thesis using assms(5,8) by (simp add: GetTxByHash_def tx_value_roundtrip)
qed

theorem GetTxByHash_connected_witness:
  "\<exists>m1. connectBlock rbt_leveldb ex_txid ex_m ex_block [ex_coin] = Ret m1
    \<and> GetTxByHash rbt_leveldb (Some (\<lambda>_. Some ex_block)) m1 (ex_txid ex_spend) = Inr (Some (ex_spend, 4))"
proof -
  obtain m1 where m: "connectBlock rbt_leveldb ex_txid ex_m ex_block [ex_coin] = Ret m1"
    by (rule rbt_total [OF ex_block_ok])
  have "distinct (map ex_txid (bl_Txs ex_block))" "1 < length (bl_Txs ex_block)" "length (bl_Txs ex_block) \<le> 2 ^ 16"
    by (simp_all add: ex_defs ex_txid_def)
  then have "GetTxByHash rbt_leveldb (Some (\<lambda>_. Some ex_block)) m1 (ex_txid (bl_Txs ex_block ! 1)) =
      Inr (Some (bl_Txs ex_block ! 1, bl_Height ex_block))"
    by (rule GetTxByHash_connected [OF rbt_db.leveldb_spec_axioms TrueI m])
      (simp_all add: rbt_leveldb_def split: option.split)
  then show ?thesis using m by (simp add: ex_block_def)
qed

text \<open>
  Disconnecting a block leaves its rows in the transaction and timestamp tables: right after it, the
  hash of a disconnected transaction still resolves to the height the block had.
\<close>

theorem disconnect_leaves_rows:
  assumes "leveldb_spec L I contents" "I (m_db m)"
    and "connectBlock L txid m block stxos = Ret m1" "disconnectBlock L txid m1 block stxos = Ret m2"
    and "distinct (map txid (bl_Txs block))" "i < length (bl_Txs block)" "length (bl_Txs block) \<le> 2 ^ 16"
  shows "contents (m_db m2) (txIndexKey (txid (bl_Txs block ! i))) =
      Some (txIndexValue_bytes \<lparr>xv_height = bl_Height block, xv_txIndex = word_of_nat i\<rparr>)
    \<and> contents (m_db m2) (TimestampIndexKey_Key
        \<lparr>tk_Timestamp = ucast (bl_Timestamp block), tk_BlockHash = bl_Hash block\<rparr>) = Some (obfuscate m [0])"
proof -
  have I1: "I (m_db m1)" by (rule leveldb_spec.connectBlock_ok [OF assms(1-3)])
  have "contents (m_db m2) k = contents (m_db m1) k" if "hd k \<in> {0x07, DBTimestampIndex}" for k
    using leveldb_spec.disconnected_rows [OF assms(1) I1 assms(4) that] .
  then show ?thesis
    using leveldb_spec.connected_rows(1) [OF assms(1-3), of "txIndexKey (txid (bl_Txs block ! i))"]
      leveldb_spec.connected_rows(2) [OF assms(1-3)] tx_rows_lookup [OF assms(5-7)]
    by (simp add: txIndexKey_def TimestampIndexKey_Key_eq)
qed

theorem disconnect_leaves_rows_witness:
  "\<exists>m1 m2. connectBlock rbt_leveldb ex_txid ex_m ex_block [ex_coin] = Ret m1
    \<and> disconnectBlock rbt_leveldb ex_txid m1 ex_block [ex_coin] = Ret m2
    \<and> RBT.lookup (m_db m2) (txIndexKey (ex_txid ex_spend)) = Some (txIndexValue_bytes \<lparr>xv_height = 4, xv_txIndex = 1\<rparr>)"
proof -
  obtain m1 m2 where m: "connectBlock rbt_leveldb ex_txid ex_m ex_block [ex_coin] = Ret m1"
    "disconnectBlock rbt_leveldb ex_txid m1 ex_block [ex_coin] = Ret m2"
    by (rule rbt_total [OF ex_block_ok])
  have "distinct (map ex_txid (bl_Txs ex_block))" "1 < length (bl_Txs ex_block)" "length (bl_Txs ex_block) \<le> 2 ^ 16"
    by (simp_all add: ex_defs ex_txid_def)
  from disconnect_leaves_rows [OF rbt_db.leveldb_spec_axioms TrueI m this] m
  show ?thesis by (simp add: ex_block_def)
qed






end
