(* ===== verification/Sugar_Query.thy ===== *)
theory Sugar_Query
  imports Sugar_Indexer
begin

text \<open>
  The queries of the sugar index, \<open>sugarindex/rpc.go\<close>: reading the deltas, the coins, the spends and the
  timestamps from the database. A callback or a loop body that stops the iteration, because a row does
  not decode, returns \<open>None\<close> from the row parser here. The conversion between address strings and index
  keys belongs to the address package and is not modelled.
\<close>

section \<open>Rows\<close>

record AddressIndexEntry =
  ae_Type :: u32
  ae_HashBytes :: bytes
  ae_BlockHeight :: i32
  ae_TxIndex :: u32
  ae_TxHash :: hash
  ae_Index :: u32
  ae_Spending :: bool
  ae_Satoshis :: i64

record AddressUnspentEntry =
  ue_Type :: u32
  ue_HashBytes :: bytes
  ue_TxHash :: hash
  ue_Index :: u32
  ue_Satoshis :: i64
  ue_Script :: bytes
  ue_BlockHeight :: i32


definition addressSeekKey :: "byte \<Rightarrow> u32 \<Rightarrow> bytes \<Rightarrow> i32 \<Rightarrow> bytes option" where
  "addressSeekKey pre addrType hashBytes start = do {
     e \<leftarrow> enc_hashIndex hashBytes (enc_u32 addrType (enc_u8 pre []));
     Some (if 0 <s start then enc_i32 start e else e) }"

section \<open>Queries\<close>

text \<open>The body of the callback that \<open>ReadAddressIndex\<close> passes down, up to the call of \<open>cb\<close>.\<close>

definition address_index_row :: "u32 \<Rightarrow> bytes \<Rightarrow> i32 \<Rightarrow> bytes \<Rightarrow> bytes \<Rightarrow> AddressIndexEntry option" where
  "address_index_row addrType hashBytes stop k v = do {
     (_, d) \<leftarrow> dec_u8 \<lparr>d_b = k, d_off = 0\<rparr>;
     (typ, d) \<leftarrow> dec_u32 d;
     (hb, d) \<leftarrow> dec_hash d;
     if typ \<noteq> addrType \<or> take (length hashBytes) hb \<noteq> hashBytes then None
     else do {
       (height, d) \<leftarrow> dec_i32 d;
       if 0 <s stop \<and> stop <s height then None
       else do {
         (txIndex, d) \<leftarrow> dec_u32 d;
         (txHash, d) \<leftarrow> dec_hash d;
         (index, d) \<leftarrow> dec_u32 d;
         (spending, d) \<leftarrow> dec_boolean d;
         if length v < 8 then None
         else Some \<lparr>ae_Type = typ, ae_HashBytes = hb, ae_BlockHeight = height, ae_TxIndex = txIndex,
           ae_TxHash = txHash, ae_Index = index, ae_Spending = spending,
           ae_Satoshis = le_word (take 8 v)\<rparr> } } }"

text \<open>The caller's callback says whether to go on and carries the state \<open>'s\<close>.\<close>

definition ReadAddressIndex ::
  "'db leveldb \<Rightarrow> 'db manager \<Rightarrow> u32 \<Rightarrow> bytes \<Rightarrow> i32 \<Rightarrow> i32 \<Rightarrow>
   (AddressIndexEntry \<Rightarrow> 's \<Rightarrow> bool \<times> 's) \<Rightarrow> 's \<Rightarrow> (index_error, 's) outcome" where
  "ReadAddressIndex L m addrType hashBytes start stop cb s =
    (case addressSeekKey DBAddressIndex addrType hashBytes start of None \<Rightarrow> Panic
     | Some seek \<Rightarrow>
        (case iteratePrefixDeobf L m seek (\<lambda>k v s.
            case address_index_row addrType hashBytes stop k v of None \<Rightarrow> (False, s)
            | Some e \<Rightarrow> cb e s) s of
           Inl err \<Rightarrow> Fail err | Inr s \<Rightarrow> Ret s))"

definition address_unspent_row :: "u32 \<Rightarrow> bytes \<Rightarrow> bytes \<Rightarrow> bytes \<Rightarrow> AddressUnspentEntry option" where
  "address_unspent_row addrType hashBytes k v = do {
     (_, d) \<leftarrow> dec_u8 \<lparr>d_b = k, d_off = 0\<rparr>;
     (typ, d) \<leftarrow> dec_u32 d;
     (hb, d) \<leftarrow> dec_hash d;
     if typ \<noteq> addrType \<or> take (length hashBytes) hb \<noteq> hashBytes then None
     else do {
       (txHash, d) \<leftarrow> dec_hash d;
       (index, d) \<leftarrow> dec_u32 d;
       (satoshis, dv) \<leftarrow> dec_i64 \<lparr>d_b = v, d_off = 0\<rparr>;
       (scr, dv) \<leftarrow> dec_script dv;
       (height, dv) \<leftarrow> dec_i32 dv;
       Some \<lparr>ue_Type = typ, ue_HashBytes = hb, ue_TxHash = txHash, ue_Index = index,
         ue_Satoshis = satoshis, ue_Script = scr, ue_BlockHeight = height\<rparr> } }"

definition ReadAddressUnspent ::
  "'db leveldb \<Rightarrow> 'db manager \<Rightarrow> u32 \<Rightarrow> bytes \<Rightarrow> (index_error, AddressUnspentEntry list) outcome" where
  "ReadAddressUnspent L m addrType hashBytes =
    (case addressSeekKey DBAddressUnspent addrType hashBytes 0 of None \<Rightarrow> Panic
     | Some seek \<Rightarrow>
        (case iteratePrefixDeobf L m seek (\<lambda>k v out.
            case address_unspent_row addrType hashBytes k v of None \<Rightarrow> (False, out)
            | Some e \<Rightarrow> (True, out @ [e])) [] of
           Inl err \<Rightarrow> Fail err | Inr out \<Rightarrow> Ret out))"

definition spent_index_value :: "bytes \<Rightarrow> SpentIndexValue option" where
  "spent_index_value raw = do {
     (txID, d) \<leftarrow> dec_hash \<lparr>d_b = raw, d_off = 0\<rparr>;
     (inputIndex, d) \<leftarrow> dec_u32 d;
     (blockHeight, d) \<leftarrow> dec_i32 d;
     (satoshis, d) \<leftarrow> dec_i64 d;
     (addrType, d) \<leftarrow> dec_i32 d;
     (addrHash, d) \<leftarrow> dec_hash d;
     Some \<lparr>sv_TxID = txID, sv_InputIndex = inputIndex, sv_BlockHeight = blockHeight,
       sv_Satoshis = satoshis, sv_AddressType = addrType, sv_AddressHash = addrHash\<rparr> }"

definition ReadSpentIndex ::
  "'db leveldb \<Rightarrow> 'db manager \<Rightarrow> SpentIndexKey \<Rightarrow> index_error + SpentIndexValue option" where
  "ReadSpentIndex L m key =
    (case getValue L m (SpentIndexKey_Key key) of
       Inl err \<Rightarrow> Inl err
     | Inr None \<Rightarrow> Inr None
     | Inr (Some raw) \<Rightarrow>
        (case spent_index_value raw of None \<Rightarrow> Inl ErrShort | Some v \<Rightarrow> Inr (Some v)))"



section \<open>Rows are read back\<close>

context reader
begin

lemma get_first:
  assumes "ok x" "bs = put x [] @ rest"
  obtains d' where "get \<lparr>d_b = bs, d_off = 0\<rparr> = Some (x, d')" "drop (d_off d') (d_b d') = rest"
  by (rule get_next [OF assms(1), of "\<lparr>d_b = bs, d_off = 0\<rparr>" rest]) (simp_all add: assms(2))

end

lemma encoded_parts:
  "AddressUnspentValue_Encode v = enc_i64 (uv_Satoshis v) [] @ enc_script (uv_Script v) [] @ enc_i32 (uv_BlockHeight v) []"
  unfolding AddressUnspentValue_Encode_def
  by (subst rd_i32.put_append, subst rd_script.put_append) simp

lemma address_unspent_row_read:
  assumes "AddressUnspentKey_Key uk = Some k" "is_hash (uk_TxHash uk)" "script_ok (uv_Script uv)"
    and "uk_HashBytes uk = pad_hash hb" "length hb \<le> 32"
  shows "address_unspent_row (uk_Type uk) hb k (AddressUnspentValue_Encode uv) =
    Some \<lparr>ue_Type = uk_Type uk, ue_HashBytes = pad_hash hb, ue_TxHash = uk_TxHash uk, ue_Index = uk_Index uk,
      ue_Satoshis = uv_Satoshis uv, ue_Script = uv_Script uv, ue_BlockHeight = uv_BlockHeight uv\<rparr>"
proof -
  have len: "length (pad_hash hb) = 32" using assms(5) by (simp add: pad_hash_def)
  then have k: "k = enc_u8 DBAddressUnspent [] @ enc_u32 (uk_Type uk) [] @ enc_hash (pad_hash hb) [] @ enc_hash (uk_TxHash uk) []
      @ enc_u32 (uk_Index uk) []"
    using assms(1,4) by (simp add: AddressUnspentKey_Key_eq pad_hash_def [of "pad_hash hb"] enc_defs split: if_splits)
  obtain d1 where d1: "dec_u8 \<lparr>d_b = k, d_off = 0\<rparr> = Some (DBAddressUnspent, d1)"
    "drop (d_off d1) (d_b d1) = enc_u32 (uk_Type uk) [] @ enc_hash (pad_hash hb) [] @ enc_hash (uk_TxHash uk) []
      @ enc_u32 (uk_Index uk) []"
    by (rule rd_u8.get_first [OF TrueI k])
  obtain d2 where d2: "dec_u32 d1 = Some (uk_Type uk, d2)"
    "drop (d_off d2) (d_b d2) = enc_hash (pad_hash hb) [] @ enc_hash (uk_TxHash uk) [] @ enc_u32 (uk_Index uk) []"
    by (rule rd_u32.get_next [OF TrueI d1(2)])
  obtain d3 where d3: "dec_hash d2 = Some (pad_hash hb, d3)"
    "drop (d_off d3) (d_b d3) = enc_hash (uk_TxHash uk) [] @ enc_u32 (uk_Index uk) []"
    by (rule rd_hash.get_next [OF is_hash_pad d2(2)]) (use assms(5) in auto)
  obtain d4 where d4: "dec_hash d3 = Some (uk_TxHash uk, d4)" "drop (d_off d4) (d_b d4) = enc_u32 (uk_Index uk) [] @ []"
    by (rule rd_hash.get_next [OF assms(2) d3(2)]) simp
  obtain d5 where d5: "dec_u32 d4 = Some (uk_Index uk, d5)"
    by (rule rd_u32.get_next [OF TrueI d4(2)])
  obtain v1 where v1: "dec_i64 \<lparr>d_b = AddressUnspentValue_Encode uv, d_off = 0\<rparr> = Some (uv_Satoshis uv, v1)"
    "drop (d_off v1) (d_b v1) = enc_script (uv_Script uv) [] @ enc_i32 (uv_BlockHeight uv) []"
    by (rule rd_i64.get_first [OF TrueI encoded_parts])
  obtain v2 where v2: "dec_script v1 = Some (uv_Script uv, v2)" "drop (d_off v2) (d_b v2) = enc_i32 (uv_BlockHeight uv) [] @ []"
    by (rule rd_script.get_next [OF assms(3) v1(2)]) simp
  obtain v3 where v3: "dec_i32 v2 = Some (uv_BlockHeight uv, v3)"
    by (rule rd_i32.get_next [OF TrueI v2(2)])
  show ?thesis
    by (simp add: address_unspent_row_def d1 d2 d3 d4 d5 v1 v2 v3) (simp add: pad_hash_def)
qed

lemma iter_entries_collect:
  assumes "\<forall>kv \<in> set kvs. row (fst kv) (snd kv) = Some (f kv)"
  shows "iter_entries (\<lambda>k v out. case row k v of None \<Rightarrow> (False, out) | Some e \<Rightarrow> (True, out @ [e])) kvs out = out @ map f kvs"
  using assms by (induction kvs arbitrary: out) simp_all

lemma addressSeekKey_eq:
  "addressSeekKey pre t hb start = (if length hb \<le> 32 then
     Some (pre # le_bytes 4 t @ pad_hash hb @ (if 0 <s start then le_bytes 4 start else [])) else None)"
  by (simp add: addressSeekKey_def enc_hashIndex_def enc_defs pad_hash_def)

section \<open>The rows of the unspent table\<close>

text \<open>
  Every row of the unspent table is one the indexer writes: its key has a full transaction hash and its
  script is short enough to be read back.
\<close>

definition unspent_row :: "'db manager \<Rightarrow> bytes \<Rightarrow> bytes \<Rightarrow> bool" where
  "unspent_row m k v \<longleftrightarrow> (\<exists>uk uv. AddressUnspentKey_Key uk = Some k \<and> is_hash (uk_HashBytes uk) \<and> is_hash (uk_TxHash uk)
     \<and> script_ok (uv_Script uv) \<and> v = obfuscate m (AddressUnspentValue_Encode uv))"

definition unspent_wf :: "'db manager \<Rightarrow> (bytes \<rightharpoonup> bytes) \<Rightarrow> bool" where
  "unspent_wf m c \<longleftrightarrow> (\<forall>k v. hd k = DBAddressUnspent \<and> c k = Some v \<longrightarrow> k \<noteq> [] \<longrightarrow> unspent_row m k v)"

definition coin_key :: "AddressUnspentEntry \<Rightarrow> AddressUnspentKey" where
  "coin_key e = \<lparr>uk_Type = ue_Type e, uk_HashBytes = ue_HashBytes e, uk_TxHash = ue_TxHash e, uk_Index = ue_Index e\<rparr>"

definition coin_value :: "AddressUnspentEntry \<Rightarrow> AddressUnspentValue" where
  "coin_value e = \<lparr>uv_Satoshis = ue_Satoshis e, uv_Script = ue_Script e, uv_BlockHeight = ue_BlockHeight e\<rparr>"

text \<open>A coin that the unspent table of an address holds.\<close>

definition coin_of :: "'db manager \<Rightarrow> (bytes \<rightharpoonup> bytes) \<Rightarrow> u32 \<Rightarrow> bytes \<Rightarrow> AddressUnspentEntry \<Rightarrow> bool" where
  "coin_of m c addrType hashBytes e \<longleftrightarrow> ue_Type e = addrType \<and> ue_HashBytes e = pad_hash hashBytes
     \<and> is_hash (ue_TxHash e) \<and> script_ok (ue_Script e)
     \<and> (\<exists>k. AddressUnspentKey_Key (coin_key e) = Some k
          \<and> c k = Some (obfuscate m (AddressUnspentValue_Encode (coin_value e))))"

lemma AddressUnspentKey_pad:
  "length hb \<le> 32 \<Longrightarrow> AddressUnspentKey_Key \<lparr>uk_Type = t, uk_HashBytes = pad_hash hb, uk_TxHash = h, uk_Index = i\<rparr> =
    AddressUnspentKey_Key \<lparr>uk_Type = t, uk_HashBytes = hb, uk_TxHash = h, uk_Index = i\<rparr>"
  by (simp add: AddressUnspentKey_Key_eq) (simp add: pad_hash_def)

lemma obfuscate_twice [simp]: "deobfuscate m (obfuscate m v) = v"
  by (simp add: deobfuscate_def obfuscate_def)

context leveldb_spec
begin

lemma ReadAddressUnspent_coins:
  assumes "inv (m_db m)" "unspent_wf m (contents (m_db m))" "ReadAddressUnspent L m t hb = Ret out"
  shows "e \<in> set out \<longleftrightarrow> coin_of m (contents (m_db m)) t hb e"
proof -
  let ?c = "contents (m_db m)" and ?p = "DBAddressUnspent # le_bytes 4 t @ pad_hash hb"
  have len: "length hb \<le> 32" using assms(3) by (auto simp: ReadAddressUnspent_def addressSeekKey_eq split: if_splits)
  then have pl: "length (pad_hash hb) = 32" by (simp add: pad_hash_def)
  obtain kvs where it: "ldb_Iterate L (m_db m) ?p (prefixSuccessor ?p) = (kvs, None)"
    and out: "out = iter_entries (\<lambda>k v out. case address_unspent_row t hb k (deobfuscate m v) of
         None \<Rightarrow> (False, out) | Some e \<Rightarrow> (True, out @ [e])) kvs []"
    using assms(3) len
    by (auto simp: ReadAddressUnspent_def addressSeekKey_eq iteratePrefixDeobf_def iteratePrefix_def Let_def
        split: sum.splits prod.splits option.splits)
  have kvs: "(k, v) \<in> set kvs \<longleftrightarrow> ?c k = Some v \<and> prefix ?p k" for k v
    using iterate_ok [OF assms(1) it] by (simp add: in_range_prefixSuccessor)
  define row where "row kv = the (address_unspent_row t hb (fst kv) (deobfuscate m (snd kv)))" for kv
  have R: "\<exists>e. address_unspent_row t hb k (deobfuscate m v) = Some e \<and> ue_Type e = t \<and> ue_HashBytes e = pad_hash hb
      \<and> is_hash (ue_TxHash e) \<and> script_ok (ue_Script e) \<and> AddressUnspentKey_Key (coin_key e) = Some k
      \<and> v = obfuscate m (AddressUnspentValue_Encode (coin_value e))" if "(k, v) \<in> set kvs" for k v
  proof -
    have k: "?c k = Some v" "prefix ?p k" using that kvs by auto
    then have "hd k = DBAddressUnspent" "k \<noteq> []" by (auto simp: prefix_def)
    then have "unspent_row m k v" using assms(2) k(1) by (simp add: unspent_wf_def)
    then obtain uk uv where u: "AddressUnspentKey_Key uk = Some k" "is_hash (uk_HashBytes uk)" "is_hash (uk_TxHash uk)"
        "script_ok (uv_Script uv)" "v = obfuscate m (AddressUnspentValue_Encode uv)"
      unfolding unspent_row_def by blast
    have "pad_hash (uk_HashBytes uk) = uk_HashBytes uk" using u(2) by (simp add: pad_hash_def is_hash_def)
    then have e: "uk_Type uk = t" "uk_HashBytes uk = pad_hash hb"
      using k(2) u(1,2) pl
      by (auto simp: AddressUnspentKey_Key_eq is_hash_def prefix_def append_eq_append_conv_if split: if_splits)
    show ?thesis
      using address_unspent_row_read [OF u(1,3,4) e(2) len] u e
      by (cases uk; cases uv) (simp add: coin_key_def coin_value_def)
  qed
  have *: "out = map row kvs"
    unfolding out by (subst iter_entries_collect [where f = row]) (use R in \<open>fastforce simp: row_def\<close>)+
  show ?thesis
  proof
    assume "e \<in> set out"
    then obtain k v where "(k, v) \<in> set kvs" "e = row (k, v)" using * by auto
    then show "coin_of m ?c t hb e" using R [of k v] kvs by (auto simp: row_def coin_of_def)
  next
    assume c: "coin_of m ?c t hb e"
    then obtain k where k: "AddressUnspentKey_Key (coin_key e) = Some k"
        "?c k = Some (obfuscate m (AddressUnspentValue_Encode (coin_value e)))" by (auto simp: coin_of_def)
    have "prefix ?p k"
      using k(1) c pl by (auto simp: coin_of_def coin_key_def AddressUnspentKey_Key_eq pad_hash_def [of "pad_hash hb"] split: if_splits)
    then have "(k, obfuscate m (AddressUnspentValue_Encode (coin_value e))) \<in> set kvs" using kvs k(2) by blast
    moreover have "address_unspent_row t hb k (AddressUnspentValue_Encode (coin_value e)) = Some e"
      using address_unspent_row_read [OF k(1), of "coin_value e" hb] c len
      by (simp add: coin_of_def coin_key_def coin_value_def)
    ultimately show "e \<in> set out" unfolding * by (force simp: row_def)
  qed
qed

end

section \<open>The indexer keeps the rows well-formed\<close>

lemma ExtractIndexInfo_short:
  "ExtractIndexInfo s = (t, hb) \<Longrightarrow> t \<noteq> AddrIndtUnknown \<Longrightarrow> script_ok s"
  using ExtractIndexInfo_bounds [of s t hb] by (simp add: script_ok_def)

definition entry_ok :: "addrUnspentEntry \<Rightarrow> bool" where
  "entry_ok u \<longleftrightarrow> au_isNull u \<or> script_ok (au_script u) \<and>
     (\<exists>uk. AddressUnspentKey_Key uk = Some (au_key u) \<and> is_hash (uk_HashBytes uk) \<and> is_hash (uk_TxHash uk))"

definition deltas_ok :: "blockDeltas \<Rightarrow> bool" where
  "deltas_ok bd \<longleftrightarrow> list_all entry_ok (bd_addressUnspent bd)"

lemma key_padded:
  assumes "AddressUnspentKey_Key \<lparr>uk_Type = t, uk_HashBytes = hb, uk_TxHash = h, uk_Index = i\<rparr> = Some k" "is_hash h"
  shows "\<exists>uk. AddressUnspentKey_Key uk = Some k \<and> is_hash (uk_HashBytes uk) \<and> is_hash (uk_TxHash uk)"
proof -
  have "length hb \<le> 32" using assms(1) by (simp add: AddressUnspentKey_Key_eq split: if_splits)
  then show ?thesis
    using assms AddressUnspentKey_pad [of hb t h i] is_hash_pad [of hb]
    by (intro exI [of _ "\<lparr>uk_Type = t, uk_HashBytes = pad_hash hb, uk_TxHash = h, uk_Index = i\<rparr>"]) simp
qed

definition keeps_ok :: "(blockDeltas \<Rightarrow> blockDeltas option) \<Rightarrow> bool" where
  "keeps_ok f \<longleftrightarrow> (\<forall>bd bd'. deltas_ok bd \<longrightarrow> f bd = Some bd' \<longrightarrow> deltas_ok bd')"

lemma keeps_okD: "keeps_ok f \<Longrightarrow> deltas_ok bd \<Longrightarrow> f bd = Some bd' \<Longrightarrow> deltas_ok bd'"
  by (simp add: keeps_ok_def)

lemma accumulate_ok:
  "is_hash h \<Longrightarrow> keeps_ok (addReceived h ht i out v)"
  "keeps_ok (undoReceived h ht i out v)"
  "keeps_ok (addSpent h ht i txin stxo v)"
  "is_hash (ti_Hash txin) \<Longrightarrow> keeps_ok (undoSpent h ht i txin stxo v)"
  by (auto simp: keeps_ok_def addReceived_def undoReceived_def addSpent_def undoSpent_def pushAddrIndex_def deltas_ok_def
      entry_ok_def Option.bind_eq_Some_conv Let_def intro: ExtractIndexInfo_short key_padded split: prod.splits if_splits)

lemma for_inputs_ok:
  assumes "\<forall>txin \<in> set ins. \<forall>s v. keeps_ok (spend txin s v)"
    and "deltas_ok bd" "for_inputs spend stxos ins v si bd = Some (bd', si')"
  shows "deltas_ok bd'"
  using assms
proof (induction ins arbitrary: v si bd)
  case (Cons i ins)
  obtain b1 where b1: "spend i (stxos ! si) (word_of_nat v) bd = Some b1"
      "for_inputs spend stxos ins (v + 1) (si + 1) b1 = Some (bd', si')"
    using Cons.prems(3) by (auto simp: Option.bind_eq_Some_conv split: if_splits)
  have "deltas_ok b1" using Cons.prems(1,2) b1(1) by (auto intro: keeps_okD)
  moreover have "\<forall>txin \<in> set ins. \<forall>s v. keeps_ok (spend txin s v)"
    using Cons.prems(1) by simp
  ultimately show ?case using Cons.IH b1(2) by blast
qed simp

lemma tx_inputs_ok:
  assumes "\<forall>txin \<in> set (mt_TxIn tx). \<forall>s v. keeps_ok (spend txin s v)"
    and "deltas_ok bd" "tx_inputs spend stxos tx i si bd = Some (bd', si')"
  shows "deltas_ok bd'"
  using assms(2,3) for_inputs_ok [OF assms(1,2)] by (auto simp: tx_inputs_def split: if_splits)

lemma for_outputs_ok:
  assumes "\<forall>out v. keeps_ok (receive out v)"
    and "deltas_ok bd" "for_outputs receive outs v bd = Some bd'"
  shows "deltas_ok bd'"
  using assms(2,3)
proof (induction outs arbitrary: v bd)
  case (Cons out outs)
  obtain b1 where "receive out (word_of_nat v) bd = Some b1" "for_outputs receive outs (v + 1) b1 = Some bd'"
    using Cons.prems(2) by (auto simp: Option.bind_eq_Some_conv)
  then show ?case using assms(1) Cons.prems(1) Cons.IH keeps_okD by blast
qed simp

lemma connect_txs_ok:
  assumes "\<And>tx. is_hash (txid tx)"
  shows "deltas_ok bd \<Longrightarrow> connect_txs txid ht stxos txs i si bd b = Some (bd', b') \<Longrightarrow> deltas_ok bd'"
proof (induction txs arbitrary: i si bd b)
  case (Cons tx txs)
  let ?w = "word_of_nat i :: u32"
  obtain b2 si2 b3 b4 where
    I: "tx_inputs (addSpent (txid tx) ht ?w) stxos tx i si bd = Some (b2, si2)" and
    O: "for_outputs (addReceived (txid tx) ht ?w) (mt_TxOut tx) 0 b2 = Some b3" and
    R: "connect_txs txid ht stxos txs (i + 1) si2 b3 b4 = Some (bd', b')"
    using Cons.prems(2) by (auto simp: Let_def Option.bind_eq_Some_conv)
  have "deltas_ok b2" by (rule tx_inputs_ok [OF _ Cons.prems(1) I]) (simp add: accumulate_ok(3))
  then have "deltas_ok b3" by (intro for_outputs_ok [OF _ _ O]) (simp_all add: assms accumulate_ok(1))
  then show ?case using Cons.IH R by blast
qed auto

definition block_hashes :: "Block \<Rightarrow> bool" where
  "block_hashes block \<longleftrightarrow> list_all (\<lambda>tx. list_all (\<lambda>i. is_hash (ti_Hash i)) (mt_TxIn tx)) (bl_Txs block)"

lemma disconnect_txs_ok:
  "list_all (\<lambda>tx. list_all (\<lambda>i. is_hash (ti_Hash i)) (mt_TxIn tx)) txs \<Longrightarrow> deltas_ok bd \<Longrightarrow>
   disconnect_txs txid ht stxos txs i si bd = Some bd' \<Longrightarrow> deltas_ok bd'"
proof (induction txs arbitrary: i si bd)
  case (Cons tx txs)
  let ?w = "word_of_nat i :: u32"
  obtain b2 si2 b3 where
    I: "tx_inputs (undoSpent (txid tx) ht ?w) stxos tx i si bd = Some (b2, si2)" and
    O: "for_outputs (undoReceived (txid tx) ht ?w) (mt_TxOut tx) 0 b2 = Some b3" and
    R: "disconnect_txs txid ht stxos txs (i + 1) si2 b3 = Some bd'"
    using Cons.prems(3) by (auto simp: Let_def Option.bind_eq_Some_conv)
  have "deltas_ok b2"
    using Cons.prems(1) accumulate_ok(4) by (intro tx_inputs_ok [OF _ Cons.prems(2) I]) (auto simp: list_all_iff)
  then have "deltas_ok b3" by (intro for_outputs_ok [OF _ _ O]) (simp_all add: accumulate_ok(2))
  then show ?case using Cons.IH R Cons.prems(1) by simp
qed simp

definition batch_ok :: "'db manager \<Rightarrow> batch \<Rightarrow> bool" where
  "batch_ok m b \<longleftrightarrow> (\<forall>op \<in> set b.
     hd (op_key op) \<noteq> DBAddressUnspent \<or> (\<exists>u. entry_ok u \<and> op = unspent_op m u))"

lemma batch_ok_append [simp]: "batch_ok m (b @ b') \<longleftrightarrow> batch_ok m b \<and> batch_ok m b'"
  by (auto simp: batch_ok_def)

lemma batch_ok_Nil [simp]: "batch_ok m []" by (simp add: batch_ok_def)

lemma unspent_wf_batch: "unspent_wf m c \<Longrightarrow> batch_ok m b \<Longrightarrow> unspent_wf m (apply_batch b c)"
proof (induction b rule: rev_induct)
  case (snoc op b)
  then have wf: "unspent_wf m (apply_batch b c)" by simp
  show ?case
  proof (cases "hd (op_key op) = DBAddressUnspent")
    case False
    then show ?thesis using wf by (auto simp: unspent_wf_def apply_op_eq)
  next
    case True
    then obtain u where u: "entry_ok u" "op = unspent_op m u" using snoc.prems by (auto simp: batch_ok_def)
    then have "op_value op = Some v \<Longrightarrow> unspent_row m (op_key op) v" for v
      by (auto simp: entry_ok_def unspent_op_def unspent_row_def addrUnspentEntry_encode_def split: if_splits)
        (metis AddressUnspentValue.select_convs(2))
    then show ?thesis using wf by (auto simp: unspent_wf_def apply_op_eq)
  qed
qed simp

lemma batch_ok_tip: "batch_ok m (storeIndexTip m h ht b) \<longleftrightarrow> batch_ok m b"
  using hd_indexTipKey by (simp add: storeIndexTip_def putObfuscated_def batch_ok_def)

lemma connect_batch_ok:
  assumes "connectBlockBatch txid m block stxos b = Some b1" "\<And>tx. is_hash (txid tx)"
  shows "batch_ok m b \<Longrightarrow> batch_ok m b1"
proof -
  obtain bd b2 b3 where C: "connect_txs txid (bl_Height block) stxos (bl_Txs block) 0 0 newBlockDeltas b = Some (bd, b2)"
    and S: "put_spentIndex m (bd_spentIndex bd) (put_addressUnspent m (bd_addressUnspent bd)
       (put_addressIndex m (bd_addressIndex bd) b2)) = Some b3"
    and b1: "b1 = putObfuscated m (TimestampIndexKey_Key
       \<lparr>tk_Timestamp = ucast (bl_Timestamp block), tk_BlockHash = bl_Hash block\<rparr>) [0] b3"
    using assms(1) by (auto simp: connectBlockBatch_def Let_def Option.bind_eq_Some_conv)
  have K: "bd_keys bd" using mirror_txs [OF mirror_new C] by (auto simp: mirror_def)
  have "deltas_ok bd" by (rule connect_txs_ok [OF assms(2) _ C]) (simp add: deltas_ok_def newBlockDeltas_def)
  have "\<forall>s \<in> set (bd_spentIndex bd). hd (se_key s) \<noteq> DBAddressUnspent"
    "\<forall>e \<in> set (bd_addressIndex bd). hd (ai_key e) \<noteq> DBAddressUnspent"
    "\<forall>u \<in> set (bd_addressUnspent bd). entry_ok u"
    using K \<open>deltas_ok bd\<close> by (simp_all add: bd_keys_def list_all_iff deltas_ok_def)
  moreover obtain sops where s: "b3 = put_addressUnspent m (bd_addressUnspent bd) (put_addressIndex m (bd_addressIndex bd) b2) @ sops"
    "map op_key sops = map se_key (bd_spentIndex bd)"
    using put_spentIndex_Some [OF S] by blast
  moreover have "\<forall>op \<in> set (map (tx_row txid (bl_Height block)) (enumerate 0 (bl_Txs block))). hd (op_key op) \<noteq> DBAddressUnspent"
    by (auto simp: tx_row_def txIndexKey_def)
  moreover have "op_key ` set sops = se_key ` set (bd_spentIndex bd)" using s(2) by (metis list.set_map)
  then have "\<forall>op \<in> set sops. hd (op_key op) \<noteq> DBAddressUnspent" using calculation(1) by (metis imageE image_eqI)
  ultimately show "batch_ok m b1" if "batch_ok m b"
    using that connect_txs_rows [OF C]
    by (auto simp: b1 s(1) put_addressUnspent_eq put_addressIndex_eq putObfuscated_def batch_ok_def TimestampIndexKey_Key_eq)
qed

lemma disconnect_batch_ok:
  assumes "disconnect_txs txid (bl_Height block) stxos (bl_Txs block) 0 0 newBlockDeltas = Some bd" "block_hashes block"
  shows "batch_ok m (disconnect_batch m block bd)"
proof -
  have "deltas_ok bd"
    by (rule disconnect_txs_ok [OF _ _ assms(1)]) (use assms(2) in \<open>simp_all add: block_hashes_def deltas_ok_def newBlockDeltas_def\<close>)
  moreover obtain bd0 b0 where "connect_txs txid (bl_Height block) stxos (bl_Txs block) 0 0 newBlockDeltas [] = Some (bd0, b0)"
    using connect_txs_None [of txid _ stxos _ 0 0] disconnect_txs_None [of txid _ stxos _ 0 0] assms(1)
    by (metis not_None_eq surj_pair)
  then have "mirror bd0 bd" using mirror_txs [OF mirror_new] assms(1) by fastforce
  then have "\<forall>e \<in> set (bd_addressErase bd). hd (ai_key e) \<noteq> DBAddressUnspent"
    by (simp add: mirror_def bd_keys_def list_all_iff)
  ultimately show ?thesis
    using hd_indexTipKey by (auto simp: disconnect_batch_def batch_ok_def deltas_ok_def list_all_iff SpentIndexKey_Key_eq)
qed

lemma unspent_wf_key:
  assumes "m_key m' = m_key m"
  shows "unspent_wf m' = unspent_wf m" "batch_ok m' = batch_ok m"
  using assms by (simp_all add: fun_eq_iff unspent_wf_def unspent_row_def obfuscate_def batch_ok_def unspent_op_def)

definition index_ok :: "('db \<Rightarrow> bool) \<Rightarrow> ('db \<Rightarrow> bytes \<rightharpoonup> bytes) \<Rightarrow> 'db manager \<Rightarrow> bool" where
  "index_ok I contents m \<longleftrightarrow> I (m_db m) \<and> unspent_wf m (contents (m_db m))"

context leveldb_spec
begin

lemma write_good:
  assumes "index_ok inv contents m" "batch_ok m b" "write_batch L m b = Ret m'"
  shows "index_ok inv contents m' \<and> m_key m' = m_key m"
proof -
  have "inv (m_db m)" "unspent_wf m (contents (m_db m))" using assms(1) by (simp_all add: index_ok_def)
  then show ?thesis
    using write_batch_ok [OF _ assms(3)] unspent_wf_batch [OF _ assms(2)] unspent_wf_key(1) [of m' m]
    by (simp add: index_ok_def)
qed

lemma connect_good:
  assumes "index_ok inv contents m" "\<And>tx. is_hash (txid tx)" "connectBlock L txid m block stxos = Ret m'"
  shows "index_ok inv contents m'"
proof -
  obtain b where b: "connectBlockBatch txid m block stxos [] = Some b"
     and w: "write_batch L m (storeIndexTip m (bl_Hash block) (bl_Height block) b) = Ret m'"
    using assms(3) by (auto simp: connectBlock_def split: option.splits)
  have "batch_ok m (storeIndexTip m (bl_Hash block) (bl_Height block) b)"
    using connect_batch_ok [OF b assms(2)] by (simp add: batch_ok_tip)
  then show ?thesis using write_good [OF assms(1) _ w] by simp
qed

lemma disconnect_good:
  assumes "index_ok inv contents m" "block_hashes block" "disconnectBlock L txid m block stxos = Ret m'"
  shows "index_ok inv contents m'"
proof -
  obtain bd where d: "disconnect_txs txid (bl_Height block) stxos (bl_Txs block) 0 0 newBlockDeltas = Some bd"
     and w: "write_batch L m (disconnect_batch m block bd) = Ret m'"
    using assms(3) by (auto simp: disconnectBlock_eq split: option.splits)
  show ?thesis using write_good [OF assms(1) disconnect_batch_ok [OF d assms(2)] w] by simp
qed

lemma wipe_good:
  assumes "index_ok inv contents m" "wipeIndex L m = Ret m'"
  shows "index_ok inv contents m'"
proof -
  obtain kvs m1 b where "ldb_Iterate L (m_db m) [] None = (kvs, None)" and W: "wipe_loop L (map fst kvs) m [] 0 = Ret (m1, b)" "write_batch L m1 (b @ [BDelete indexTipKey]) = Ret m'"
    using assms(2) by (auto simp: wipeIndex_def obind_Ret_iff split: prod.splits option.splits)
  have "inv (m_db m1)" "m_key m1 = m_key m" using wipe_loop_ok [OF _ W(1)] assms(1) by (auto simp: index_ok_def)
  then have "inv (m_db m')" "m_key m' = m_key m" using write_batch_ok [OF _ W(2)] by auto
  moreover have "contents (m_db m') k = None" if "hd k = DBAddressUnspent" "k \<noteq> []" for k
    using wipeIndex_ok [OF _ assms(2), of k] assms(1) that by (simp add: index_ok_def index_prefixes_def)
  then have "unspent_wf m' (contents (m_db m'))" unfolding unspent_wf_def by (metis option.distinct(1))
  ultimately show ?thesis by (simp add: index_ok_def)
qed

end

text \<open>The catch-up keeps the rows well-formed, in the database and in the batch that is not yet written.\<close>

definition rebuild_ok :: "('db \<Rightarrow> bool) \<Rightarrow> ('db \<Rightarrow> bytes \<rightharpoonup> bytes) \<Rightarrow> 'db rebuild \<Rightarrow> bool" where
  "rebuild_ok I contents st \<longleftrightarrow> index_ok I contents (rb_m st) \<and> batch_ok (rb_m st) (rb_batch st)"

context leveldb_spec
begin

lemma rb_index_good:
  assumes "rebuild_ok inv contents st" "\<And>tx. is_hash (txid tx)" "rb_index L txid best blk stx st = Ret st'"
  shows "rebuild_ok inv contents st'"
proof -
  obtain b where b: "connectBlockBatch txid (rb_m st) blk stx (rb_batch st) = Some b"
    using assms(3) by (auto simp: rb_index_def split: option.splits)
  have bk: "batch_ok (rb_m st) b" using connect_batch_ok [OF b assms(2)] assms(1) by (simp add: rebuild_ok_def)
  show ?thesis
  proof (cases "rb_batched st + 1 \<ge> rebuildBatchBlocks \<or> rb_next st = best")
    case True
    then obtain m where w: "write_batch L (rb_m st) (storeIndexTip (rb_m st) (bl_Hash blk) (word_of_int (rb_next st)) b) = Ret m"
      and st': "st' = st\<lparr>rb_m := m, rb_batch := [], rb_batched := 0\<rparr>"
      using assms(3) b by (auto simp: rb_index_def obind_Ret_iff)
    show ?thesis
      using write_good [OF _ _ w] bk assms(1) by (simp add: st' rebuild_ok_def batch_ok_tip)
  next
    case False
    then have "st' = st\<lparr>rb_batch := b, rb_batched := rb_batched st + 1\<rparr>"
      using assms(3) b by (simp add: rb_index_def split: if_splits)
    then show ?thesis using bk assms(1) by (simp add: rebuild_ok_def)
  qed
qed

lemma rebuild_ok_frame:
  "rb_m st' = rb_m st \<Longrightarrow> rb_batch st' = rb_batch st \<Longrightarrow> rebuild_ok inv contents st' = rebuild_ok inv contents st"
  by (simp add: rebuild_ok_def)

lemma rb_consume_good:
  assumes "\<And>tx. is_hash (txid tx)"
  shows "rebuild_ok inv contents st \<Longrightarrow> rb_consume L txid best st = Ret st' \<Longrightarrow> rebuild_ok inv contents st'"
proof (induction "fcard (fmdom (rb_pending st))" arbitrary: st rule: less_induct)
  case less
  have skip: "rebuild_ok inv contents (rb_skip s) = rebuild_ok inv contents s" for s
    by (rule rebuild_ok_frame) (simp_all add: rb_skip_def)
  show ?case
  proof (cases "fmlookup (rb_pending st) (rb_next st)")
    case None
    then show ?thesis using less.prems by (simp add: rb_consume.simps [of _ _ _ st])
  next
    case (Some r)
    note IH = less.hyps [OF rb_skip_smaller]
    show ?thesis
    proof (cases r)
      case (FetchFailed e)
      then have "rb_consume L txid best (rb_skip st) = Ret st'"
        using less.prems(2) Some by (simp add: rb_consume.simps [of _ _ _ st] split: if_splits)
      then show ?thesis using less.hyps [OF rb_skip_smaller [OF Some]] less.prems(1) skip by blast
    next
      case (Fetched blk stx)
      then obtain s where s: "rb_index L txid best blk stx st = Ret s"
        and c: "rb_consume L txid best (rb_skip (s\<lparr>rb_pending := rb_pending st, rb_next := rb_next st\<rparr>)) = Ret st'"
        using less.prems(2) Some by (auto simp: rb_consume.simps [of _ _ _ st] split: outcome.splits)
      let ?s = "s\<lparr>rb_pending := rb_pending st, rb_next := rb_next st\<rparr>"
      have "rebuild_ok inv contents s" by (rule rb_index_good [OF less.prems(1) assms s])
      then have "rebuild_ok inv contents (rb_skip ?s)" by (simp add: skip rebuild_ok_frame [of ?s s])
      moreover have "fcard (fmdom (rb_pending (rb_skip ?s))) < fcard (fmdom (rb_pending st))"
        using rb_skip_smaller [of ?s r] Some by simp
      ultimately show ?thesis using less.hyps c by blast
    qed
  qed
qed

lemma rb_results_good:
  assumes "\<And>tx. is_hash (txid tx)"
  shows "rebuild_ok inv contents st \<Longrightarrow> rb_results L txid best rs st = Ret st' \<Longrightarrow> rebuild_ok inv contents st'"
proof (induction rs arbitrary: st)
  case (Cons r rs)
  then obtain s where c: "rb_consume L txid best (st\<lparr>rb_pending := fmupd (fst r) (snd r) (rb_pending st)\<rparr>) = Ret s"
    and r: "rb_results L txid best rs s = Ret st'" by (auto simp: obind_Ret_iff)
  have "rebuild_ok inv contents (st\<lparr>rb_pending := fmupd (fst r) (snd r) (rb_pending st)\<rparr>)"
    using Cons.prems(1) by (simp add: rebuild_ok_def)
  then have "rebuild_ok inv contents s" by (rule rb_consume_good [OF assms _ c])
  then show ?case by (rule Cons.IH [OF _ r])
qed simp

lemma Init_good:
  assumes "index_ok inv contents m" "\<And>tx. is_hash (txid tx)"
    and "Init L txid mainHash best results interrupted m = Ret m'"
  shows "index_ok inv contents m'"
proof -
  let ?tip = "\<lambda>h t. case h of None \<Rightarrow> Ret (m, t) | Some h \<Rightarrow> (case mainHash t of
                 Some mh \<Rightarrow> if mh \<noteq> h then obind (wipeIndex L m) (\<lambda>m. Ret (m, - 1)) else Ret (m, t)
               | None \<Rightarrow> Ret (m, t))"
  let ?rest = "\<lambda>m1 t1. if sint t1 \<ge> best then Ret m1
        else obind (rb_results L txid best (results (sint t1 + 1)) (rb_start m1 (sint t1 + 1)))
        (\<lambda>st. if interrupted then Fail ErrInterrupt else Ret (rb_m st))"
  obtain h t where "obind (?tip h t) (\<lambda>(m, t). ?rest m t) = Ret m'"
    using assms(3) unfolding Init_def obind_Ret_iff [of "fetchIndexTip L m"] by (auto simp only: split_paired_Ex prod.case)
  then obtain m1 t1 where 2: "?tip h t = Ret (m1, t1)" and 3: "?rest m1 t1 = Ret m'"
    unfolding obind_Ret_iff [of "?tip h t"] by (auto simp only: split_paired_Ex prod.case)
  have m1: "index_ok inv contents m1"
    using 2 assms(1) wipe_good by (auto simp: obind_Ret_iff split: option.splits if_splits)
  show ?thesis
  proof (cases "sint t1 \<ge> best")
    case True
    then show ?thesis using 3 m1 by simp
  next
    case False
    then obtain st where st: "rb_results L txid best (results (sint t1 + 1)) (rb_start m1 (sint t1 + 1)) = Ret st"
      "m' = rb_m st"
      using 3 by (auto simp: obind_Ret_iff split: if_splits)
    have "rebuild_ok inv contents (rb_start m1 (sint t1 + 1))" using m1 by (simp add: rebuild_ok_def rb_start_def)
    from rb_results_good [OF assms(2) this st(1)] st(2) show ?thesis by (simp add: rebuild_ok_def)
  qed
qed

end

section \<open>Runs of the indexer\<close>

text \<open>
  The steps that change the index: the chain connects or disconnects a block, or \<open>Init\<close> catches up.
\<close>

inductive index_step :: "'db leveldb \<Rightarrow> (MsgTx \<Rightarrow> hash) \<Rightarrow> 'db manager \<Rightarrow> 'db manager \<Rightarrow> bool" for L txid where
  step_connect: "connectBlock L txid m block stxos = Ret m' \<Longrightarrow> index_step L txid m m'"
| step_disconnect: "block_hashes block \<Longrightarrow> disconnectBlock L txid m block stxos = Ret m' \<Longrightarrow> index_step L txid m m'"
| step_init: "Init L txid mainHash best results interrupted m = Ret m' \<Longrightarrow> index_step L txid m m'"

inductive index_run :: "'db leveldb \<Rightarrow> (MsgTx \<Rightarrow> hash) \<Rightarrow> 'db manager \<Rightarrow> 'db manager \<Rightarrow> bool" for L txid where
  run_start: "index_run L txid m m"
| run_step: "index_run L txid m0 m \<Longrightarrow> index_step L txid m m' \<Longrightarrow> index_run L txid m0 m'"

context leveldb_spec
begin

lemma index_step_good:
  assumes "index_step L txid m m'" "\<And>tx. is_hash (txid tx)" "index_ok inv contents m"
  shows "index_ok inv contents m'"
  using assms(1)
proof cases
  case (step_connect block stxos)
  then show ?thesis by (rule connect_good [OF assms(3,2)])
next
  case (step_disconnect block stxos)
  then show ?thesis by (rule disconnect_good [OF assms(3)])
next
  case (step_init mainHash best results interrupted)
  then show ?thesis by (rule Init_good [OF assms(3,2)])
qed

lemma index_run_good:
  "index_run L txid m0 m \<Longrightarrow> (\<And>tx. is_hash (txid tx)) \<Longrightarrow> index_ok inv contents m0 \<Longrightarrow> index_ok inv contents m"
proof (induction rule: index_run.induct)
  case (run_step m0 m m')
  have "index_ok inv contents m" by (rule run_step.IH [OF run_step.prems])
  then show ?case by (rule index_step_good [OF run_step.hyps(2) run_step.prems(1)])
qed

end

section \<open>Spent and timestamp rows\<close>

lemma spent_value_read:
  assumes "SpentIndexValue_Encode v = Some raw" "is_hash (sv_TxID v)"
  shows "spent_index_value raw = Some (v\<lparr>sv_AddressHash := pad_hash (sv_AddressHash v)\<rparr>)"
proof -
  let ?hb = "pad_hash (sv_AddressHash v)"
  have len: "length (sv_AddressHash v) \<le> 32"
    using assms(1) by (simp add: SpentIndexValue_Encode_def enc_hashIndex_def split: if_splits)
  have raw: "raw = enc_hash (sv_TxID v) [] @ enc_u32 (sv_InputIndex v) [] @ enc_i32 (sv_BlockHeight v) []
      @ enc_i64 (sv_Satoshis v) [] @ enc_i32 (sv_AddressType v) [] @ enc_hash ?hb []"
    using assms(1) len by (simp add: SpentIndexValue_Encode_def enc_hashIndex_def enc_defs pad_hash_def)
  obtain d1 where d1: "dec_hash \<lparr>d_b = raw, d_off = 0\<rparr> = Some (sv_TxID v, d1)"
    "drop (d_off d1) (d_b d1) = enc_u32 (sv_InputIndex v) [] @ enc_i32 (sv_BlockHeight v) []
      @ enc_i64 (sv_Satoshis v) [] @ enc_i32 (sv_AddressType v) [] @ enc_hash ?hb []"
    by (rule rd_hash.get_first [OF assms(2) raw])
  obtain d2 where d2: "dec_u32 d1 = Some (sv_InputIndex v, d2)" "drop (d_off d2) (d_b d2) = enc_i32 (sv_BlockHeight v) []
      @ enc_i64 (sv_Satoshis v) [] @ enc_i32 (sv_AddressType v) [] @ enc_hash ?hb []"
    by (rule rd_u32.get_next [OF TrueI d1(2)])
  obtain d3 where d3: "dec_i32 d2 = Some (sv_BlockHeight v, d3)"
    "drop (d_off d3) (d_b d3) = enc_i64 (sv_Satoshis v) [] @ enc_i32 (sv_AddressType v) [] @ enc_hash ?hb []"
    by (rule rd_i32.get_next [OF TrueI d2(2)])
  obtain d4 where d4: "dec_i64 d3 = Some (sv_Satoshis v, d4)"
    "drop (d_off d4) (d_b d4) = enc_i32 (sv_AddressType v) [] @ enc_hash ?hb []"
    by (rule rd_i64.get_next [OF TrueI d3(2)])
  obtain d5 where d5: "dec_i32 d4 = Some (sv_AddressType v, d5)" "drop (d_off d5) (d_b d5) = enc_hash ?hb [] @ []"
    by (rule rd_i32.get_next [OF TrueI d4(2)]) simp
  obtain d6 where d6: "dec_hash d5 = Some (?hb, d6)"
    by (rule rd_hash.get_next [OF is_hash_pad d5(2)]) (use len in auto)
  show ?thesis by (simp add: spent_index_value_def d1 d2 d3 d4 d5 d6)
qed





section \<open>A start height\<close>

lemma iter_entries_from:
  "e \<in> set (iter_entries (\<lambda>k v out. case row k v of None \<Rightarrow> (False, out) | Some e \<Rightarrow> (True, out @ [e])) kvs out) \<Longrightarrow>
   e \<in> set out \<or> (\<exists>kv \<in> set kvs. row (fst kv) (snd kv) = Some e)"
proof (induction kvs arbitrary: out)
  case (Cons kv kvs)
  show ?case
  proof (cases "row (fst kv) (snd kv)")
    case (Some x)
    then have "e \<in> set (out @ [x]) \<or> (\<exists>kv \<in> set kvs. row (fst kv) (snd kv) = Some e)"
      using Cons.prems by (intro Cons.IH) simp
    then show ?thesis using Some by auto
  qed (use Cons.prems in simp)
qed simp

lemma address_index_row_height:
  assumes "k = DBAddressIndex # le_bytes 4 t @ pad_hash hb @ le_bytes 4 start @ rest" "length hb \<le> 32"
    and "address_index_row t hb stop k v = Some e"
  shows "ae_BlockHeight e = start"
proof -
  have "k = enc_u8 DBAddressIndex [] @ enc_u32 t [] @ enc_hash (pad_hash hb) [] @ enc_i32 start [] @ rest"
    by (simp add: assms(1) enc_defs)
  then obtain d1 where d1: "dec_u8 \<lparr>d_b = k, d_off = 0\<rparr> = Some (DBAddressIndex, d1)"
    "drop (d_off d1) (d_b d1) = enc_u32 t [] @ enc_hash (pad_hash hb) [] @ enc_i32 start [] @ rest"
    by (rule rd_u8.get_first [OF TrueI])
  obtain d2 where d2: "dec_u32 d1 = Some (t, d2)"
    "drop (d_off d2) (d_b d2) = enc_hash (pad_hash hb) [] @ enc_i32 start [] @ rest"
    by (rule rd_u32.get_next [OF TrueI d1(2)])
  obtain d3 where d3: "dec_hash d2 = Some (pad_hash hb, d3)" "drop (d_off d3) (d_b d3) = enc_i32 start [] @ rest"
    by (rule rd_hash.get_next [OF is_hash_pad d2(2)]) (use assms(2) in auto)
  obtain d4 where d4: "dec_i32 d3 = Some (start, d4)"
    by (rule rd_i32.get_next [OF TrueI d3(2)])
  show ?thesis
    using assms(3) by (auto simp: address_index_row_def d1 d2 d3 d4 Option.bind_eq_Some_conv split: if_splits)
qed

section \<open>Properties\<close>





text \<open>
  C32: the value of a spent row is read back: \<open>ReadSpentIndex\<close> returns the fields that were encoded, with
  the address hash padded to 32 bytes.
\<close>

theorem spent_value_roundtrip:
  assumes "leveldb_spec L I contents" "I (m_db m)" "is_hash (sv_TxID v)" "SpentIndexValue_Encode v = Some raw"
    and "contents (m_db m) (SpentIndexKey_Key key) = Some (obfuscate m raw)" "ReadSpentIndex L m key = Inr r"
  shows "r = Some (v\<lparr>sv_AddressHash := pad_hash (sv_AddressHash v)\<rparr>)"
proof (cases "getValue L m (SpentIndexKey_Key key)")
  case (Inr g)
  then have "g = Some raw" by (rule leveldb_spec.getValue_written [OF assms(1,2,5)])
  then show ?thesis using assms(6) Inr spent_value_read [OF assms(4,3)] by (simp add: ReadSpentIndex_def)
qed (use assms(6) in \<open>simp add: ReadSpentIndex_def\<close>)

theorem spent_value_roundtrip_witness:
  "\<exists>raw. SpentIndexValue_Encode \<lparr>sv_TxID = replicate 32 1, sv_InputIndex = 2, sv_BlockHeight = 3, sv_Satoshis = 4,
       sv_AddressType = 5, sv_AddressHash = [6]\<rparr> = Some raw
     \<and> ReadSpentIndex rbt_leveldb \<lparr>m_db = RBT.insert (SpentIndexKey_Key \<lparr>sk_TxID = replicate 32 9, sk_OutputIndex = 0\<rparr>)
           (xorObfuscate [7] raw) RBT.empty, m_key = [7]\<rparr> \<lparr>sk_TxID = replicate 32 9, sk_OutputIndex = 0\<rparr>
       = Inr (Some \<lparr>sv_TxID = replicate 32 1, sv_InputIndex = 2, sv_BlockHeight = 3, sv_Satoshis = 4,
           sv_AddressType = 5, sv_AddressHash = pad_hash [6]\<rparr>)"
proof -
  let ?v = "\<lparr>sv_TxID = replicate 32 1, sv_InputIndex = 2, sv_BlockHeight = 3, sv_Satoshis = 4, sv_AddressType = 5, sv_AddressHash = [6]\<rparr>"
    and ?k = "\<lparr>sk_TxID = replicate 32 9, sk_OutputIndex = 0\<rparr>"
  obtain raw where raw: "SpentIndexValue_Encode ?v = Some raw"
    by (simp add: SpentIndexValue_Encode_def enc_hashIndex_def)
  let ?m = "\<lparr>m_db = RBT.insert (SpentIndexKey_Key ?k) (xorObfuscate [7] raw) RBT.empty, m_key = [7]\<rparr>"
  have h: "is_hash (sv_TxID ?v)" by (simp add: is_hash_def)
  then obtain r where r: "ReadSpentIndex rbt_leveldb ?m ?k = Inr r"
    using spent_value_read [OF raw h]
    by (simp add: ReadSpentIndex_def getValue_def getRaw_def rbt_leveldb_def deobfuscate_def)
  have "r = Some (?v\<lparr>sv_AddressHash := pad_hash (sv_AddressHash ?v)\<rparr>)"
    by (rule spent_value_roundtrip [OF rbt_db.leveldb_spec_axioms TrueI h raw _ r]) (simp add: obfuscate_def)
  then show ?thesis using raw r by simp
qed



text \<open>
  C34: with a start height, \<open>ReadAddressIndex\<close> passes to the callback only rows of exactly that height: the
  height is part of the prefix it iterates over. Its documentation promises the rows from that height on.
\<close>

theorem ReadAddressIndex_start_only:
  assumes "leveldb_spec L I contents" "I (m_db m)" "0 <s start"
    and "ReadAddressIndex L m addrType hashBytes start stop (\<lambda>e out. (True, out @ [e])) [] = Ret out" "e \<in> set out"
  shows "ae_BlockHeight e = start"
proof -
  let ?p = "DBAddressIndex # le_bytes 4 addrType @ pad_hash hashBytes @ le_bytes 4 start"
  have len: "length hashBytes \<le> 32"
    using assms(4) by (auto simp: ReadAddressIndex_def addressSeekKey_eq split: if_splits)
  obtain kvs where it: "ldb_Iterate L (m_db m) ?p (prefixSuccessor ?p) = (kvs, None)"
    and out: "out = iter_entries (\<lambda>k v out. case address_index_row addrType hashBytes stop k (deobfuscate m v) of
         None \<Rightarrow> (False, out) | Some e \<Rightarrow> (True, out @ [e])) kvs []"
    using assms(3,4) len
    by (auto simp: ReadAddressIndex_def addressSeekKey_eq iteratePrefixDeobf_def iteratePrefix_def Let_def
        split: sum.splits prod.splits option.splits)
  obtain kv where kv: "kv \<in> set kvs" "address_index_row addrType hashBytes stop (fst kv) (deobfuscate m (snd kv)) = Some e"
    using iter_entries_from [of e "\<lambda>k v. address_index_row addrType hashBytes stop k (deobfuscate m v)" kvs "[]"]
      assms(5) out by auto
  have "prefix ?p (fst kv)"
    using kv(1) leveldb_spec.iterate_ok [OF assms(1,2) it] by (metis in_range_prefixSuccessor prod.collapse)
  then obtain rest where "fst kv = DBAddressIndex # le_bytes 4 addrType @ pad_hash hashBytes @ le_bytes 4 start @ rest"
    by (auto simp: prefix_def)
  then show ?thesis by (rule address_index_row_height [OF _ len kv(2)])
qed


definition ex_delta :: "i32 \<Rightarrow> bytes" where
  "ex_delta height = the (AddressIndexKey_Key \<lparr>ak_Type = 5, ak_HashBytes = replicate 20 7, ak_BlockHeight = height,
     ak_TxIndex = 0, ak_TxHash = zero_hash, ak_Index = 0, ak_Spending = False\<rparr>)"

theorem ReadAddressIndex_start_only_witness:
  "\<exists>out. ReadAddressIndex rbt_leveldb \<lparr>m_db = RBT.insert (ex_delta 3) (replicate 8 0) (RBT.insert (ex_delta 4) (replicate 8 0)
       RBT.empty), m_key = [7]\<rparr> 5 (replicate 20 7) 3 0 (\<lambda>e out. (True, out @ [e])) [] = Ret out
    \<and> filter (\<lambda>e. ae_BlockHeight e \<noteq> 3) out = []"
proof -
  let ?m = "\<lparr>m_db = RBT.insert (ex_delta 3) (replicate 8 0) (RBT.insert (ex_delta 4) (replicate 8 0) RBT.empty), m_key = [7]\<rparr>"
  obtain out where out: "ReadAddressIndex rbt_leveldb ?m 5 (replicate 20 7) 3 0 (\<lambda>e out. (True, out @ [e])) [] = Ret out"
    by (simp add: ReadAddressIndex_def addressSeekKey_eq iteratePrefixDeobf_def iteratePrefix_def rbt_leveldb_def Let_def)
  have "ae_BlockHeight e = 3" if "e \<in> set out" for e
    by (rule ReadAddressIndex_start_only [OF rbt_db.leveldb_spec_axioms TrueI _ out that]) code_simp
  then show ?thesis using out by (simp add: filter_empty_conv)
qed

end
