(* ===== verification/Treap.thy ===== *)
theory Treap
  imports Prelude "HOL-Library.List_Lexorder"
begin

text \<open>
  The treaps of the database cache, \<open>database/internal/treap\<close>: search trees by key that are heaps by a
  random priority. The nodes are values of a datatype: \<open>Mutable\<close> updates them in place and \<open>Immutable\<close>
  clones the ones it changes, which is the same function on trees. A stack of parents is a list of frames,
  one for each node on the path, with the side on which the path continues. The random priority of
  a new node is an argument. The pool that recycles nodes has no counterpart.
\<close>

section \<open>Nodes (\<open>common.go\<close>)\<close>

datatype treapNode = Nil_node
  | Tnode (t_key: bytes) (t_value: bytes) (t_priority: int) (t_left: treapNode) (t_right: treapNode)

definition staticDepth :: nat where
  "staticDepth = 128"

definition nodeFieldsSize :: u64 where
  "nodeFieldsSize = 72"

definition nodeSize :: "bytes \<Rightarrow> bytes \<Rightarrow> u64" where
  "nodeSize key value = nodeFieldsSize + word_of_nat (length key + length value)"

text \<open>
  \<open>parentStack\<close> keeps the first \<open>staticDepth\<close> items in an array and the others in a slice that grows by
  one. \<^const>\<open>None\<close> is the nil pointer.
\<close>

record 'a parentStack =
  ps_index :: nat
  ps_items :: "'a option list"
  ps_overflow :: "'a option list"

definition ps_empty :: "'a parentStack" where
  "ps_empty = \<lparr>ps_index = 0, ps_items = replicate staticDepth None, ps_overflow = []\<rparr>"

definition ps_Len :: "'a parentStack \<Rightarrow> nat" where
  "ps_Len s = ps_index s"

definition ps_At :: "'a parentStack \<Rightarrow> nat \<Rightarrow> 'a option" where
  "ps_At s n =
    (let index = int (ps_index s) - int n - 1 in
     if index < 0 then None
     else if index < int staticDepth then ps_items s ! nat index
     else ps_overflow s ! (nat index - staticDepth))"

definition ps_Pop :: "'a parentStack \<Rightarrow> 'a option \<times> 'a parentStack" where
  "ps_Pop s =
    (if ps_index s = 0 then (None, s)
     else let i = ps_index s - 1; s = s\<lparr>ps_index := i\<rparr> in
       if i < staticDepth then (ps_items s ! i, s\<lparr>ps_items := (ps_items s)[i := None]\<rparr>)
       else (ps_overflow s ! (i - staticDepth), s\<lparr>ps_overflow := (ps_overflow s)[i - staticDepth := None]\<rparr>))"

definition ps_Push :: "'a \<Rightarrow> 'a parentStack \<Rightarrow> 'a parentStack" where
  "ps_Push node s =
    (if ps_index s < staticDepth then s\<lparr>ps_items := (ps_items s)[ps_index s := Some node], ps_index := ps_index s + 1\<rparr>
     else let index = ps_index s - staticDepth;
         s = (if index + 1 > length (ps_overflow s)
              then s\<lparr>ps_overflow := take (index + 1) (ps_overflow s @ replicate (index + 1) None)\<rparr> else s)
       in s\<lparr>ps_overflow := (ps_overflow s)[index := Some node], ps_index := ps_index s + 1\<rparr>)"

section \<open>Paths\<close>

text \<open>The frame of a node: whether the path goes on to its left, its fields, and its other child.\<close>

datatype frame = Frame (f_left: bool) (f_key: bytes) (f_value: bytes) (f_priority: int) (f_other: treapNode)

fun link :: "frame \<Rightarrow> treapNode \<Rightarrow> treapNode" where
  "link (Frame isLeft k v p other) child = (if isLeft then Tnode k v p child other else Tnode k v p other child)"

text \<open>The tree of which \<open>node\<close> is the part that the path leads to.\<close>

fun relink :: "treapNode \<Rightarrow> frame list \<Rightarrow> treapNode" where
  "relink node [] = node"
| "relink node (parent # parents) = relink (link parent node) parents"

text \<open>The search for a key from a node, with the path so far.\<close>

fun descend :: "bytes \<Rightarrow> treapNode \<Rightarrow> frame list \<Rightarrow> treapNode \<times> frame list" where
  "descend key Nil_node parents = (Nil_node, parents)"
| "descend key (Tnode k v p l r) parents =
    (if key < k then descend key l (Frame True k v p r # parents)
     else if key > k then descend key r (Frame False k v p l # parents)
     else (Tnode k v p l r, parents))"

section \<open>The treap (\<open>mutable.go\<close>, \<open>immutable.go\<close>)\<close>

record treap =
  tr_root :: treapNode
  tr_count :: int
  tr_totalSize :: u64

definition NewTreap :: treap where
  "NewTreap = \<lparr>tr_root = Nil_node, tr_count = 0, tr_totalSize = 0\<rparr>"

definition Reset :: "treap \<Rightarrow> treap" where
  "Reset t = t\<lparr>tr_count := 0, tr_totalSize := 0, tr_root := Nil_node\<rparr>"

fun get_node :: "bytes \<Rightarrow> treapNode \<Rightarrow> treapNode" where
  "get_node key Nil_node = Nil_node"
| "get_node key (Tnode k v p l r) =
    (if key < k then get_node key l else if key > k then get_node key r else Tnode k v p l r)"

definition Has :: "treap \<Rightarrow> bytes \<Rightarrow> bool" where
  "Has t key \<longleftrightarrow> get_node key (tr_root t) \<noteq> Nil_node"

definition Get :: "treap \<Rightarrow> bytes \<Rightarrow> bytes option" where
  "Get t key = (case get_node key (tr_root t) of Nil_node \<Rightarrow> None | Tnode k v p l r \<Rightarrow> Some v)"

text \<open>The rotations that move a new node up until its priority is not below that of its parent.\<close>

fun rotate_up :: "treapNode \<Rightarrow> frame list \<Rightarrow> treapNode" where
  "rotate_up node [] = node"
| "rotate_up Nil_node parents = relink Nil_node parents"
| "rotate_up (Tnode k v p l r) (parent # parents) =
    (if p \<ge> f_priority parent then relink (Tnode k v p l r) (parent # parents)
     else if f_left parent then rotate_up (Tnode k v p l (link parent r)) parents
     else rotate_up (Tnode k v p (link parent l) r) parents)"

text \<open>\<open>Put\<close> with the value, \<^const>\<open>None\<close> for nil, and the priority that \<open>rand.Int\<close> returns.\<close>

definition Put :: "bytes \<Rightarrow> bytes option \<Rightarrow> int \<Rightarrow> treap \<Rightarrow> treap" where
  "Put key val rnd t =
    (let value = (case val of None \<Rightarrow> [] | Some v \<Rightarrow> v) in
     if tr_root t = Nil_node then
       t\<lparr>tr_count := 1, tr_totalSize := nodeSize key value, tr_root := Tnode key value rnd Nil_node Nil_node\<rparr>
     else case descend key (tr_root t) [] of
       (Tnode k v p l r, parents) \<Rightarrow>
         t\<lparr>tr_totalSize := tr_totalSize t - word_of_nat (length v) + word_of_nat (length value),
           tr_root := relink (Tnode k value p l r) parents\<rparr>
     | (Nil_node, parents) \<Rightarrow>
         t\<lparr>tr_count := tr_count t + 1, tr_totalSize := tr_totalSize t + nodeSize key value,
           tr_root := rotate_up (Tnode key value rnd Nil_node Nil_node) parents\<rparr>)"

text \<open>The rotations that move the node to delete down to a leaf, which is then cut off.\<close>

function sink :: "bytes \<Rightarrow> bytes \<Rightarrow> int \<Rightarrow> treapNode \<Rightarrow> treapNode \<Rightarrow> treapNode" where
  "sink k v p Nil_node Nil_node = Nil_node"
| "sink k v p Nil_node (Tnode rk rv rp rl rr) = Tnode rk rv rp (sink k v p Nil_node rl) rr"
| "sink k v p (Tnode lk lv lp ll lr) Nil_node = Tnode lk lv lp ll (sink k v p lr Nil_node)"
| "sink k v p (Tnode lk lv lp ll lr) (Tnode rk rv rp rl rr) =
    (if lp \<ge> rp then Tnode lk lv lp ll (sink k v p lr (Tnode rk rv rp rl rr))
     else Tnode rk rv rp (sink k v p (Tnode lk lv lp ll lr) rl) rr)"
  by pat_completeness auto
termination
  by (relation "measure (\<lambda>(_, _, _, l, r). size l + size r)") auto

definition Delete :: "bytes \<Rightarrow> treap \<Rightarrow> treap" where
  "Delete key t =
    (case descend key (tr_root t) [] of
       (Nil_node, parents) \<Rightarrow> t
     | (Tnode k v p l r, parents) \<Rightarrow>
         if parents = [] \<and> l = Nil_node \<and> r = Nil_node
         then t\<lparr>tr_root := Nil_node, tr_count := 0, tr_totalSize := 0\<rparr>
         else t\<lparr>tr_root := relink (sink k v p l r) parents, tr_count := tr_count t - 1,
           tr_totalSize := tr_totalSize t - nodeSize k v\<rparr>)"

text \<open>\<open>Immutable.Put\<close> inserts pairs one after the other, each with a priority of its own.\<close>

definition PutAll :: "(bytes \<times> bytes option \<times> int) list \<Rightarrow> treap \<Rightarrow> treap" where
  "PutAll kvPairs t = fold (\<lambda>(key, val, rnd). Put key val rnd) kvPairs t"

text \<open>\<open>ForEach\<close> with a callback that says whether to go on and carries the state \<open>'s\<close>.\<close>

fun push_left :: "treapNode \<Rightarrow> treapNode list \<Rightarrow> treapNode list" where
  "push_left Nil_node parents = parents"
| "push_left (Tnode k v p l r) parents = push_left l (Tnode k v p l r # parents)"

fun stack_size :: "treapNode list \<Rightarrow> nat" where
  "stack_size [] = 0"
| "stack_size (n # ns) = (case n of Nil_node \<Rightarrow> 1 | Tnode k v p l r \<Rightarrow> size r + 1) + stack_size ns"

lemma stack_size_push_left: "stack_size (push_left n ns) \<le> size n + stack_size ns"
proof (induction n ns rule: push_left.induct)
  case (2 k v p l r ns)
  then show ?case by simp
qed simp

function foreach_loop :: "(bytes \<Rightarrow> bytes \<Rightarrow> 's \<Rightarrow> bool \<times> 's) \<Rightarrow> treapNode list \<Rightarrow> 's \<Rightarrow> 's" where
  "foreach_loop fn [] s = s"
| "foreach_loop fn (Nil_node # parents) s = foreach_loop fn parents s"
| "foreach_loop fn (Tnode k v p l r # parents) s =
    (case fn k v s of (go, s') \<Rightarrow> if \<not> go then s' else foreach_loop fn (push_left r parents) s')"
  by pat_completeness auto
termination
proof (relation "measure (\<lambda>(_, ns, _). stack_size ns)", goal_cases)
  case (3 fn k v p l r parents s x y)
  then show ?case using stack_size_push_left [of r parents] by simp
qed simp_all

definition ForEach :: "(bytes \<Rightarrow> bytes \<Rightarrow> 's \<Rightarrow> bool \<times> 's) \<Rightarrow> treap \<Rightarrow> 's \<Rightarrow> 's" where
  "ForEach fn t s = foreach_loop fn (push_left (tr_root t) []) s"

section \<open>The stack of parents\<close>

text \<open>The abstract value of a parent stack: its items, the topmost first.\<close>

definition ps_abs :: "'a parentStack \<Rightarrow> 'a option list" where
  "ps_abs s = rev (take (ps_index s) (ps_items s @ ps_overflow s))"

definition ps_wf :: "'a parentStack \<Rightarrow> bool" where
  "ps_wf s \<longleftrightarrow> length (ps_items s) = staticDepth \<and> ps_index s \<le> staticDepth + length (ps_overflow s)"

lemma ps_wf_empty: "ps_wf ps_empty" "ps_abs ps_empty = []"
  by (simp_all add: ps_wf_def ps_empty_def ps_abs_def)

lemma ps_nth: "ps_wf s \<Longrightarrow> i < ps_index s \<Longrightarrow>
    (ps_items s @ ps_overflow s) ! i = (if i < staticDepth then ps_items s ! i else ps_overflow s ! (i - staticDepth))"
  by (simp add: ps_wf_def nth_append)

lemma ps_Push_view:
  assumes "ps_wf s"
  defines "a \<equiv> ps_items s @ ps_overflow s"
  shows "ps_wf (ps_Push x s)" "ps_index (ps_Push x s) = Suc (ps_index s)"
    "ps_items (ps_Push x s) @ ps_overflow (ps_Push x s) =
      (if ps_index s < length a then a[ps_index s := Some x] else a @ [Some x])"
  using assms by (auto simp: ps_wf_def ps_Push_def Let_def list_update_append)

lemma ps_Push_abs:
  assumes "ps_wf s"
  shows "ps_wf (ps_Push x s)" "ps_abs (ps_Push x s) = Some x # ps_abs s"
proof -
  show "ps_wf (ps_Push x s)" by (rule ps_Push_view [OF assms])
  have "ps_index s \<le> length (ps_items s @ ps_overflow s)" using assms by (simp add: ps_wf_def)
  then show "ps_abs (ps_Push x s) = Some x # ps_abs s"
    unfolding ps_abs_def ps_Push_view(2,3) [OF assms]
    by (simp add: take_Suc_conv_app_nth del: length_append) (simp add: not_less)
qed

lemma ps_At_abs:
  assumes "ps_wf s"
  shows "ps_At s n = (if n < length (ps_abs s) then ps_abs s ! n else None)"
proof -
  have l: "length (ps_abs s) = ps_index s" using assms by (auto simp: ps_abs_def ps_wf_def min_def)
  show ?thesis
  proof (cases "n < ps_index s")
    case True
    then have "ps_abs s ! n = (ps_items s @ ps_overflow s) ! (ps_index s - Suc n)"
      using l by (simp add: ps_abs_def rev_nth del: take_append)
    then show ?thesis
      using True l ps_nth [OF assms, of "ps_index s - Suc n"]
      by (auto simp: ps_At_def Let_def nat_diff_distrib' of_nat_diff)
  qed (simp add: l ps_At_def)
qed

lemma ps_Pop_view:
  assumes "ps_wf s" "0 < ps_index s"
  defines "a \<equiv> ps_items s @ ps_overflow s"
  shows "fst (ps_Pop s) = a ! (ps_index s - 1)" "ps_index (snd (ps_Pop s)) = ps_index s - 1"
    "ps_items (snd (ps_Pop s)) @ ps_overflow (snd (ps_Pop s)) = a[ps_index s - 1 := None]"
  using assms by (auto simp: ps_wf_def ps_Pop_def Let_def list_update_append nth_append)

lemma ps_Pop_abs:
  assumes "ps_wf s"
  shows "ps_wf (snd (ps_Pop s))"
    and "fst (ps_Pop s) = (case ps_abs s of [] \<Rightarrow> None | x # _ \<Rightarrow> x)" "ps_abs (snd (ps_Pop s)) = tl (ps_abs s)"
proof -
  show "ps_wf (snd (ps_Pop s))" using assms by (auto simp: ps_wf_def ps_Pop_def Let_def)
  show "fst (ps_Pop s) = (case ps_abs s of [] \<Rightarrow> None | x # _ \<Rightarrow> x)" "ps_abs (snd (ps_Pop s)) = tl (ps_abs s)"
  proof (atomize (full), cases "ps_index s")
    case 0
    then show "fst (ps_Pop s) = (case ps_abs s of [] \<Rightarrow> None | x # _ \<Rightarrow> x) \<and> ps_abs (snd (ps_Pop s)) = tl (ps_abs s)"
      by (simp add: ps_Pop_def ps_abs_def)
  next
    case (Suc i)
    let ?a = "ps_items s @ ps_overflow s"
    have "i < length ?a" using assms Suc by (simp add: ps_wf_def)
    then have "ps_abs s = ?a ! i # rev (take i ?a)" by (simp add: ps_abs_def Suc take_Suc_conv_app_nth del: take_append)
    moreover have "ps_abs (snd (ps_Pop s)) = rev (take i ?a)"
      unfolding ps_abs_def using ps_Pop_view(2,3) [OF assms] Suc by (simp del: take_append)
    ultimately show "fst (ps_Pop s) = (case ps_abs s of [] \<Rightarrow> None | x # _ \<Rightarrow> x) \<and> ps_abs (snd (ps_Pop s)) = tl (ps_abs s)"
      using ps_Pop_view(1) [OF assms] Suc by simp
  qed
qed

section \<open>Trees as sorted lists\<close>

fun inorder :: "treapNode \<Rightarrow> (bytes \<times> bytes) list" where
  "inorder Nil_node = []"
| "inorder (Tnode k v p l r) = inorder l @ (k, v) # inorder r"

text \<open>What comes before and after the end of a path.\<close>

fun before :: "frame list \<Rightarrow> (bytes \<times> bytes) list" where
  "before [] = []"
| "before (Frame isLeft k v p other # fs) = before fs @ (if isLeft then [] else inorder other @ [(k, v)])"

fun after :: "frame list \<Rightarrow> (bytes \<times> bytes) list" where
  "after [] = []"
| "after (Frame isLeft k v p other # fs) = (if isLeft then (k, v) # inorder other else []) @ after fs"

lemma inorder_relink: "inorder (relink t fs) = before fs @ inorder t @ after fs"
proof (induction fs arbitrary: t)
  case (Cons f fs)
  then show ?case by (cases f) simp
qed simp

lemma inorder_rotate_up: "inorder (rotate_up t fs) = before fs @ inorder t @ after fs"
proof (induction t fs rule: rotate_up.induct)
  case (3 k v p l r f fs)
  then show ?case by (cases f) (auto simp: inorder_relink)
qed (simp_all add: inorder_relink del: relink.simps)

lemma inorder_sink: "inorder (sink k v p l r) = inorder l @ inorder r"
  by (induction k v p l r rule: sink.induct) auto

abbreviation (input) keys_of :: "(bytes \<times> bytes) list \<Rightarrow> bytes list" where
  "keys_of xs \<equiv> map fst xs"

definition ordered :: "treapNode \<Rightarrow> bool" where
  "ordered t \<longleftrightarrow> sorted_wrt (<) (keys_of (inorder t))"

text \<open>The search splits the list at the key.\<close>

lemma descend_inorder:
  "descend key t fs = (t', fs') \<Longrightarrow> before fs' @ inorder t' @ after fs' = before fs @ inorder t @ after fs"
  by (induction key t fs rule: descend.induct) (auto split: if_splits)

lemma descend_relink: "descend key t fs = (t', fs') \<Longrightarrow> relink t' fs' = relink t fs"
  by (induction key t fs rule: descend.induct) (auto split: if_splits)

lemma descend_found: "descend key t fs = (Tnode k v p l r, fs') \<Longrightarrow> k = key"
  by (induction key t fs rule: descend.induct) (auto split: if_splits)

definition around :: "bytes \<Rightarrow> frame list \<Rightarrow> bool" where
  "around key fs \<longleftrightarrow> (\<forall>x \<in> set (keys_of (before fs)). x < key) \<and> (\<forall>x \<in> set (keys_of (after fs)). key < x)"

lemma around_left:
  assumes "around key fs" "key < k" "\<forall>x \<in> set (keys_of (inorder r)). k < x"
  shows "around key (Frame True k v p r # fs)"
  using assms less_trans [of key k] by (auto simp: around_def)

lemma around_right:
  assumes "around key fs" "k < key" "\<forall>x \<in> set (keys_of (inorder l)). x < k"
  shows "around key (Frame False k v p l # fs)"
  using assms less_trans [of _ k key] by (auto simp: around_def)

lemma ordered_node:
  assumes "ordered (relink (Tnode k v p l r) fs)"
  shows "\<forall>x \<in> set (keys_of (inorder l)). x < k" "\<forall>x \<in> set (keys_of (inorder r)). k < x"
  using assms by (auto simp: ordered_def inorder_relink sorted_wrt_append)

lemma descend_around:
  "descend key t fs = (t', fs') \<Longrightarrow> ordered (relink t fs) \<Longrightarrow> around key fs \<Longrightarrow> around key fs'"
proof (induction key t fs rule: descend.induct)
  case (2 key k v p l r fs)
  note o = ordered_node [OF 2(4)]
  consider (lt) "key < k" | (gt) "key > k" | (eq) "key = k" by (rule linorder_cases)
  then show ?case
  proof cases
    case lt
    have "around key (Frame True k v p r # fs)" by (rule around_left [OF 2(5) lt o(2)])
    then show ?thesis using 2(1) [OF lt] 2(3,4) lt by simp
  next
    case gt
    have "around key (Frame False k v p l # fs)" by (rule around_right [OF 2(5) gt o(1)])
    moreover have "\<not> key < k" using gt by (simp add: not_less)
    ultimately show ?thesis using 2(2) gt 2(3,4) by simp
  next
    case eq
    then show ?thesis using 2(3,5) by simp
  qed
qed simp

lemma get_node_descend: "fst (descend key t fs) = get_node key t"
  by (induction key t fs rule: descend.induct) auto

section \<open>What a treap holds\<close>

definition contents :: "treap \<Rightarrow> bytes \<rightharpoonup> bytes" where
  "contents t = map_of (inorder (tr_root t))"

definition total_size :: "(bytes \<times> bytes) list \<Rightarrow> u64" where
  "total_size xs = sum_list (map (\<lambda>(k, v). nodeSize k v) xs)"

text \<open>
  The invariant: the keys are in order, \<open>count\<close> is the number of nodes and \<open>totalSize\<close> the sum of their
  sizes.
\<close>

definition treap_ok :: "treap \<Rightarrow> bool" where
  "treap_ok t \<longleftrightarrow> ordered (tr_root t) \<and> tr_count t = int (length (inorder (tr_root t)))
     \<and> tr_totalSize t = total_size (inorder (tr_root t))"

lemma total_size_simps [simp]:
  "total_size [] = 0" "total_size ((k, v) # xs) = nodeSize k v + total_size xs"
  "total_size (xs @ ys) = total_size xs + total_size ys"
  by (simp_all add: total_size_def)

lemma map_of_middle: "k \<notin> fst ` set xs \<Longrightarrow> map_of (xs @ (k, v) # ys) = (map_of (xs @ ys))(k \<mapsto> v)"
  by (induction xs) (auto simp: fun_upd_twist simp del: map_of_append)

lemma map_of_cut: "k \<notin> fst ` set xs \<Longrightarrow> k \<notin> fst ` set ys \<Longrightarrow> map_of (xs @ ys) = (map_of (xs @ (k, v) # ys))(k := None)"
proof (induction xs)
  case Nil
  then show ?case by (auto simp: fun_eq_iff map_of_eq_None_iff)
next
  case (Cons x xs)
  then show ?case by (auto simp: fun_upd_twist simp del: map_of_append)
qed

lemma Nil_inorder: "inorder t = [] \<longleftrightarrow> t = Nil_node"
  by (cases t) simp_all

text \<open>The three ways in which a search that starts at the root can be used.\<close>

lemma descend_root:
  assumes "ordered t" "descend key t [] = (t', fs)"
  shows "inorder t = before fs @ inorder t' @ after fs" "around key fs" "t = relink t' fs"
  using descend_inorder [OF assms(2)] descend_around [OF assms(2)] descend_relink [OF assms(2)] assms(1)
  by (simp_all add: around_def)

lemma around_notin: "around key fs \<Longrightarrow> key \<notin> fst ` set (before fs) \<and> key \<notin> fst ` set (after fs)"
  by (auto simp: around_def)

lemma descend_node:
  assumes "ordered t" "descend key t [] = (Tnode k v p l r, fs)"
  shows "inorder t = (before fs @ inorder l) @ (key, v) # (inorder r @ after fs)" "k = key"
    "key \<notin> fst ` set (before fs @ inorder l)" "key \<notin> fst ` set (inorder r @ after fs)"
proof -
  show k: "k = key" by (rule descend_found [OF assms(2)])
  show "inorder t = (before fs @ inorder l) @ (key, v) # (inorder r @ after fs)"
    using descend_root(1) [OF assms] k by simp
  then show "key \<notin> fst ` set (before fs @ inorder l)" "key \<notin> fst ` set (inorder r @ after fs)"
    using assms(1) by (auto simp: ordered_def sorted_wrt_append)
qed

lemma Get_contents:
  assumes "ordered (tr_root t)"
  shows "Get t key = contents t key" "Has t key \<longleftrightarrow> contents t key \<noteq> None"
proof (atomize (full))
  obtain t' fs where d: "descend key (tr_root t) [] = (t', fs)" by (cases "descend key (tr_root t) []")
  then have g: "get_node key (tr_root t) = t'" using get_node_descend [of key "tr_root t" "[]"] by simp
  show "Get t key = contents t key \<and> (Has t key \<longleftrightarrow> contents t key \<noteq> None)"
  proof (cases t')
    case Nil_node
    have "key \<notin> fst ` set (inorder (tr_root t))"
      using descend_root [OF assms d] Nil_node around_notin [of key fs] by auto
    then have "contents t key = None" by (simp add: contents_def map_of_eq_None_iff)
    then show ?thesis using g Nil_node by (simp add: Get_def Has_def)
  next
    case (Tnode k v p l r)
    note n = descend_node [OF assms d [unfolded Tnode]]
    have "contents t key = Some v" unfolding contents_def n(1) map_of_middle [OF n(3)] by simp
    then show ?thesis using g Tnode by (simp add: Get_def Has_def)
  qed
qed

lemma sorted_middle:
  assumes "sorted_wrt (<) (keys_of (xs @ ys))" "\<forall>x \<in> set (keys_of xs). x < key" "\<forall>x \<in> set (keys_of ys). key < x"
  shows "sorted_wrt (<) (keys_of (xs @ (key, v) # ys))"
  using assms by (simp add: sorted_wrt_append)

lemma Put_ok:
  assumes "treap_ok t"
  shows "treap_ok (Put key val rnd t)"
    and "contents (Put key val rnd t) = (contents t)(key \<mapsto> (case val of None \<Rightarrow> [] | Some v \<Rightarrow> v))"
proof (atomize (full))
  let ?v = "case val of None \<Rightarrow> [] | Some v \<Rightarrow> v"
  have o: "ordered (tr_root t)" using assms by (simp add: treap_ok_def)
  obtain t' fs where d: "descend key (tr_root t) [] = (t', fs)" by (cases "descend key (tr_root t) []")
  show "treap_ok (Put key val rnd t) \<and> contents (Put key val rnd t) = (contents t)(key \<mapsto> ?v)"
  proof (cases t')
    case Nil_node
    have i: "inorder (tr_root t) = before fs @ after fs" and ar: "around key fs"
      using descend_root [OF o d] Nil_node by simp_all
    have P: "inorder (tr_root (Put key val rnd t)) = before fs @ (key, ?v) # after fs"
      "tr_count (Put key val rnd t) = tr_count t + 1" "tr_totalSize (Put key val rnd t) = tr_totalSize t + nodeSize key ?v"
      if "tr_root t \<noteq> Nil_node"
      using that d Nil_node by (simp_all add: Put_def Let_def inorder_rotate_up)
    have Q: "inorder (tr_root (Put key val rnd t)) = before fs @ (key, ?v) # after fs"
      "tr_count (Put key val rnd t) = 1" "tr_totalSize (Put key val rnd t) = nodeSize key ?v"
      "before fs = []" "after fs = []"
      if "tr_root t = Nil_node"
      using that i by (simp_all add: Put_def Let_def)
    have "inorder (tr_root (Put key val rnd t)) = before fs @ (key, ?v) # after fs
      \<and> tr_count (Put key val rnd t) = int (length (before fs @ (key, ?v) # after fs))
      \<and> tr_totalSize (Put key val rnd t) = total_size (before fs @ (key, ?v) # after fs)"
      using P Q i assms by (cases "tr_root t = Nil_node") (simp_all add: treap_ok_def ac_simps)
    moreover have "sorted_wrt (<) (keys_of (before fs @ (key, ?v) # after fs))"
      using o ar i by (intro sorted_middle) (auto simp: ordered_def around_def)
    ultimately show ?thesis
      using around_notin [OF ar] i by (simp add: treap_ok_def ordered_def contents_def map_of_middle del: map_of_append)
  next
    case (Tnode k v p l r)
    note n = descend_node [OF o d [unfolded Tnode]]
    have "tr_root t \<noteq> Nil_node" using n(1) by auto
    then have P: "inorder (tr_root (Put key val rnd t)) = (before fs @ inorder l) @ (key, ?v) # (inorder r @ after fs)"
      "tr_count (Put key val rnd t) = tr_count t"
      "tr_totalSize (Put key val rnd t) = tr_totalSize t - word_of_nat (length v) + word_of_nat (length ?v)"
      using d Tnode n(2) by (simp_all add: Put_def Let_def inorder_relink)
    have "keys_of ((before fs @ inorder l) @ (key, ?v) # (inorder r @ after fs)) = keys_of (inorder (tr_root t))"
      using n(1) by simp
    then have "ordered (tr_root (Put key val rnd t))" using o P(1) by (simp add: ordered_def)
    moreover have "contents (Put key val rnd t) = (contents t)(key \<mapsto> ?v)"
      unfolding contents_def P(1) n(1) map_of_middle [OF n(3)] by simp
    ultimately show ?thesis
      using P n(1) assms by (simp add: treap_ok_def nodeSize_def algebra_simps)
  qed
qed


lemma Delete_ok:
  assumes "treap_ok t"
  shows "treap_ok (Delete key t)" "contents (Delete key t) = (contents t)(key := None)"
proof (atomize (full))
  have o: "ordered (tr_root t)" using assms by (simp add: treap_ok_def)
  obtain t' fs where d: "descend key (tr_root t) [] = (t', fs)" by (cases "descend key (tr_root t) []")
  show "treap_ok (Delete key t) \<and> contents (Delete key t) = (contents t)(key := None)"
  proof (cases t')
    case Nil_node
    then have "get_node key (tr_root t) = Nil_node" using get_node_descend [of key "tr_root t" "[]"] d by simp
    then have "contents t key = None" using Get_contents(2) [OF o, of key] by (simp add: Has_def)
    then show ?thesis using assms d Nil_node by (simp add: Delete_def fun_upd_idem)
  next
    case (Tnode k v p l r)
    note n = descend_node [OF o d [unfolded Tnode]]
    have P: "inorder (tr_root (Delete key t)) = (before fs @ inorder l) @ (inorder r @ after fs)
      \<and> tr_count (Delete key t) = tr_count t - 1 \<and> tr_totalSize (Delete key t) = tr_totalSize t - nodeSize key v"
    proof (cases "fs = [] \<and> l = Nil_node \<and> r = Nil_node")
      case True
      then show ?thesis using d Tnode n(1,2) assms by (simp add: Delete_def treap_ok_def)
    next
      case False
      then show ?thesis using d Tnode n(2) by (auto simp: Delete_def inorder_relink inorder_sink)
    qed
    have "sorted_wrt (<) (keys_of ((before fs @ inorder l) @ (inorder r @ after fs)))"
      using o unfolding ordered_def n(1) by (auto simp: sorted_wrt_append)
    moreover have "contents (Delete key t) = (contents t)(key := None)"
      using P unfolding contents_def n(1) by (simp only: map_of_cut [OF n(3,4), of v])
    ultimately show ?thesis
      using P n(1) assms by (simp add: treap_ok_def ordered_def)
  qed
qed

lemma NewTreap_ok: "treap_ok NewTreap" "contents NewTreap = Map.empty"
  by (simp_all add: treap_ok_def NewTreap_def ordered_def contents_def)

lemma PutAll_ok:
  assumes "treap_ok t"
  shows "treap_ok (PutAll kvs t) \<and>
    contents (PutAll kvs t) = contents t ++ map_of (rev (map (\<lambda>(k, val, rnd). (k, case val of None \<Rightarrow> [] | Some v \<Rightarrow> v)) kvs))"
  using assms
proof (induction kvs arbitrary: t)
  case Nil
  then show ?case by (simp add: PutAll_def)
next
  case (Cons x kvs)
  obtain k val rnd where x: "x = (k, val, rnd)" by (cases x)
  have "treap_ok (Put k val rnd t)" by (rule Put_ok [OF Cons.prems])
  note IH = Cons.IH [OF this]
  have "contents (PutAll (x # kvs) t) = (contents t)(k \<mapsto> (case val of None \<Rightarrow> [] | Some v \<Rightarrow> v))
      ++ map_of (rev (map (\<lambda>(k, val, rnd). (k, case val of None \<Rightarrow> [] | Some v \<Rightarrow> v)) kvs))"
    using conjunct2 [OF IH] unfolding Put_ok(2) [OF Cons.prems] by (simp only: x PutAll_def fold_simps prod.case)
  then show ?case using conjunct1 [OF IH] by (simp add: x PutAll_def)
qed

text \<open>\<open>ForEach\<close> visits the pairs in the order of their keys.\<close>

fun visit :: "(bytes \<Rightarrow> bytes \<Rightarrow> 's \<Rightarrow> bool \<times> 's) \<Rightarrow> (bytes \<times> bytes) list \<Rightarrow> 's \<Rightarrow> 's" where
  "visit fn [] s = s"
| "visit fn ((k, v) # xs) s = (case fn k v s of (go, s') \<Rightarrow> if \<not> go then s' else visit fn xs s')"

fun stack_items :: "treapNode list \<Rightarrow> (bytes \<times> bytes) list" where
  "stack_items [] = []"
| "stack_items (n # ns) = (case n of Nil_node \<Rightarrow> [] | Tnode k v p l r \<Rightarrow> (k, v) # inorder r) @ stack_items ns"

lemma stack_items_push_left: "stack_items (push_left n ns) = inorder n @ stack_items ns"
  by (induction n ns rule: push_left.induct) simp_all

lemma foreach_loop_visit: "foreach_loop fn ns s = visit fn (stack_items ns) s"
  by (induction fn ns s rule: foreach_loop.induct) (auto simp: stack_items_push_left split: prod.split)

lemma ForEach_visit: "ForEach fn t s = visit fn (inorder (tr_root t)) s"
  by (simp add: ForEach_def foreach_loop_visit stack_items_push_left)

lemma visit_fold: "visit (\<lambda>k v s. (True, f k v s)) xs s = fold (\<lambda>(k, v). f k v) xs s"
  by (induction xs arbitrary: s) auto

section \<open>Priorities\<close>

text \<open>A min-heap by priority: no child has a smaller priority than its parent.\<close>

fun root_ge :: "int \<Rightarrow> treapNode \<Rightarrow> bool" where
  "root_ge b Nil_node = True"
| "root_ge b (Tnode k v p l r) = (b \<le> p)"

fun heap :: "treapNode \<Rightarrow> bool" where
  "heap Nil_node = True"
| "heap (Tnode k v p l r) = (heap l \<and> heap r \<and> root_ge p l \<and> root_ge p r)"

lemma root_ge_link [simp]: "root_ge b (link f t) \<longleftrightarrow> b \<le> f_priority f"
  by (cases f) simp

lemma heap_relink_sub: "heap (relink t fs) \<Longrightarrow> heap t"
proof (induction fs arbitrary: t)
  case (Cons f fs)
  then have "heap (link f t)" by simp
  then show ?case by (cases f) (simp split: if_splits)
qed simp

lemma heap_replace:
  assumes "heap (relink t fs)" "heap t'" "\<And>b. root_ge b t \<Longrightarrow> root_ge b t'"
  shows "heap (relink t' fs)"
  using assms
proof (induction fs arbitrary: t t')
  case (Cons f fs)
  obtain isLeft k v p other where f: "f = Frame isLeft k v p other" by (cases f)
  have "heap (link f t)" using Cons.prems(1) heap_relink_sub by simp
  then have "heap (link f t')" using Cons.prems(2,3) by (auto simp: f split: if_splits)
  moreover have "root_ge b (link f t) \<Longrightarrow> root_ge b (link f t')" for b by simp
  ultimately show ?case using Cons.IH [of "link f t" "link f t'"] Cons.prems(1) by simp
qed simp

lemma root_ge_trans: "root_ge b t \<Longrightarrow> a \<le> b \<Longrightarrow> root_ge a t"
  by (cases t) auto

lemma heap_up: "heap (relink t (f # fs)) \<Longrightarrow> heap (relink t fs)"
proof -
  assume h: "heap (relink t (f # fs))"
  then have "heap (link f t)" using heap_relink_sub by simp
  moreover obtain isLeft k v p other where f: "f = Frame isLeft k v p other" by (cases f)
  ultimately have t: "heap t" "root_ge p t" by (auto split: if_splits)
  have "root_ge b (link f t) \<Longrightarrow> root_ge b t" for b using t(2) root_ge_trans [of p t b] root_ge_link [of b f t] f by simp
  then show ?thesis using heap_replace [of "link f t" fs t] h t(1) by simp
qed

lemma heap_rotate_up:
  "root_ge p l \<Longrightarrow> root_ge p r \<Longrightarrow> heap (relink l fs) \<Longrightarrow> heap (relink r fs) \<Longrightarrow> heap (rotate_up (Tnode k v p l r) fs)"
proof (induction fs arbitrary: l r)
  case (Cons f fs)
  obtain isLeft fk fv fp other where f: "f = Frame isLeft fk fv fp other" by (cases f)
  have "heap (link f l)" "heap (link f r)" using Cons.prems heap_relink_sub by simp_all
  then have lr: "heap l" "heap r" "root_ge fp l" "root_ge fp r" by (auto simp: f split: if_splits)
  show ?case
  proof (cases "fp \<le> p")
    case True
    have "heap (link f (Tnode k v p l r))" using lr True Cons.prems(1,2) \<open>heap (link f l)\<close> by (auto simp: f split: if_splits)
    moreover have "root_ge b (link f l) \<Longrightarrow> root_ge b (link f (Tnode k v p l r))" for b by simp
    ultimately have "heap (relink (Tnode k v p l r) (f # fs))"
      using heap_replace [of "link f l" fs "link f (Tnode k v p l r)"] Cons.prems(3) by simp
    then show ?thesis using True by (simp add: f)
  next
    case False
    have up: "heap (relink l fs)" "heap (relink r fs)" using Cons.prems heap_up by blast+
    have "heap (relink (link f l) fs)" "heap (relink (link f r) fs)" using Cons.prems by simp_all
    then show ?thesis using Cons.IH up False Cons.prems(1,2) by (cases isLeft) (simp_all add: f)
  qed
qed simp


lemma descend_heap:
  assumes "heap t" "descend key t [] = (t', fs)"
  shows "heap (relink t' fs)"
  using descend_relink [OF assms(2)] assms(1) by simp

lemma Put_heap:
  assumes "heap (tr_root t)"
  shows "heap (tr_root (Put key val rnd t))"
proof -
  obtain t' fs where d: "descend key (tr_root t) [] = (t', fs)" by (cases "descend key (tr_root t) []")
  note h = descend_heap [OF assms d]
  show ?thesis
  proof (cases t')
    case Nil_node
    then show ?thesis using d h heap_rotate_up [of rnd Nil_node Nil_node fs] by (simp add: Put_def Let_def)
  next
    case (Tnode k v p l r)
    have "heap (Tnode k v p l r)" using h Tnode heap_relink_sub by blast
    then have "heap (relink (Tnode k x p l r) fs)" for x
      using heap_replace [OF h [unfolded Tnode], of "Tnode k x p l r"] by simp
    moreover have "tr_root t \<noteq> Nil_node" using d Tnode by auto
    ultimately show ?thesis using d Tnode by (simp add: Put_def Let_def)
  qed
qed

lemma sink_root:
  "sink k v p l r = Tnode k' v' p' l' r' \<Longrightarrow> (\<exists>a b c. l = Tnode k' v' p' a b) \<or> (\<exists>a b. r = Tnode k' v' p' a b)"
  by (induction k v p l r rule: sink.induct) (auto split: if_splits)

section \<open>The interface of an ordered store\<close>

text \<open>
  What the database cache relies on: a map from keys to values, the pairs of which can be visited in the
  order of the keys.
\<close>

locale ordered_store =
  fixes ok :: "'m \<Rightarrow> bool"
    and look :: "'m \<Rightarrow> bytes \<rightharpoonup> bytes"
    and pairs :: "'m \<Rightarrow> (bytes \<times> bytes) list"
    and get :: "'m \<Rightarrow> bytes \<Rightarrow> bytes option"
    and put :: "bytes \<Rightarrow> bytes option \<Rightarrow> int \<Rightarrow> 'm \<Rightarrow> 'm"
    and del :: "bytes \<Rightarrow> 'm \<Rightarrow> 'm"
  assumes pairs_sorted: "ok m \<Longrightarrow> sorted_wrt (<) (map fst (pairs m))"
    and pairs_look: "ok m \<Longrightarrow> map_of (pairs m) = look m"
    and get_look: "ok m \<Longrightarrow> get m k = look m k"
    and put_ok: "ok m \<Longrightarrow> ok (put k v rnd m)"
    and put_look: "ok m \<Longrightarrow> look (put k v rnd m) = (look m)(k \<mapsto> (case v of None \<Rightarrow> [] | Some x \<Rightarrow> x))"
    and del_ok: "ok m \<Longrightarrow> ok (del k m)"
    and del_look: "ok m \<Longrightarrow> look (del k m) = (look m)(k := None)"
begin

lemma pairs_set: "ok m \<Longrightarrow> set (pairs m) = {(k, v). look m k = Some v}"
proof -
  assume ok: "ok m"
  then have "distinct (map fst (pairs m))" using pairs_sorted strict_sorted_iff by blast
  then have "(k, v) \<in> set (pairs m) \<longleftrightarrow> look m k = Some v" for k v
    unfolding pairs_look [OF ok, symmetric] by (simp add: map_of_eq_Some_iff)
  then show ?thesis by auto
qed

text \<open>The pairs depend on the contents alone, not on the operations and priorities that led to them.\<close>

lemma pairs_unique:
  assumes "ok m" "ok m'" "look m = look m'"
  shows "pairs m = pairs m'"
proof -
  have s: "set (pairs m) = set (pairs m')" using pairs_set assms by simp
  have "map fst (pairs m) = map fst (pairs m')"
    using pairs_sorted assms(1,2) s by (metis (no_types) list.set_map sorted_distinct_set_unique strict_sorted_iff)
  moreover have "inj_on fst (set (pairs m) \<union> set (pairs m'))"
    using pairs_set assms by (auto simp: inj_on_def)
  ultimately show ?thesis by (rule map_inj_on)
qed

lemma finite_look: "ok m \<Longrightarrow> finite (dom (look m))"
  using pairs_look finite_dom_map_of by metis

lemma length_pairs: "ok m \<Longrightarrow> length (pairs m) = card (dom (look m))"
proof -
  assume ok: "ok m"
  then have "distinct (map fst (pairs m))" using pairs_sorted strict_sorted_iff by blast
  moreover have "dom (look m) = set (map fst (pairs m))" using pairs_set [OF ok] by force
  ultimately show ?thesis using distinct_card by fastforce
qed

lemma del_put: "ok m \<Longrightarrow> look m k = None \<Longrightarrow> pairs (del k (put k v rnd m)) = pairs m"
  by (rule pairs_unique) (simp_all add: put_ok del_ok put_look del_look fun_upd_idem)

end

lemma treap_ok_ordered: "treap_ok t \<Longrightarrow> ordered (tr_root t)"
  by (simp add: treap_ok_def)

interpretation treap_store: ordered_store treap_ok contents "\<lambda>t. inorder (tr_root t)" Get Put Delete
proof
  fix m assume "treap_ok m"
  then show "sorted_wrt (<) (map fst (inorder (tr_root m)))" by (simp add: treap_ok_def ordered_def)
qed (simp_all add: Put_ok Delete_ok Get_contents treap_ok_ordered, simp add: contents_def)

section \<open>Runs\<close>

datatype treap_op = OpPut bytes "bytes option" int | OpDelete bytes

fun run_op :: "treap_op \<Rightarrow> treap \<Rightarrow> treap" where
  "run_op (OpPut k v rnd) t = Put k v rnd t"
| "run_op (OpDelete k) t = Delete k t"

fun map_op :: "treap_op \<Rightarrow> (bytes \<rightharpoonup> bytes) \<Rightarrow> (bytes \<rightharpoonup> bytes)" where
  "map_op (OpPut k v rnd) m = m(k \<mapsto> (case v of None \<Rightarrow> [] | Some x \<Rightarrow> x))"
| "map_op (OpDelete k) m = m(k := None)"

lemma run_ok:
  "treap_ok t \<Longrightarrow> treap_ok (fold run_op ops t) \<and> contents (fold run_op ops t) = fold map_op ops (contents t)"
proof (induction ops arbitrary: t)
  case (Cons op ops)
  then have "treap_ok (run_op op t)" "contents (run_op op t) = map_op op (contents t)"
    by (cases op; simp add: Put_ok Delete_ok)+
  then show ?case using Cons.IH by simp
qed simp




section \<open>Properties\<close>

text \<open>
  C12: a treap implements a map: after any sequence of insertions and deletions, with any priorities, a
  lookup returns what the same sequence leaves in a map, the count is the number of keys, and \<open>ForEach\<close>
  visits exactly the pairs of the map in ascending order of their keys.
\<close>

theorem treap_refines_map:
  fixes ops :: "treap_op list" and k :: bytes
  defines "t \<equiv> fold run_op ops NewTreap" and "m \<equiv> fold map_op ops Map.empty"
  shows "Get t k = m k \<and> (Has t k \<longleftrightarrow> m k \<noteq> None) \<and> tr_count t = int (card (dom m))
    \<and> map_of (ForEach (\<lambda>k v acc. (True, acc @ [(k, v)])) t []) = m
    \<and> sorted_wrt (<) (map fst (ForEach (\<lambda>k v acc. (True, acc @ [(k, v)])) t []))"
proof -
  have t: "treap_ok t" "contents t = m"
    using run_ok [OF NewTreap_ok(1), of ops] NewTreap_ok(2) by (simp_all add: t_def m_def)
  have "fold (\<lambda>(k, v) acc. acc @ [(k, v)]) xs acc = acc @ xs" for xs acc :: "(bytes \<times> bytes) list"
    by (induction xs arbitrary: acc) auto
  then have f: "ForEach (\<lambda>k v acc. (True, acc @ [(k, v)])) t [] = inorder (tr_root t)"
    by (simp add: ForEach_visit visit_fold)
  show ?thesis
    using t treap_store.get_look [OF t(1)] treap_store.pairs_look [OF t(1)] treap_store.pairs_sorted [OF t(1)]
      treap_store.length_pairs [OF t(1)] Get_contents(2) [of t k]
    by (simp add: f treap_ok_def)
qed

text \<open>C30: insertions alone keep the priorities of a treap in the order of a min-heap.\<close>

theorem PutAll_keeps_heap: "heap (tr_root (PutAll kvs NewTreap))"
proof -
  have "heap (tr_root t) \<Longrightarrow> heap (tr_root (PutAll kvs t))" for t
    by (induction kvs arbitrary: t) (auto simp: PutAll_def Put_heap)
  then show ?thesis by (simp add: NewTreap_def)
qed



end
