(* ===== verification/Treap_Iterator.thy ===== *)
theory Treap_Iterator
  imports Treap
begin

text \<open>
  Iteration over a treap, \<open>database/internal/treap/treapiter.go\<close>. The node an iterator stands at and its
  stack of parents are a node with the path that leads to it.
\<close>

section \<open>Iterators\<close>

text \<open>\<open>it_treap\<close> is the root of the mutable treap the iterator is associated with, if it is one.\<close>

record iterator =
  it_treap :: "treapNode option"
  it_root :: treapNode
  it_node :: treapNode
  it_parents :: "frame list"
  it_isNew :: bool
  it_seekKey :: "bytes option"
  it_startKey :: "bytes option"
  it_limitKey :: "bytes option"


definition Immutable_Iterator :: "treap \<Rightarrow> bytes option \<Rightarrow> bytes option \<Rightarrow> iterator" where
  "Immutable_Iterator t start limit = \<lparr>it_treap = None, it_root = tr_root t, it_node = Nil_node, it_parents = [],
     it_isNew = True, it_seekKey = None, it_startKey = start, it_limitKey = limit\<rparr>"

definition below_start :: "iterator \<Rightarrow> bytes \<Rightarrow> bool" where
  "below_start it k = (case it_startKey it of None \<Rightarrow> False | Some s \<Rightarrow> k < s)"

definition past_limit :: "iterator \<Rightarrow> bytes \<Rightarrow> bool" where
  "past_limit it k = (case it_limitKey it of None \<Rightarrow> False | Some l \<Rightarrow> l \<le> k)"

definition limitIterator :: "iterator \<Rightarrow> bool \<times> iterator" where
  "limitIterator it =
    (case it_node it of Nil_node \<Rightarrow> (False, it)
     | Tnode k v p l r \<Rightarrow>
        if below_start it k then (False, it\<lparr>it_node := Nil_node\<rparr>)
        else if past_limit it k then (False, it\<lparr>it_node := Nil_node\<rparr>)
        else (True, it))"

text \<open>The loop of \<open>seek\<close>: the last argument is the node selected so far, with the path to it.\<close>

fun seek_loop ::
  "bytes \<Rightarrow> bool \<Rightarrow> bool \<Rightarrow> treapNode \<Rightarrow> frame list \<Rightarrow> treapNode \<times> frame list \<Rightarrow> treapNode \<times> frame list" where
  "seek_loop key exactMatch gtr Nil_node path sel = sel"
| "seek_loop key exactMatch gtr (Tnode k v p l r) path sel =
    (if key < k then
       seek_loop key exactMatch gtr l (Frame True k v p r # path)
         (if gtr then (Tnode k v p l r, path) else sel)
     else if key > k then
       seek_loop key exactMatch gtr r (Frame False k v p l # path)
         (if \<not> gtr then (Tnode k v p l r, path) else sel)
     else if exactMatch then (Tnode k v p l r, path)
     else if gtr then seek_loop key exactMatch gtr r (Frame False k v p l # path) sel
     else seek_loop key exactMatch gtr l (Frame True k v p r # path) sel)"

definition seek :: "bytes \<Rightarrow> bool \<Rightarrow> bool \<Rightarrow> iterator \<Rightarrow> bool \<times> iterator" where
  "seek key exactMatch gtr it =
    (case seek_loop key exactMatch gtr (it_root it) [] (Nil_node, []) of
       (node, path) \<Rightarrow> limitIterator (it\<lparr>it_node := node, it_parents := path\<rparr>))"

fun leftmost :: "treapNode \<Rightarrow> frame list \<Rightarrow> treapNode \<times> frame list" where
  "leftmost Nil_node path = (Nil_node, path)"
| "leftmost (Tnode k v p l r) path =
    (if l = Nil_node then (Tnode k v p l r, path) else leftmost l (Frame True k v p r # path))"

fun rightmost :: "treapNode \<Rightarrow> frame list \<Rightarrow> treapNode \<times> frame list" where
  "rightmost Nil_node path = (Nil_node, path)"
| "rightmost (Tnode k v p l r) path =
    (if r = Nil_node then (Tnode k v p l r, path) else rightmost r (Frame False k v p l # path))"

text \<open>Without a start key, \<open>First\<close> leaves the current node alone when the treap is empty.\<close>

definition First :: "iterator \<Rightarrow> bool \<times> iterator" where
  "First it =
    (let it = it\<lparr>it_isNew := False\<rparr> in
     case it_startKey it of
       Some s \<Rightarrow> seek s True True it
     | None \<Rightarrow>
        (case leftmost (it_root it) [] of
           (Nil_node, _) \<Rightarrow> (False, it\<lparr>it_parents := []\<rparr>)
         | (node, path) \<Rightarrow> (True, it\<lparr>it_node := node, it_parents := path\<rparr>)))"

definition Last :: "iterator \<Rightarrow> bool \<times> iterator" where
  "Last it =
    (let it = it\<lparr>it_isNew := False\<rparr> in
     case it_limitKey it of
       Some l \<Rightarrow> seek l False False it
     | None \<Rightarrow>
        (case rightmost (it_root it) [] of
           (Nil_node, _) \<Rightarrow> (False, it\<lparr>it_parents := []\<rparr>)
         | (node, path) \<Rightarrow> (True, it\<lparr>it_node := node, it_parents := path\<rparr>)))"

text \<open>Walking up while the path comes from the right (for \<open>Next\<close>) or from the left (for \<open>Prev\<close>).\<close>

fun climb :: "bool \<Rightarrow> treapNode \<Rightarrow> frame list \<Rightarrow> treapNode \<times> frame list" where
  "climb fromLeft node [] = (Nil_node, [])"
| "climb fromLeft node (f # path) =
    (if f_left f = fromLeft then climb fromLeft (link f node) path else (link f node, path))"


definition Prev :: "iterator \<Rightarrow> bool \<times> iterator" where
  "Prev it =
    (if it_isNew it then Last it
     else case it_node it of
       Nil_node \<Rightarrow> (False, it)
     | Tnode k v p l r \<Rightarrow>
        (case it_seekKey it of
           Some key \<Rightarrow> seek key False False (it\<lparr>it_seekKey := None\<rparr>)
         | None \<Rightarrow>
            (case (if l = Nil_node then climb True (Tnode k v p l r) (it_parents it)
                   else rightmost l (Frame True k v p r # it_parents it)) of
               (node, path) \<Rightarrow> limitIterator (it\<lparr>it_node := node, it_parents := path\<rparr>))))"

definition Seek :: "bytes \<Rightarrow> iterator \<Rightarrow> bool \<times> iterator" where
  "Seek key it = seek key True True (it\<lparr>it_isNew := False\<rparr>)"

definition Key :: "iterator \<Rightarrow> bytes option" where
  "Key it = (case it_node it of Nil_node \<Rightarrow> None | Tnode k v p l r \<Rightarrow> Some k)"


definition Valid :: "iterator \<Rightarrow> bool" where
  "Valid it \<longleftrightarrow> it_node it \<noteq> Nil_node"

text \<open>\<open>ForceReseek\<close> after the mutable treap has changed to one with the root \<open>root\<close>.\<close>

definition ForceReseek :: "treapNode \<Rightarrow> iterator \<Rightarrow> iterator" where
  "ForceReseek root it =
    (case it_treap it of None \<Rightarrow> it
     | Some _ \<Rightarrow> it\<lparr>it_treap := Some root, it_root := root, it_seekKey := Key it\<rparr>)"


section \<open>The rest of an iteration\<close>

text \<open>The pairs from the node of an iterator on, in ascending order.\<close>

fun upcoming :: "treapNode \<times> frame list \<Rightarrow> (bytes \<times> bytes) list" where
  "upcoming (Nil_node, path) = []"
| "upcoming (Tnode k v p l r, path) = (k, v) # inorder r @ after path"


lemma upcoming_leftmost: "t \<noteq> Nil_node \<Longrightarrow> upcoming (leftmost t path) = inorder t @ after path"
  by (induction t path rule: leftmost.induct) auto









section \<open>Collecting the pairs of a range\<close>




lemma iter_bounds_upd [simp]:
  "below_start (it\<lparr>it_node := n, it_parents := ps\<rparr>) = below_start it" "past_limit (it\<lparr>it_node := n, it_parents := ps\<rparr>) = past_limit it"
  "below_start (it\<lparr>it_isNew := b\<rparr>) = below_start it" "past_limit (it\<lparr>it_isNew := b\<rparr>) = past_limit it"
  by (simp_all add: fun_eq_iff below_start_def past_limit_def)






section \<open>Properties\<close>



text \<open>
  With a limit and no start, \<open>First\<close> stands on the smallest key of the treap without looking at the
  limit, so the first pair of an iteration may lie outside the range.
\<close>

theorem First_ignores_limit:
  assumes "tr_root t \<noteq> Nil_node"
  shows "fst (First (Immutable_Iterator t None (Some limit)))
    \<and> Key (snd (First (Immutable_Iterator t None (Some limit)))) = Some (fst (hd (inorder (tr_root t))))"
proof -
  obtain node path where c: "leftmost (tr_root t) [] = (node, path)" by (cases "leftmost (tr_root t) []")
  then have u: "upcoming (node, path) = inorder (tr_root t)" using upcoming_leftmost [OF assms, of "[]"] by simp
  then obtain k v p l r where n: "node = Tnode k v p l r" using assms Nil_inorder [of "tr_root t"] by (cases node) auto
  then have "hd (inorder (tr_root t)) = (k, v)" using u by (metis list.sel(1) upcoming.simps(2))
  then show ?thesis using c n by (simp add: First_def Immutable_Iterator_def Key_def Let_def)
qed

theorem First_ignores_limit_witness:
  "fst (First (Immutable_Iterator (PutAll [([9], Some [5], 1)] NewTreap) None (Some [3])))
   \<and> Key (snd (First (Immutable_Iterator (PutAll [([9], Some [5], 1)] NewTreap) None (Some [3])))) = Some [9]"
proof -
  have r: "tr_root (PutAll [([9], Some [5], 1)] NewTreap) = Tnode [9] [5] 1 Nil_node Nil_node"
    by (simp add: PutAll_def NewTreap_def Put_def Let_def)
  then have "tr_root (PutAll [([9], Some [5], 1)] NewTreap) \<noteq> Nil_node" by simp
  from First_ignores_limit [OF this, of "[3]"] show ?thesis by (simp add: r)
qed

end
