(* ===== verification/Db_Cache.thy ===== *)
theory Db_Cache
  imports Treap_Iterator Sugar_Db
begin

text \<open>
  The metadata side of the block database, \<open>database/ffldb\<close>: the cache of \<open>dbcache.go\<close> between transactions
  and LevelDB, and the key operations of a transaction in \<open>db.go\<close>. LevelDB is a parameter, a record of the
  calls the cache makes; a snapshot of it is its value at that moment. Operations return the error, if any,
  with the new state, because a failed commit leaves a state behind.
\<close>

section \<open>LevelDB as the cache uses it\<close>

text \<open>
  \<open>fl_Get\<close> and \<open>fl_Has\<close> read from a snapshot; the code treats an error as an absent key. A transaction
  collects operations, each of which may be refused, and commits them at once.
\<close>

record 'db ldb =
  fl_GetSnapshot :: "'db \<Rightarrow> ldb_error option"
  fl_Get :: "'db \<Rightarrow> bytes \<Rightarrow> bytes option"
  fl_Has :: "'db \<Rightarrow> bytes \<Rightarrow> bool"
  fl_OpenTransaction :: "'db \<Rightarrow> ldb_error option"
  fl_Add :: "'db \<Rightarrow> batch \<Rightarrow> batch_op \<Rightarrow> ldb_error option"
  fl_Commit :: "'db \<Rightarrow> batch \<Rightarrow> ldb_error + 'db"

locale ldb_spec =
  fixes D :: "'db ldb"
    and I :: "'db \<Rightarrow> bool"
    and stored :: "'db \<Rightarrow> (bytes \<rightharpoonup> bytes)"
  assumes fl_get: "I db \<Longrightarrow> fl_Get D db k = stored db k"
    and fl_has: "I db \<Longrightarrow> fl_Has D db k \<longleftrightarrow> stored db k \<noteq> None"
    and fl_commit: "I db \<Longrightarrow> fl_Commit D db b = Inr db' \<Longrightarrow> I db' \<and> stored db' = apply_batch b (stored db)"

section \<open>The cache (\<open>dbcache.go\<close>)\<close>

record 'db dbCacheSnapshot =
  sn_dbSnapshot :: 'db
  sn_pendingKeys :: treap
  sn_pendingRemove :: treap

definition snap_Has :: "'db ldb \<Rightarrow> 'db dbCacheSnapshot \<Rightarrow> bytes \<Rightarrow> bool" where
  "snap_Has D snap key =
    (if Has (sn_pendingRemove snap) key then False
     else if Has (sn_pendingKeys snap) key then True
     else fl_Has D (sn_dbSnapshot snap) key)"

definition snap_Get :: "'db ldb \<Rightarrow> 'db dbCacheSnapshot \<Rightarrow> bytes \<Rightarrow> bytes option" where
  "snap_Get D snap key =
    (if Has (sn_pendingRemove snap) key then None
     else case Get (sn_pendingKeys snap) key of Some value \<Rightarrow> Some value
       | None \<Rightarrow> fl_Get D (sn_dbSnapshot snap) key)"

record 'db dbCache =
  dc_ldb :: 'db
  dc_maxSize :: u64
  dc_flushInterval :: int
  dc_lastFlush :: int
  dc_cachedKeys :: treap
  dc_cachedRemove :: treap

text \<open>\<open>Snapshot\<close> first takes a snapshot of LevelDB and then, under the cache lock, the two treaps.\<close>

definition Snapshot_db :: "'db ldb \<Rightarrow> 'db dbCache \<Rightarrow> ldb_error + 'db" where
  "Snapshot_db D c = (case fl_GetSnapshot D (dc_ldb c) of Some e \<Rightarrow> Inl e | None \<Rightarrow> Inr (dc_ldb c))"

definition Snapshot_treaps :: "'db \<Rightarrow> 'db dbCache \<Rightarrow> 'db dbCacheSnapshot" where
  "Snapshot_treaps dbSnapshot c =
    \<lparr>sn_dbSnapshot = dbSnapshot, sn_pendingKeys = dc_cachedKeys c, sn_pendingRemove = dc_cachedRemove c\<rparr>"

definition Snapshot :: "'db ldb \<Rightarrow> 'db dbCache \<Rightarrow> ldb_error + 'db dbCacheSnapshot" where
  "Snapshot D c = (case Snapshot_db D c of Inl e \<Rightarrow> Inl e | Inr dbSnapshot \<Rightarrow> Inr (Snapshot_treaps dbSnapshot c))"

datatype cache_error = CacheErr ldb_error | ErrSync | ProcessExit

definition updateDB :: "'db ldb \<Rightarrow> ('db \<Rightarrow> ldb_error + batch) \<Rightarrow> 'db \<Rightarrow> ldb_error + 'db" where
  "updateDB D fn db =
    (case fl_OpenTransaction D db of Some e \<Rightarrow> Inl e
     | None \<Rightarrow> (case fn db of Inl e \<Rightarrow> Inl e | Inr b \<Rightarrow> fl_Commit D db b))"

text \<open>
  The two calls of \<open>ForEach\<close> in \<open>commitTreaps\<close>; the state of the callback is the transaction so far and
  \<open>innerErr\<close>.
\<close>

definition add_ops ::
  "'db ldb \<Rightarrow> 'db \<Rightarrow> (bytes \<Rightarrow> bytes \<Rightarrow> batch_op) \<Rightarrow> treap \<Rightarrow> batch \<times> ldb_error option \<Rightarrow> batch \<times> ldb_error option" where
  "add_ops D db mk t s =
    ForEach (\<lambda>k v (b, innerErr).
      case fl_Add D db b (mk k v) of Some e \<Rightarrow> (False, (b, Some e)) | None \<Rightarrow> (True, (b @ [mk k v], innerErr))) t s"

definition commitTreaps :: "'db ldb \<Rightarrow> treap \<Rightarrow> treap \<Rightarrow> 'db \<Rightarrow> ldb_error + 'db" where
  "commitTreaps D pendingKeys pendingRemove db =
    updateDB D (\<lambda>db.
      case add_ops D db BPut pendingKeys ([], None) of
        (b, Some e) \<Rightarrow> Inl e
      | (b, None) \<Rightarrow>
         (case add_ops D db (\<lambda>k v. BDelete k) pendingRemove (b, None) of
            (b, Some e) \<Rightarrow> Inl e | (b, None) \<Rightarrow> Inr b)) db"

text \<open>
  \<open>flush\<close>: \<open>now\<close> is the time, \<open>sync_ok\<close> whether \<open>syncBlocks\<close> succeeds, and \<open>nospace\<close> says which errors are
  \<open>ENOSPC\<close>, on which the process exits.
\<close>

definition flush ::
  "'db ldb \<Rightarrow> (ldb_error \<Rightarrow> bool) \<Rightarrow> int \<Rightarrow> bool \<Rightarrow> 'db dbCache \<Rightarrow> cache_error option \<times> 'db dbCache" where
  "flush D nospace now sync_ok c =
    (let c = c\<lparr>dc_lastFlush := now\<rparr> in
     if \<not> sync_ok then (Some ErrSync, c)
     else if tr_count (dc_cachedKeys c) = 0 \<and> tr_count (dc_cachedRemove c) = 0 then (None, c)
     else case commitTreaps D (dc_cachedKeys c) (dc_cachedRemove c) (dc_ldb c) of
       Inl e \<Rightarrow> (Some (if nospace e then ProcessExit else CacheErr e), c)
     | Inr db \<Rightarrow> (None, c\<lparr>dc_ldb := db, dc_cachedKeys := NewTreap, dc_cachedRemove := NewTreap\<rparr>))"

text \<open>\<open>Close\<close>: the last argument is what closing LevelDB returns.\<close>

definition Close_cache ::
  "'db ldb \<Rightarrow> (ldb_error \<Rightarrow> bool) \<Rightarrow> int \<Rightarrow> bool \<Rightarrow> ldb_error option \<Rightarrow> 'db dbCache \<Rightarrow> cache_error option \<times> 'db dbCache" where
  "Close_cache D nospace now sync_ok close_err c =
    (case flush D nospace now sync_ok c of
       (Some e, c) \<Rightarrow> (Some e, c)
     | (None, c) \<Rightarrow> (map_option CacheErr close_err, c))"

definition newDbCache :: "'db \<Rightarrow> u64 \<Rightarrow> u32 \<Rightarrow> int \<Rightarrow> 'db dbCache" where
  "newDbCache db maxSize flushIntervalSecs now =
    \<lparr>dc_ldb = db, dc_maxSize = maxSize, dc_flushInterval = 1000000000 * uint flushIntervalSecs, dc_lastFlush = now,
     dc_cachedKeys = NewTreap, dc_cachedRemove = NewTreap\<rparr>"

section \<open>Transactions (\<open>db.go\<close>)\<close>

record 'db transaction =
  tx_writable :: bool
  tx_snapshot :: "'db dbCacheSnapshot"
  tx_pendingKeys :: treap
  tx_pendingRemove :: treap

definition begin_tx :: "'db ldb \<Rightarrow> bool \<Rightarrow> 'db dbCache \<Rightarrow> ldb_error + 'db transaction" where
  "begin_tx D writable c =
    (case Snapshot D c of Inl e \<Rightarrow> Inl e
     | Inr snapshot \<Rightarrow> Inr \<lparr>tx_writable = writable, tx_snapshot = snapshot,
         tx_pendingKeys = NewTreap, tx_pendingRemove = NewTreap\<rparr>)"

definition hasKey :: "'db ldb \<Rightarrow> 'db transaction \<Rightarrow> bytes \<Rightarrow> bool" where
  "hasKey D tx key =
    (if tx_writable tx \<and> Has (tx_pendingRemove tx) key then False
     else if tx_writable tx \<and> Has (tx_pendingKeys tx) key then True
     else snap_Has D (tx_snapshot tx) key)"

definition fetchKey :: "'db ldb \<Rightarrow> 'db transaction \<Rightarrow> bytes \<Rightarrow> bytes option" where
  "fetchKey D tx key =
    (if tx_writable tx \<and> Has (tx_pendingRemove tx) key then None
     else case (if tx_writable tx then Get (tx_pendingKeys tx) key else None) of Some value \<Rightarrow> Some value
       | None \<Rightarrow> snap_Get D (tx_snapshot tx) key)"

text \<open>The random priorities of new nodes are the arguments \<open>rnd\<close>.\<close>

definition putKey :: "bytes \<Rightarrow> bytes option \<Rightarrow> int \<Rightarrow> 'db transaction \<Rightarrow> 'db transaction" where
  "putKey key value rnd tx = tx\<lparr>tx_pendingRemove := Delete key (tx_pendingRemove tx),
     tx_pendingKeys := Put key value rnd (tx_pendingKeys tx)\<rparr>"

definition deleteKey :: "bytes \<Rightarrow> int \<Rightarrow> 'db transaction \<Rightarrow> 'db transaction" where
  "deleteKey key rnd tx = tx\<lparr>tx_pendingKeys := Delete key (tx_pendingKeys tx),
     tx_pendingRemove := Put key None rnd (tx_pendingRemove tx)\<rparr>"

text \<open>\<open>scale\<close> is the multiplication by 1.5 in floating point.\<close>

definition needsFlush :: "(u64 \<Rightarrow> u64) \<Rightarrow> int \<Rightarrow> 'db transaction \<Rightarrow> 'db dbCache \<Rightarrow> bool" where
  "needsFlush scale now tx c \<longleftrightarrow>
    now - dc_lastFlush c > dc_flushInterval c \<or>
    scale (tr_totalSize (sn_pendingKeys (tx_snapshot tx)) + tr_totalSize (sn_pendingRemove (tx_snapshot tx))) > dc_maxSize c"

text \<open>
  The pairs that a \<open>ForEach\<close> of \<open>commitTx\<close> collects and the treap from which it deletes their keys.
\<close>

definition collect_pairs :: "treap \<Rightarrow> treap \<Rightarrow> (bytes \<times> bytes) list \<times> treap" where
  "collect_pairs pending other = ForEach (\<lambda>k v (kvs, t). (True, (kvs @ [(k, v)], Delete k t))) pending ([], other)"

definition put_pairs :: "(bytes \<Rightarrow> int) \<Rightarrow> (bytes \<times> bytes) list \<Rightarrow> treap \<Rightarrow> treap" where
  "put_pairs rnd kvs t = PutAll (map (\<lambda>(k, v). (k, Some v, rnd k)) kvs) t"

text \<open>
  \<open>commitTx\<close> consumes the transaction: when it succeeds its two treaps are dropped.
\<close>

definition commitTx ::
  "'db ldb \<Rightarrow> (ldb_error \<Rightarrow> bool) \<Rightarrow> (u64 \<Rightarrow> u64) \<Rightarrow> (bytes \<Rightarrow> int) \<Rightarrow> int \<Rightarrow> bool \<Rightarrow> 'db transaction \<Rightarrow> 'db dbCache \<Rightarrow>
   cache_error option \<times> 'db dbCache" where
  "commitTx D nospace scale rnd now sync_ok tx c =
    (if needsFlush scale now tx c then
       (case flush D nospace now sync_ok c of
          (Some e, c) \<Rightarrow> (Some e, c)
        | (None, c) \<Rightarrow>
           (case commitTreaps D (tx_pendingKeys tx) (tx_pendingRemove tx) (dc_ldb c) of
              Inl e \<Rightarrow> (Some (CacheErr e), c)
            | Inr db \<Rightarrow> (None, c\<lparr>dc_ldb := db\<rparr>)))
     else
       case collect_pairs (tx_pendingKeys tx) (dc_cachedRemove c) of
         (kvs, newCachedRemove) \<Rightarrow>
       (case collect_pairs (tx_pendingRemove tx) (put_pairs rnd kvs (dc_cachedKeys c)) of
         (rkvs, newCachedKeys) \<Rightarrow>
           (None, c\<lparr>dc_cachedKeys := newCachedKeys, dc_cachedRemove := put_pairs rnd rkvs newCachedRemove\<rparr>)))"

section \<open>The view of the cache\<close>

text \<open>The map a reader sees: the pairs to add and the keys to remove, laid over a map.\<close>

definition overlay :: "treap \<Rightarrow> treap \<Rightarrow> (bytes \<rightharpoonup> bytes) \<Rightarrow> (bytes \<rightharpoonup> bytes)" where
  "overlay adds removes m k =
    (if contents removes k \<noteq> None then None else case contents adds k of Some v \<Rightarrow> Some v | None \<Rightarrow> m k)"

definition cache_ok :: "'db dbCache \<Rightarrow> bool" where
  "cache_ok c \<longleftrightarrow> treap_ok (dc_cachedKeys c) \<and> treap_ok (dc_cachedRemove c)"

definition view :: "('db \<Rightarrow> (bytes \<rightharpoonup> bytes)) \<Rightarrow> 'db dbCache \<Rightarrow> (bytes \<rightharpoonup> bytes)" where
  "view stored c = overlay (dc_cachedKeys c) (dc_cachedRemove c) (stored (dc_ldb c))"

definition tx_ok :: "'db transaction \<Rightarrow> bool" where
  "tx_ok tx \<longleftrightarrow> treap_ok (tx_pendingKeys tx) \<and> treap_ok (tx_pendingRemove tx)
     \<and> treap_ok (sn_pendingKeys (tx_snapshot tx)) \<and> treap_ok (sn_pendingRemove (tx_snapshot tx))
     \<and> (\<forall>k. contents (tx_pendingKeys tx) k = None \<or> contents (tx_pendingRemove tx) k = None)"

definition snap_view :: "('db \<Rightarrow> (bytes \<rightharpoonup> bytes)) \<Rightarrow> 'db dbCacheSnapshot \<Rightarrow> (bytes \<rightharpoonup> bytes)" where
  "snap_view stored s = overlay (sn_pendingKeys s) (sn_pendingRemove s) (stored (sn_dbSnapshot s))"

definition tx_view :: "('db \<Rightarrow> (bytes \<rightharpoonup> bytes)) \<Rightarrow> 'db transaction \<Rightarrow> (bytes \<rightharpoonup> bytes)" where
  "tx_view stored tx = overlay (tx_pendingKeys tx) (tx_pendingRemove tx) (snap_view stored (tx_snapshot tx))"

lemma overlay_new [simp]: "overlay NewTreap NewTreap m = m"
  by (simp add: overlay_def NewTreap_ok fun_eq_iff)

lemma add_ops_ok:
  "add_ops D db mk t (b, None) = (b', None) \<Longrightarrow> b' = b @ map (\<lambda>(k, v). mk k v) (inorder (tr_root t))"
proof -
  have "visit (\<lambda>k v (b, innerErr).
      case fl_Add D db b (mk k v) of Some e \<Rightarrow> (False, (b, Some e)) | None \<Rightarrow> (True, (b @ [mk k v], innerErr))) xs (b, None)
      = (b', None) \<Longrightarrow> b' = b @ map (\<lambda>(k, v). mk k v) xs" for xs
  proof (induction xs arbitrary: b)
    case (Cons x xs)
    obtain k v where x: "x = (k, v)" by fastforce
    show ?case using Cons.prems Cons.IH [of "b @ [mk k v]"] by (simp add: x split: option.splits)
  qed simp
  then show "add_ops D db mk t (b, None) = (b', None) \<Longrightarrow> ?thesis" by (simp add: add_ops_def ForEach_visit)
qed

lemma map_of_rev_distinct: "distinct (map fst xs) \<Longrightarrow> map_of (rev xs) = map_of xs"
proof (induction xs)
  case (Cons x xs)
  have "map_of xs (fst x) = None" using Cons.prems by (simp add: map_of_eq_None_iff)
  then show ?case using Cons by (auto simp: map_add_def fun_eq_iff split: option.split)
qed simp

lemma apply_puts:
  "distinct (map fst xs) \<Longrightarrow> apply_batch (map (\<lambda>(k, v). BPut k v) xs) m k = (case map_of xs k of Some v \<Rightarrow> Some v | None \<Rightarrow> m k)"
proof (induction xs arbitrary: m)
  case (Cons x xs)
  obtain k' v where x: "x = (k', v)" by fastforce
  have "map_of xs k' = None" using Cons.prems by (simp add: x map_of_eq_None_iff)
  then show ?case using Cons.prems Cons.IH [of "m(k' \<mapsto> v)"]
    by (cases "map_of xs k"; cases "k = k'") (simp_all add: x fun_upd_same fun_upd_other del: map_of_eq_Some_iff fun_upd_apply)
qed simp

lemma apply_deletes:
  "apply_batch (map (\<lambda>(k, v). BDelete k) xs) m k = (if map_of xs k \<noteq> None then None else m k)"
  by (induction xs arbitrary: m) auto

lemma treap_ok_distinct: "treap_ok t \<Longrightarrow> distinct (keys_of (inorder (tr_root t)))"
  by (simp add: treap_ok_def ordered_def strict_sorted_iff)

lemma collect_pairs_ok:
  assumes "treap_ok t"
  shows "fst (collect_pairs pending t) = inorder (tr_root pending)"
    and "treap_ok (snd (collect_pairs pending t))"
    and "contents (snd (collect_pairs pending t)) k = (if contents pending k \<noteq> None then None else contents t k)"
proof (atomize (full))
  have "fst (visit (\<lambda>k v (kvs, t). (True, (kvs @ [(k, v)], Delete k t))) xs (ys, t)) = ys @ xs
      \<and> treap_ok (snd (visit (\<lambda>k v (kvs, t). (True, (kvs @ [(k, v)], Delete k t))) xs (ys, t)))
      \<and> contents (snd (visit (\<lambda>k v (kvs, t). (True, (kvs @ [(k, v)], Delete k t))) xs (ys, t))) k
        = (if map_of xs k \<noteq> None then None else contents t k)" for xs ys
    using assms
  proof (induction xs arbitrary: ys t)
    case (Cons x xs)
    obtain k' v where x: "x = (k', v)" by fastforce
    show ?case using Cons.IH [OF Delete_ok(1) [OF Cons.prems], of "ys @ [x]" k'] Delete_ok(2) [OF Cons.prems, of k']
      by (auto simp: x)
  qed simp
  from this [of "inorder (tr_root pending)" "[]"] show
    "fst (collect_pairs pending t) = inorder (tr_root pending) \<and> treap_ok (snd (collect_pairs pending t)) \<and>
     contents (snd (collect_pairs pending t)) k = (if contents pending k \<noteq> None then None else contents t k)"
    by (simp add: collect_pairs_def ForEach_visit contents_def)
qed

lemma put_pairs_ok:
  assumes "treap_ok t" "treap_ok pending"
  shows "treap_ok (put_pairs rnd (inorder (tr_root pending)) t)"
    and "contents (put_pairs rnd (inorder (tr_root pending)) t) k =
      (case contents pending k of Some v \<Rightarrow> Some v | None \<Rightarrow> contents t k)"
proof (atomize (full))
  let ?xs = "inorder (tr_root pending)"
  have m: "map ((\<lambda>(k, val, rnd). (k, case val of None \<Rightarrow> [] | Some v \<Rightarrow> v)) \<circ> (\<lambda>(k, v). (k, Some v, rnd k))) ?xs = ?xs"
    by (rule map_idI) auto
  have "map_of (rev ?xs) = map_of ?xs"
    using treap_ok_distinct [OF assms(2)] by (rule map_of_rev_distinct)
  then show "treap_ok (put_pairs rnd ?xs t) \<and> contents (put_pairs rnd ?xs t) k =
      (case contents pending k of Some v \<Rightarrow> Some v | None \<Rightarrow> contents t k)"
    using PutAll_ok [OF assms(1), of "map (\<lambda>(k, v). (k, Some v, rnd k)) ?xs"]
    by (simp add: put_pairs_def m contents_def map_add_def cong: option.case_cong)
qed

text \<open>What the cache and its transactions do, for any database that keeps the promises of LevelDB.\<close>

lemma overlay_empty: "contents a = Map.empty \<Longrightarrow> contents r = Map.empty \<Longrightarrow> overlay a r m = m"
  by (simp add: overlay_def fun_eq_iff)

lemma empty_contents: "treap_ok t \<Longrightarrow> tr_count t = 0 \<Longrightarrow> contents t = Map.empty"
  by (simp add: treap_ok_def contents_def)

lemma flush_empties:
  assumes "flush D nospace now sync_ok c = (None, c')" "cache_ok c"
  shows "contents (dc_cachedKeys c') = Map.empty \<and> contents (dc_cachedRemove c') = Map.empty"
  using assms by (auto simp: flush_def Let_def NewTreap_ok cache_ok_def empty_contents split: if_splits sum.splits)

context ldb_spec
begin

lemma commitTreaps_ok:
  assumes c: "commitTreaps D adds removes db = Inr db'" and I: "I db"
    and ok: "treap_ok adds"
  shows "I db' \<and> stored db' = overlay adds removes (stored db)"
proof -
  obtain b b2 where b: "add_ops D db BPut adds ([], None) = (b, None)"
      "add_ops D db (\<lambda>k v. BDelete k) removes (b, None) = (b2, None)" "fl_Commit D db b2 = Inr db'"
    using c by (auto simp: commitTreaps_def updateDB_def split: option.splits sum.splits prod.splits)
  have b2: "b2 = map (\<lambda>(k, v). BPut k v) (inorder (tr_root adds)) @ map (\<lambda>(k, v). BDelete k) (inorder (tr_root removes))"
    using add_ops_ok [OF b(1)] add_ops_ok [OF b(2)] by simp
  have "stored db' k = overlay adds removes (stored db) k" for k
    using fl_commit [OF I b(3)] by (simp add: b2 overlay_def contents_def apply_deletes apply_puts [OF treap_ok_distinct [OF ok]])
  then show ?thesis using fl_commit [OF I b(3)] by auto
qed

lemma flush_ok:
  assumes f: "flush D nospace now sync_ok c = (e, c')" and I: "I (dc_ldb c)" and ok: "cache_ok c"
  shows "I (dc_ldb c') \<and> cache_ok c' \<and> view stored c' = view stored c
    \<and> (e = None \<longrightarrow> stored (dc_ldb c') = view stored c)"
proof -
  have ok: "treap_ok (dc_cachedKeys c)" "treap_ok (dc_cachedRemove c)" using ok by (simp_all add: cache_ok_def)
  consider "c' = c\<lparr>dc_lastFlush := now\<rparr>" "e \<noteq> None"
    | "c' = c\<lparr>dc_lastFlush := now\<rparr>" "tr_count (dc_cachedKeys c) = 0" "tr_count (dc_cachedRemove c) = 0"
    | db where "commitTreaps D (dc_cachedKeys c) (dc_cachedRemove c) (dc_ldb c) = Inr db"
        "c' = c\<lparr>dc_lastFlush := now, dc_ldb := db, dc_cachedKeys := NewTreap, dc_cachedRemove := NewTreap\<rparr>"
    using f by (auto simp: flush_def Let_def split: if_splits sum.splits)
  then show ?thesis
  proof cases
    case 1
    then show ?thesis using I ok by (auto simp: cache_ok_def view_def)
  next
    case 2
    then show ?thesis using I ok by (simp add: cache_ok_def view_def overlay_empty empty_contents)
  next
    case 3
    then show ?thesis using commitTreaps_ok [OF 3(1) I ok(1)] by (simp add: cache_ok_def view_def NewTreap_ok)
  qed
qed

lemma cache_path_ok:
  assumes "cache_ok c" "treap_ok adds" "treap_ok removes"
    and p: "collect_pairs adds (dc_cachedRemove c) = (kvs, newRemove)"
      "collect_pairs removes (put_pairs rnd kvs (dc_cachedKeys c)) = (rkvs, newKeys)"
  shows "treap_ok newKeys \<and> treap_ok (put_pairs rnd rkvs newRemove)
    \<and> overlay newKeys (put_pairs rnd rkvs newRemove) m
      = overlay adds removes (overlay (dc_cachedKeys c) (dc_cachedRemove c) m)"
proof -
  have ok: "treap_ok (dc_cachedKeys c)" "treap_ok (dc_cachedRemove c)" using assms(1) by (simp_all add: cache_ok_def)
  note c1 = collect_pairs_ok [OF ok(2), of adds, unfolded p fst_conv snd_conv]
  note k = put_pairs_ok [OF ok(1) assms(2), of rnd, folded c1(1)]
  note c2 = collect_pairs_ok [OF k(1), of removes, unfolded p fst_conv snd_conv]
  note r = put_pairs_ok [OF c1(2) assms(3), of rnd, folded c2(1)]
  have "overlay newKeys (put_pairs rnd rkvs newRemove) m x
      = overlay adds removes (overlay (dc_cachedKeys c) (dc_cachedRemove c) m) x" for x
    unfolding overlay_def r(2) c2(3) k(2) c1(3) by (simp split: option.split)
  then show ?thesis using c2(2) r(1) by auto
qed

lemma commitTx_ok:
  assumes t: "commitTx D nospace scale rnd now sync_ok tx c = (e, c')" and I: "I (dc_ldb c)"
    and ok: "cache_ok c" "treap_ok (tx_pendingKeys tx)" "treap_ok (tx_pendingRemove tx)"
  shows "I (dc_ldb c') \<and> cache_ok c' \<and> view stored c' =
    (if e = None then overlay (tx_pendingKeys tx) (tx_pendingRemove tx) (view stored c) else view stored c)"
proof (cases "needsFlush scale now tx c")
  case True
  obtain e1 c1 where f: "flush D nospace now sync_ok c = (e1, c1)" by fastforce
  note fo = flush_ok [OF f I ok(1)]
  show ?thesis
  proof (cases e1)
    case None
    have cl: "contents (dc_cachedKeys c1) = Map.empty" "contents (dc_cachedRemove c1) = Map.empty"
      using flush_empties [of D nospace now sync_ok c c1] f None ok(1) by simp_all
    show ?thesis
    proof (cases "commitTreaps D (tx_pendingKeys tx) (tx_pendingRemove tx) (dc_ldb c1)")
      case (Inl x)
      then show ?thesis using t True f None fo by (auto simp: commitTx_def)
    next
      case (Inr db)
      have "c' = c1\<lparr>dc_ldb := db\<rparr>" "e = None" using t True f None Inr by (auto simp: commitTx_def)
      then show ?thesis using commitTreaps_ok [OF Inr _ ok(2)] fo None by (simp add: view_def cache_ok_def overlay_empty cl)
    qed
  next
    case (Some x)
    then show ?thesis using t True f fo by (auto simp: commitTx_def)
  qed
next
  case False
  obtain kvs r where p1: "collect_pairs (tx_pendingKeys tx) (dc_cachedRemove c) = (kvs, r)" by fastforce
  obtain rkvs k where p2: "collect_pairs (tx_pendingRemove tx) (put_pairs rnd kvs (dc_cachedKeys c)) = (rkvs, k)" by fastforce
  have "c' = c\<lparr>dc_cachedKeys := k, dc_cachedRemove := put_pairs rnd rkvs r\<rparr>" "e = None"
    using t False by (auto simp: commitTx_def p1 p2)
  then show ?thesis using cache_path_ok [OF ok p1 p2] I by (simp add: view_def cache_ok_def)
qed

lemma fetchKey_ok:
  assumes "tx_ok tx" "I (sn_dbSnapshot (tx_snapshot tx))" "tx_writable tx"
  shows "fetchKey D tx k = tx_view stored tx k" "hasKey D tx k \<longleftrightarrow> tx_view stored tx k \<noteq> None"
proof -
  have o: "ordered (tr_root (tx_pendingKeys tx))" "ordered (tr_root (tx_pendingRemove tx))"
    "ordered (tr_root (sn_pendingKeys (tx_snapshot tx)))" "ordered (tr_root (sn_pendingRemove (tx_snapshot tx)))"
    using assms(1) by (simp_all add: tx_ok_def treap_ok_ordered)
  show "fetchKey D tx k = tx_view stored tx k" "hasKey D tx k \<longleftrightarrow> tx_view stored tx k \<noteq> None"
    using assms(3) fl_get [OF assms(2)] fl_has [OF assms(2)]
    by (auto simp: fetchKey_def hasKey_def snap_Get_def snap_Has_def tx_view_def snap_view_def overlay_def
      Get_contents [OF o(1)] Get_contents [OF o(2)] Get_contents [OF o(3)] Get_contents [OF o(4)] split: option.splits)
qed

end

text \<open>The operations of a transaction as operations on a map, and their effect on what it sees.\<close>

datatype key_change = KeyPut bytes "bytes option" int | KeyDelete bytes int

fun tx_op :: "key_change \<Rightarrow> 'db transaction \<Rightarrow> 'db transaction" where
  "tx_op (KeyPut k v rnd) tx = putKey k v rnd tx"
| "tx_op (KeyDelete k rnd) tx = deleteKey k rnd tx"

fun key_op :: "key_change \<Rightarrow> (bytes \<rightharpoonup> bytes) \<Rightarrow> (bytes \<rightharpoonup> bytes)" where
  "key_op (KeyPut k v rnd) m = m(k \<mapsto> (case v of None \<Rightarrow> [] | Some x \<Rightarrow> x))"
| "key_op (KeyDelete k rnd) m = m(k := None)"

lemma tx_op_ok:
  assumes "tx_ok tx"
  shows "tx_ok (tx_op op tx) \<and> overlay (tx_pendingKeys (tx_op op tx)) (tx_pendingRemove (tx_op op tx)) m
     = key_op op (overlay (tx_pendingKeys tx) (tx_pendingRemove tx) m)
    \<and> tx_snapshot (tx_op op tx) = tx_snapshot tx \<and> tx_writable (tx_op op tx) = tx_writable tx"
proof -
  have t: "treap_ok (tx_pendingKeys tx)" "treap_ok (tx_pendingRemove tx)" using assms by (simp_all add: tx_ok_def)
  show ?thesis using assms
    by (cases op) (auto simp: tx_ok_def putKey_def deleteKey_def overlay_def fun_eq_iff
      Put_ok [OF t(1)] Put_ok [OF t(2)] Delete_ok [OF t(1)] Delete_ok [OF t(2)])
qed

lemma tx_ops_ok:
  assumes "tx_ok tx"
  shows "tx_ok (fold tx_op ops tx) \<and> overlay (tx_pendingKeys (fold tx_op ops tx)) (tx_pendingRemove (fold tx_op ops tx)) m
     = fold key_op ops (overlay (tx_pendingKeys tx) (tx_pendingRemove tx) m)
    \<and> tx_snapshot (fold tx_op ops tx) = tx_snapshot tx \<and> tx_writable (fold tx_op ops tx) = tx_writable tx"
  using assms
proof (induction ops arbitrary: tx)
  case (Cons op ops)
  note o = tx_op_ok [OF Cons.prems, of op m]
  show ?case using o Cons.IH [of "tx_op op tx"] by simp
qed simp

lemma begin_tx_ok:
  assumes "begin_tx D w c = Inr tx" "cache_ok c"
  shows "tx_ok tx \<and> tx_writable tx = w \<and> sn_dbSnapshot (tx_snapshot tx) = dc_ldb c \<and> tx_view stored tx = view stored c
    \<and> snap_view stored (tx_snapshot tx) = view stored c
    \<and> overlay (tx_pendingKeys tx) (tx_pendingRemove tx) = (\<lambda>m. m)"
  using assms by (auto simp: begin_tx_def Snapshot_def Snapshot_db_def Snapshot_treaps_def tx_ok_def cache_ok_def NewTreap_ok
    tx_view_def snap_view_def view_def fun_eq_iff[of "overlay _ _" "\<lambda>m. m"] split: sum.splits option.splits)

section \<open>Properties\<close>

text \<open>A database in memory that keeps the promises: a red-black tree whose operations never fail.\<close>

definition rbt_ldb :: "(bytes, bytes) RBT.rbt ldb" where
  "rbt_ldb =
    \<lparr>fl_GetSnapshot = (\<lambda>db. None), fl_Get = RBT.lookup, fl_Has = (\<lambda>db k. RBT.lookup db k \<noteq> None),
     fl_OpenTransaction = (\<lambda>db. None), fl_Add = (\<lambda>db b op. None), fl_Commit = ldb_Write rbt_leveldb\<rparr>"

interpretation rbt_cache: ldb_spec rbt_ldb "\<lambda>_. True" RBT.lookup
  by unfold_locales (auto simp: rbt_ldb_def rbt_leveldb_def rbt_write_lookup)

definition ex_cache :: "(bytes, bytes) RBT.rbt dbCache" where
  "ex_cache = (newDbCache RBT.empty 0 5 0)\<lparr>dc_cachedKeys := Put [1] (Some [2]) 0 NewTreap\<rparr>"

lemma ex_cache_ok: "cache_ok ex_cache"
  by (simp add: ex_cache_def newDbCache_def cache_ok_def NewTreap_ok Put_ok)

lemma ex_cache_view: "view RBT.lookup ex_cache = [[1] \<mapsto> [2]]"
  by (simp add: ex_cache_def newDbCache_def view_def overlay_def NewTreap_ok Put_ok fun_eq_iff)

text \<open>
  C11: a transaction on the metadata is one atomic update of a map. Inside it, reads see its snapshot with its
  own writes and removals in order. A commit that succeeds, whether it goes to the cache or flushes to
  LevelDB, turns the map that readers see into that one; a commit that fails, at any point, leaves it as it
  was.
\<close>

theorem transaction_atomic:
  assumes "ldb_spec D I stored" "I (dc_ldb c)" "cache_ok c" "begin_tx D True c = Inr tx"
    and "commitTx D nospace scale rnd now sync_ok (fold tx_op ops tx) c = (e, c')"
  shows "fetchKey D (fold tx_op ops tx) k = fold key_op ops (view stored c) k
    \<and> (hasKey D (fold tx_op ops tx) k \<longleftrightarrow> fold key_op ops (view stored c) k \<noteq> None)
    \<and> view stored c' = (if e = None then fold key_op ops (view stored c) else view stored c)
    \<and> cache_ok c' \<and> I (dc_ldb c')"
proof -
  note b = begin_tx_ok [OF assms(4,3), of stored]
  note o = tx_ops_ok [of tx ops]
  note f = ldb_spec.fetchKey_ok [OF assms(1), of "fold tx_op ops tx" k]
  note c = ldb_spec.commitTx_ok [OF assms(1,5,2,3)]
  have "tx_ok (fold tx_op ops tx)" using b o by simp
  then show ?thesis using b o f c assms(2) by (simp add: tx_view_def tx_ok_def)
qed

theorem transaction_atomic_witness:
  "\<exists>tx e c'. begin_tx rbt_ldb True ex_cache = Inr tx
    \<and> commitTx rbt_ldb (\<lambda>_. False) id (\<lambda>_. 0) 0 True (fold tx_op [KeyDelete [1] 3, KeyPut [3] (Some [4]) 1] tx) ex_cache = (e, c')
    \<and> view RBT.lookup c' = (if e = None then [[3] \<mapsto> [4]] else [[1] \<mapsto> [2]])"
proof -
  obtain tx where t: "begin_tx rbt_ldb True ex_cache = Inr tx"
    by (simp add: begin_tx_def Snapshot_def Snapshot_db_def rbt_ldb_def)
  obtain e c' where c: "commitTx rbt_ldb (\<lambda>_. False) id (\<lambda>_. 0) 0 True
      (fold tx_op [KeyDelete [1] 3, KeyPut [3] (Some [4]) 1] tx) ex_cache = (e, c')" by fastforce
  have "view RBT.lookup c' = (if e = None then [[3] \<mapsto> [4]] else [[1] \<mapsto> [2]])"
    using transaction_atomic [OF rbt_cache.ldb_spec_axioms TrueI ex_cache_ok t c, of "[]"] by (auto simp: ex_cache_view fun_eq_iff)
  then show ?thesis using t c by blast
qed

text \<open>
  C18: closing the cache without an error leaves in LevelDB itself the map that readers saw, and a flush at
  any moment, failed or not, does not change that map.
\<close>

theorem Close_persists:
  assumes "ldb_spec D I stored" "I (dc_ldb c)" "cache_ok c"
    and "Close_cache D nospace now sync_ok close_err c = (e, c')"
  shows "view stored c' = view stored c \<and> (e = None \<longrightarrow> stored (dc_ldb c') = view stored c)"
proof -
  obtain e1 c1 where f: "flush D nospace now sync_ok c = (e1, c1)" by fastforce
  show ?thesis using ldb_spec.flush_ok [OF assms(1) f assms(2,3)] assms(4)
    by (auto simp: Close_cache_def f split: option.splits)
qed

lemma ex_flush: "\<exists>c'. flush rbt_ldb (\<lambda>_. False) 7 True ex_cache = (None, c')"
proof -
  have "add_ops rbt_ldb db mk t (b, None) = (b @ map (\<lambda>(k, v). mk k v) (inorder (tr_root t)), None)" for db mk t b
  proof -
    have "visit (\<lambda>k v (b, innerErr). (True, (b @ [mk k v], innerErr))) xs (b, None)
        = (b @ map (\<lambda>(k, v). mk k v) xs, None)" for xs
      by (induction xs arbitrary: b) auto
    then show ?thesis by (simp add: add_ops_def ForEach_visit rbt_ldb_def)
  qed
  then show ?thesis
    by (simp add: flush_def Let_def commitTreaps_def updateDB_def, simp add: rbt_ldb_def rbt_leveldb_def)
qed

theorem Close_persists_witness:
  "\<exists>c'. Close_cache rbt_ldb (\<lambda>_. False) 7 True None ex_cache = (None, c') \<and> RBT.lookup (dc_ldb c') [1] = Some [2]"
proof -
  obtain c' where f: "flush rbt_ldb (\<lambda>_. False) 7 True ex_cache = (None, c')" using ex_flush by blast
  have c: "Close_cache rbt_ldb (\<lambda>_. False) 7 True None ex_cache = (None, c')" by (simp add: Close_cache_def f)
  show ?thesis using Close_persists [OF rbt_cache.ldb_spec_axioms TrueI ex_cache_ok c] c by (simp add: ex_cache_view)
qed

text \<open>
  C19: the two steps of \<open>Snapshot\<close> are not atomic together. When a flush runs between them, the snapshot joins
  the database of before the flush with the emptied cache: it shows the data of the last flush and misses
  every cached change, although the map readers should see never changed.
\<close>

theorem Snapshot_torn_by_flush:
  assumes "ldb_spec D I stored" "I (dc_ldb c)" "cache_ok c"
    and "Snapshot_db D c = Inr s" "flush D nospace now sync_ok c = (None, c')"
  shows "snap_view stored (Snapshot_treaps s c') = stored (dc_ldb c) \<and> view stored c' = view stored c"
proof -
  have "contents (dc_cachedKeys c') = Map.empty" "contents (dc_cachedRemove c') = Map.empty"
    using flush_empties [OF assms(5,3)] by blast+
  then show ?thesis using ldb_spec.flush_ok [OF assms(1,5,2,3)] assms(4)
    by (auto simp: Snapshot_db_def Snapshot_treaps_def snap_view_def overlay_empty split: option.splits)
qed

theorem Snapshot_torn_by_flush_witness:
  "\<exists>s c'. Snapshot_db rbt_ldb ex_cache = Inr s \<and> flush rbt_ldb (\<lambda>_. False) 7 True ex_cache = (None, c')
    \<and> view RBT.lookup c' [1] = Some [2] \<and> snap_view RBT.lookup (Snapshot_treaps s c') [1] = None"
proof -
  obtain c' where f: "flush rbt_ldb (\<lambda>_. False) 7 True ex_cache = (None, c')" using ex_flush by blast
  have s: "Snapshot_db rbt_ldb ex_cache = Inr (dc_ldb ex_cache)" by (simp add: Snapshot_db_def rbt_ldb_def)
  have e: "RBT.lookup (dc_ldb ex_cache) [1] = None" by (simp add: ex_cache_def newDbCache_def)
  show ?thesis using Snapshot_torn_by_flush [OF rbt_cache.ldb_spec_axioms TrueI ex_cache_ok s f] s f e
    by (auto simp: ex_cache_view)
qed

end
