(* ===== verification/Wire_Common.thy ===== *)
theory Wire_Common
  imports Prelude
begin

text \<open>
  The primitives of the wire protocol, \<open>wire/common.go\<close>: reading from a stream, variable length integers and
  byte strings. A reader takes the bytes that are left and returns an error, or a value and the bytes after
  it. Writing goes to memory and does not fail, so a writer is the bytes it writes. The protocol version
  \<open>pver\<close> and the scratch buffers have no influence on the result and are left out.
\<close>

section \<open>Readers\<close>

datatype wire_error = EOF | ErrUnexpectedEOF | MessageError | ErrSuperfluousWitnessRecord

type_synonym 'a reader = "bytes \<Rightarrow> wire_error + ('a \<times> bytes)"

definition rret :: "'a \<Rightarrow> 'a reader" where
  "rret x r = Inr (x, r)"

definition rfail :: "wire_error \<Rightarrow> 'a reader" where
  "rfail e r = Inl e"

definition rbind :: "'a reader \<Rightarrow> ('a \<Rightarrow> 'b reader) \<Rightarrow> 'b reader" where
  "rbind m f r = (case m r of Inl e \<Rightarrow> Inl e | Inr (x, r') \<Rightarrow> f x r')"

text \<open>\<open>io.ReadFull\<close> into a buffer of \<open>n\<close> bytes.\<close>

definition ReadFull :: "nat \<Rightarrow> bytes reader" where
  "ReadFull n r =
    (if n \<le> length r then Inr (take n r, drop n r) else if r = [] then Inl EOF else Inl ErrUnexpectedEOF)"

text \<open>A loop that reads \<open>n\<close> items.\<close>

primrec read_n :: "nat \<Rightarrow> 'a reader \<Rightarrow> 'a list reader" where
  "read_n 0 m = rret []"
| "read_n (Suc n) m = rbind m (\<lambda>x. rbind (read_n n m) (\<lambda>xs. rret (x # xs)))"

section \<open>Variable length data\<close>

definition Uint32 :: "u32 reader" where
  "Uint32 = rbind (ReadFull 4) (\<lambda>b. rret (le_word b))"

definition Uint64 :: "u64 reader" where
  "Uint64 = rbind (ReadFull 8) (\<lambda>b. rret (le_word b))"

definition ReadVarInt :: "u64 reader" where
  "ReadVarInt = rbind (ReadFull 1) (\<lambda>buf.
     let discriminant = hd buf in
     if discriminant = 0xff then
       rbind (ReadFull 8) (\<lambda>b. let rv = le_word b :: u64 in if rv < 0x100000000 then rfail MessageError else rret rv)
     else if discriminant = 0xfe then
       rbind (ReadFull 4) (\<lambda>b. let rv = ucast (le_word b :: u32) :: u64 in if rv < 0x10000 then rfail MessageError else rret rv)
     else if discriminant = 0xfd then
       rbind (ReadFull 2) (\<lambda>b. let rv = ucast (le_word b :: u16) :: u64 in if rv < 0xfd then rfail MessageError else rret rv)
     else rret (ucast discriminant))"

definition WriteVarInt :: "u64 \<Rightarrow> bytes" where
  "WriteVarInt val =
    (if val < 0xfd then [ucast val]
     else if val \<le> 0xffff then 0xfd # le_bytes 2 (ucast val :: u16)
     else if val \<le> 0xffffffff then 0xfe # le_bytes 4 (ucast val :: u32)
     else 0xff # le_bytes 8 val)"

definition VarIntSerializeSize :: "u64 \<Rightarrow> nat" where
  "VarIntSerializeSize val =
    (if val < 0xfd then 1 else if val \<le> 0xffff then 3 else if val \<le> 0xffffffff then 5 else 9)"

definition MaxMessagePayload :: nat where
  "MaxMessagePayload = 1024 * 1024 * 32"

definition ReadVarBytes :: "u32 \<Rightarrow> bytes reader" where
  "ReadVarBytes maxAllowed = rbind ReadVarInt (\<lambda>count.
     if count > ucast maxAllowed then rfail MessageError else ReadFull (unat count))"

definition WriteVarBytes :: "bytes \<Rightarrow> bytes" where
  "WriteVarBytes b = WriteVarInt (word_of_nat (length b)) @ b"

definition ReadVarString :: "bytes reader" where
  "ReadVarString = rbind ReadVarInt (\<lambda>count.
     if unat count > MaxMessagePayload then rfail MessageError else ReadFull (unat count))"

definition WriteVarString :: "bytes \<Rightarrow> bytes" where
  "WriteVarString str = WriteVarInt (word_of_nat (length str)) @ str"

section \<open>Formats\<close>

text \<open>
  What a format of the protocol promises: reading what was written gives it back and stops right after it,
  and nothing else is read as that value.
\<close>

locale wire_format =
  fixes enc :: "'a \<Rightarrow> bytes"
    and dec :: "'a reader"
    and ok :: "'a \<Rightarrow> bool"
  assumes dec_enc: "ok x \<Longrightarrow> dec (enc x @ r) = Inr (x, r)"
    and dec_canonical: "dec r = Inr (x, r') \<Longrightarrow> ok x \<and> r = enc x @ r'"
begin

lemma dec_iff: "dec r = Inr (x, r') \<longleftrightarrow> ok x \<and> r = enc x @ r'"
  using dec_enc dec_canonical by blast

lemma read_n_iff:
  "read_n n dec r = Inr (xs, r') \<longleftrightarrow> length xs = n \<and> list_all ok xs \<and> r = concat (map enc xs) @ r'"
proof (induction n arbitrary: r xs)
  case 0
  then show ?case by (auto simp: rret_def)
next
  case (Suc n)
  have "read_n (Suc n) dec r = Inr (xs, r') \<longleftrightarrow>
      (\<exists>y ys r1. xs = y # ys \<and> dec r = Inr (y, r1) \<and> read_n n dec r1 = Inr (ys, r'))"
    by (auto simp: rbind_def rret_def split: sum.splits)
  also have "\<dots> \<longleftrightarrow> (\<exists>y ys. xs = y # ys \<and> ok y \<and> length ys = n \<and> list_all ok ys \<and> r = enc y @ concat (map enc ys) @ r')"
    by (auto simp: dec_iff Suc.IH)
  also have "\<dots> \<longleftrightarrow> length xs = Suc n \<and> list_all ok xs \<and> r = concat (map enc xs) @ r'"
    by (cases xs) auto
  finally show ?case .
qed

end

sublocale wire_format \<subseteq> prefix_code enc ok
proof
  fix x y r s
  assume "ok x" "ok y" "enc x @ r = enc y @ s"
  then have "Inr (x, r) = dec (enc y @ s)" using dec_enc [of x r] by simp
  then show "x = y" using dec_enc [OF \<open>ok y\<close>] by simp
qed

section \<open>The formats of this file\<close>

lemma rbind_Inr: "rbind m f r = Inr (y, r') \<longleftrightarrow> (\<exists>x r1. m r = Inr (x, r1) \<and> f x r1 = Inr (y, r'))"
  by (auto simp: rbind_def split: sum.splits)

lemma rret_Inr [simp]: "rret x r = Inr (y, r') \<longleftrightarrow> x = y \<and> r = r'"
  by (simp add: rret_def)

lemma rfail_Inr [simp]: "rfail e r \<noteq> Inr (y, r')"
  by (simp add: rfail_def)

lemma ReadFull_Inr: "ReadFull n r = Inr (b, r') \<longleftrightarrow> length b = n \<and> r = b @ r'"
  by (auto simp: ReadFull_def)

lemma ReadFull_append: "length b = n \<Longrightarrow> ReadFull n (b @ r) = Inr (b, r)"
  by (simp add: ReadFull_Inr)

lemma ReadFull_1: "ReadFull (Suc 0) (x # r) = Inr ([x], r)"
  by (simp add: ReadFull_def)

lemma le_bytes_of_length: "length bs = n \<Longrightarrow> 8 * n \<le> LENGTH('a::len) \<Longrightarrow> le_bytes n (le_word bs :: 'a word) = bs"
  using le_bytes_le_word [where 'a = 'a, of bs] by simp

interpretation u32_format: wire_format "le_bytes 4" Uint32 "\<lambda>_. True"
  by unfold_locales (auto simp: Uint32_def rbind_Inr ReadFull_Inr le_word_le_bytes le_bytes_of_length)

interpretation u64_format: wire_format "le_bytes 8" Uint64 "\<lambda>_. True"
  by unfold_locales (auto simp: Uint64_def rbind_Inr ReadFull_Inr le_word_le_bytes le_bytes_of_length)

lemma WriteVarInt_length: "length (WriteVarInt v) = VarIntSerializeSize v"
  by (simp add: WriteVarInt_def VarIntSerializeSize_def)

lemma ReadVarInt_WriteVarInt: "ReadVarInt (WriteVarInt v @ r) = Inr (v, r)"
proof -
  have b: "unat (ucast v :: byte) = unat v" if "v < 0xfd"
    using that by (intro unat_ucast_small) (simp add: word_less_nat_alt)
  consider "v < 0xfd" | "\<not> v < 0xfd" "v \<le> 0xffff" | "\<not> v \<le> 0xffff" "v \<le> 0xffffffff" | "\<not> v \<le> 0xffffffff"
    by blast
  then show ?thesis
  proof cases
    case 1
    then have "(ucast v :: byte) \<noteq> 0xff" "(ucast v :: byte) \<noteq> 0xfe" "(ucast v :: byte) \<noteq> 0xfd"
      using b by (auto simp: word_unat_eq_iff word_less_nat_alt)
    moreover have "ucast (ucast v :: byte) = v"
      using 1 by (intro ucast_ucast_small) (simp add: word_less_nat_alt)
    ultimately show ?thesis using 1
      by (simp add: ReadVarInt_def WriteVarInt_def rbind_def rret_def ReadFull_1 ReadFull_append Let_def)
  next
    case 2
    then have "ucast (ucast v :: u16) = v" by (intro ucast_ucast_small) (simp add: word_le_nat_alt)
    then show ?thesis using 2
      by (simp add: ReadVarInt_def WriteVarInt_def rbind_def rret_def ReadFull_1 ReadFull_append Let_def le_word_le_bytes)
  next
    case 3
    then have "ucast (ucast v :: u32) = v" by (intro ucast_ucast_small) (simp add: word_le_nat_alt)
    moreover have "\<not> v < 0xfd" "\<not> v < 0x10000" using 3 by (auto simp: word_le_nat_alt word_less_nat_alt)
    ultimately show ?thesis using 3
      by (simp add: ReadVarInt_def WriteVarInt_def rbind_def rret_def ReadFull_1 ReadFull_append Let_def le_word_le_bytes)
  next
    case 4
    then have "\<not> v < 0xfd" "\<not> v \<le> 0xffff" "\<not> v < 0x100000000" by (auto simp: word_le_nat_alt word_less_nat_alt)
    then show ?thesis using 4
      by (simp add: ReadVarInt_def WriteVarInt_def rbind_def rret_def ReadFull_1 ReadFull_append Let_def le_word_le_bytes)
  qed
qed

lemma ReadVarInt_canonical:
  assumes "ReadVarInt r = Inr (v, r')"
  shows "r = WriteVarInt v @ r'"
proof -
  obtain d r1 where r: "r = d # r1" and
    c: "if d = 0xff then \<exists>b. length b = 8 \<and> r1 = b @ r' \<and> \<not> v < 0x100000000 \<and> v = le_word b
        else if d = 0xfe then \<exists>b. length b = 4 \<and> r1 = b @ r' \<and> \<not> v < 0x10000 \<and> v = ucast (le_word b :: u32)
        else if d = 0xfd then \<exists>b. length b = 2 \<and> r1 = b @ r' \<and> \<not> v < 0xfd \<and> v = ucast (le_word b :: u16)
        else r1 = r' \<and> v = ucast d"
    using assms by (auto simp: ReadVarInt_def rbind_Inr ReadFull_Inr Let_def length_Suc_conv split: if_splits)
  consider "d = 0xff" | "d = 0xfe" | "d = 0xfd" | "d \<noteq> 0xff" "d \<noteq> 0xfe" "d \<noteq> 0xfd" by blast
  then show ?thesis
  proof cases
    case 1
    then obtain b where b: "length b = 8" "r1 = b @ r'" "\<not> v < 0x100000000" "v = le_word b" using c by auto
    have "\<not> v < 0xfd" "\<not> v \<le> 0xffff" "\<not> v \<le> 0xffffffff" using b(3) by (auto simp: word_le_nat_alt word_less_nat_alt)
    then show ?thesis using 1 r b by (simp add: WriteVarInt_def le_bytes_of_length)
  next
    case 2
    then obtain b where b: "length b = 4" "r1 = b @ r'" "\<not> v < 0x10000" "v = ucast (le_word b :: u32)" using c by auto
    have u: "unat v = unat (le_word b :: u32)" unfolding b(4) by (rule unat_ucast_up) simp
    have "\<not> v < 0xfd" "\<not> v \<le> 0xffff" "v \<le> 0xffffffff"
      using b(3) u unat_lt [of "le_word b :: u32"] by (auto simp: word_le_nat_alt word_less_nat_alt)
    moreover have "ucast v = (le_word b :: u32)" unfolding word_unat_eq_iff
      using u unat_lt [of "le_word b :: u32"] by (simp add: unat_ucast_small)
    ultimately show ?thesis using 2 r b by (simp add: WriteVarInt_def le_bytes_of_length)
  next
    case 3
    then obtain b where b: "length b = 2" "r1 = b @ r'" "\<not> v < 0xfd" "v = ucast (le_word b :: u16)" using c by auto
    have u: "unat v = unat (le_word b :: u16)" unfolding b(4) by (rule unat_ucast_up) simp
    have "v \<le> 0xffff" using u unat_lt [of "le_word b :: u16"] by (auto simp: word_le_nat_alt)
    moreover have "ucast v = (le_word b :: u16)" unfolding word_unat_eq_iff
      using u unat_lt [of "le_word b :: u16"] by (simp add: unat_ucast_small)
    ultimately show ?thesis using 3 r b by (simp add: WriteVarInt_def le_bytes_of_length)
  next
    case 4
    have u: "unat v = unat d" "v = ucast d" using c 4 by (auto intro: unat_ucast_up)
    have "unat d \<noteq> 0xff" "unat d \<noteq> 0xfe" "unat d \<noteq> 0xfd" using 4 by (simp_all add: word_unat_eq_iff)
    then have "v < 0xfd" using u(1) unat_lt [of d] by (auto simp: word_less_nat_alt)
    moreover have "ucast v = d" unfolding word_unat_eq_iff using u(1) unat_lt [of d] by (simp add: unat_ucast_small)
    ultimately show ?thesis using 4 c r by (simp add: WriteVarInt_def)
  qed
qed

interpretation varint: wire_format WriteVarInt ReadVarInt "\<lambda>_. True"
  by unfold_locales (simp_all add: ReadVarInt_WriteVarInt ReadVarInt_canonical)

lemma unat_word_of_length: "length b < 2 ^ 64 \<Longrightarrow> unat (word_of_nat (length b) :: u64) = length b"
  by (simp add: unsigned_of_nat take_bit_nat_eq_self)

interpretation varbytes: wire_format WriteVarBytes "ReadVarBytes m" "\<lambda>b. length b \<le> unat m"
proof
  have m: "unat (ucast m :: u64) = unat m" by (rule unat_ucast_up) simp
  fix b r r' :: bytes
  assume l: "length b \<le> unat m"
  then have u: "unat (word_of_nat (length b) :: u64) = length b"
    using unat_lt [of m] by (intro unat_word_of_length) simp
  then show "ReadVarBytes m (WriteVarBytes b @ r) = Inr (b, r)"
    using l m by (simp add: ReadVarBytes_def WriteVarBytes_def rbind_def ReadFull_append varint.dec_enc word_less_nat_alt)
next
  have m: "unat (ucast m :: u64) = unat m" by (rule unat_ucast_up) simp
  fix b r r' :: bytes
  assume "ReadVarBytes m r = Inr (b, r')"
  then show "length b \<le> unat m \<and> r = WriteVarBytes b @ r'"
    using m by (auto simp: ReadVarBytes_def WriteVarBytes_def rbind_Inr ReadFull_Inr varint.dec_iff word_less_nat_alt
      split: if_splits)
qed

interpretation varstring: wire_format WriteVarString ReadVarString "\<lambda>b. length b \<le> MaxMessagePayload"
proof
  fix b r :: bytes
  assume l: "length b \<le> MaxMessagePayload"
  then have "unat (word_of_nat (length b) :: u64) = length b"
    by (intro unat_word_of_length) (simp add: MaxMessagePayload_def)
  then show "ReadVarString (WriteVarString b @ r) = Inr (b, r)"
    using l by (simp add: ReadVarString_def WriteVarString_def rbind_def ReadFull_append varint.dec_enc)
next
  fix b r r' :: bytes
  assume "ReadVarString r = Inr (b, r')"
  then show "length b \<le> MaxMessagePayload \<and> r = WriteVarString b @ r'"
    by (auto simp: ReadVarString_def WriteVarString_def rbind_Inr ReadFull_Inr varint.dec_iff split: if_splits)
qed

end
