(* ===== verification/Wire_Tx.thy ===== *)
theory Wire_Tx
  imports Wire_Common
begin

text \<open>
  Transactions on the wire, \<open>wire/msgtx.go\<close>: the data types, encoding and decoding with and without witness
  data, and the size computations. The slab of \<^verbatim>\<open>scriptSlabSize\<close> bytes, which all scripts of one transaction
  share while it is decoded, appears as the number of bytes left in it.
\<close>

section \<open>Data\<close>

record out_point =
  op_Hash :: hash
  op_Index :: u32

record tx_in =
  in_PreviousOutPoint :: out_point
  in_SignatureScript :: bytes
  in_Witness :: "bytes list"
  in_Sequence :: u32

record tx_out =
  out_Value :: i64
  out_PkScript :: bytes

record msg_tx =
  tx_Version :: i32
  tx_TxIn :: "tx_in list"
  tx_TxOut :: "tx_out list"
  tx_LockTime :: u32

datatype MessageEncoding = BaseEncoding | WitnessEncoding

definition minTxInPayload :: nat where
  "minTxInPayload = 9 + 32"

definition maxTxInPerMessage :: nat where
  "maxTxInPerMessage = MaxMessagePayload div minTxInPayload + 1"

definition MinTxOutPayload :: nat where
  "MinTxOutPayload = 9"

definition maxTxOutPerMessage :: nat where
  "maxTxOutPerMessage = MaxMessagePayload div MinTxOutPayload + 1"

definition maxWitnessItemsPerInput :: nat where
  "maxWitnessItemsPerInput = 4000000"

definition maxWitnessItemSize :: nat where
  "maxWitnessItemSize = 4000000"

definition scriptSlabSize :: nat where
  "scriptSlabSize = 2 ^ 22"

definition TxFlagMarker :: byte where
  "TxFlagMarker = 0x00"

definition WitnessFlag :: byte where
  "WitnessFlag = 0x01"

section \<open>Sizes\<close>

abbreviation size_of_len :: "'a list \<Rightarrow> nat" where
  "size_of_len xs \<equiv> VarIntSerializeSize (word_of_nat (length xs))"

definition TxIn_SerializeSize :: "tx_in \<Rightarrow> nat" where
  "TxIn_SerializeSize t = 40 + size_of_len (in_SignatureScript t) + length (in_SignatureScript t)"

definition TxWitness_SerializeSize :: "bytes list \<Rightarrow> nat" where
  "TxWitness_SerializeSize t = fold (\<lambda>witItem n. n + size_of_len witItem + length witItem) t (size_of_len t)"

definition TxOut_SerializeSize :: "tx_out \<Rightarrow> nat" where
  "TxOut_SerializeSize t = 8 + size_of_len (out_PkScript t) + length (out_PkScript t)"

definition HasWitness :: "tx_in list \<Rightarrow> bool" where
  "HasWitness txIn = list_ex (\<lambda>ti. length (in_Witness ti) \<noteq> 0) txIn"

definition baseSize :: "msg_tx \<Rightarrow> nat" where
  "baseSize msg =
    (let n = 8 + size_of_len (tx_TxIn msg) + size_of_len (tx_TxOut msg);
         n = fold (\<lambda>t n. n + TxIn_SerializeSize t) (tx_TxIn msg) n
     in fold (\<lambda>t n. n + TxOut_SerializeSize t) (tx_TxOut msg) n)"

definition SerializeSize :: "msg_tx \<Rightarrow> nat" where
  "SerializeSize msg =
    (let n = baseSize msg in
     if HasWitness (tx_TxIn msg) then fold (\<lambda>t n. n + TxWitness_SerializeSize (in_Witness t)) (tx_TxIn msg) (n + 2) else n)"

section \<open>Encoding\<close>

definition writeOutPoint :: "out_point \<Rightarrow> bytes" where
  "writeOutPoint op = op_Hash op @ le_bytes 4 (op_Index op)"

definition writeTxIn :: "tx_in \<Rightarrow> bytes" where
  "writeTxIn ti = writeOutPoint (in_PreviousOutPoint ti) @ WriteVarBytes (in_SignatureScript ti) @ le_bytes 4 (in_Sequence ti)"

definition WriteTxOut :: "tx_out \<Rightarrow> bytes" where
  "WriteTxOut to = le_bytes 8 (out_Value to) @ WriteVarBytes (out_PkScript to)"

definition writeTxWitness :: "bytes list \<Rightarrow> bytes" where
  "writeTxWitness wit = WriteVarInt (word_of_nat (length wit)) @ concat (map WriteVarBytes wit)"

definition btcEncode :: "MessageEncoding \<Rightarrow> msg_tx \<Rightarrow> bytes" where
  "btcEncode enc msg =
    (let doWitness = (enc = WitnessEncoding \<and> HasWitness (tx_TxIn msg)) in
     le_bytes 4 (tx_Version msg)
     @ (if doWitness then [TxFlagMarker, WitnessFlag] else [])
     @ WriteVarInt (word_of_nat (length (tx_TxIn msg))) @ concat (map writeTxIn (tx_TxIn msg))
     @ WriteVarInt (word_of_nat (length (tx_TxOut msg))) @ concat (map WriteTxOut (tx_TxOut msg))
     @ (if doWitness then concat (map (writeTxWitness \<circ> in_Witness) (tx_TxIn msg)) else [])
     @ le_bytes 4 (tx_LockTime msg))"

definition Serialize :: "msg_tx \<Rightarrow> bytes" where
  "Serialize msg = btcEncode WitnessEncoding msg"

definition SerializeNoWitness :: "msg_tx \<Rightarrow> bytes" where
  "SerializeNoWitness msg = btcEncode BaseEncoding msg"

text \<open>\<open>H\<close> is the double SHA-256 of \<open>chainhash\<close>.\<close>

definition TxHash :: "(bytes \<Rightarrow> hash) \<Rightarrow> msg_tx \<Rightarrow> hash" where
  "TxHash H msg = H (SerializeNoWitness msg)"

definition WitnessHash :: "(bytes \<Rightarrow> hash) \<Rightarrow> msg_tx \<Rightarrow> hash" where
  "WitnessHash H msg = (if HasWitness (tx_TxIn msg) then H (Serialize msg) else TxHash H msg)"

section \<open>Decoding\<close>

text \<open>A loop whose items take room \<open>sz\<close> in the slab, of which \<open>s\<close> bytes are left.\<close>

primrec read_slab :: "nat \<Rightarrow> (nat \<Rightarrow> 'a reader) \<Rightarrow> ('a \<Rightarrow> nat) \<Rightarrow> nat \<Rightarrow> ('a list \<times> nat) reader" where
  "read_slab 0 m sz s = rret ([], s)"
| "read_slab (Suc n) m sz s =
    rbind (m s) (\<lambda>x. rbind (read_slab n m sz (s - sz x)) (\<lambda>(xs, s'). rret (x # xs, s')))"

definition readOutPoint :: "out_point reader" where
  "readOutPoint = rbind (ReadFull 32) (\<lambda>h. rbind Uint32 (\<lambda>i. rret \<lparr>op_Hash = h, op_Index = i\<rparr>))"

definition readScript :: "nat \<Rightarrow> bytes reader" where
  "readScript s = rbind ReadVarInt (\<lambda>count.
     if unat count > maxWitnessItemSize then rfail MessageError
     else if unat count > s then rfail MessageError
     else ReadFull (unat count))"

definition readTxIn :: "nat \<Rightarrow> tx_in reader" where
  "readTxIn s = rbind readOutPoint (\<lambda>op. rbind (readScript s) (\<lambda>script. rbind Uint32 (\<lambda>sequence.
     rret \<lparr>in_PreviousOutPoint = op, in_SignatureScript = script, in_Witness = [], in_Sequence = sequence\<rparr>)))"

definition readTxOut :: "nat \<Rightarrow> tx_out reader" where
  "readTxOut s = rbind Uint64 (\<lambda>v. rbind (readScript s) (\<lambda>script. rret \<lparr>out_Value = v, out_PkScript = script\<rparr>))"

definition readWitness :: "nat \<Rightarrow> bytes list reader" where
  "readWitness s = rbind ReadVarInt (\<lambda>witCount.
     if unat witCount > maxWitnessItemsPerInput then rfail MessageError
     else rbind (read_slab (unat witCount) readScript length s) (\<lambda>(items, s'). rret items))"

abbreviation sum_len :: "bytes list \<Rightarrow> nat" where
  "sum_len xs \<equiv> sum_list (map length xs)"

text \<open>The count of inputs, with the flag that may stand before it, and the witness data after the outputs.\<close>

definition decode_count :: "MessageEncoding \<Rightarrow> (byte \<times> u64) reader" where
  "decode_count enc = rbind ReadVarInt (\<lambda>count.
     if count = ucast TxFlagMarker \<and> enc = WitnessEncoding then
       rbind (ReadFull 1) (\<lambda>flag.
         if hd flag \<noteq> WitnessFlag then rfail MessageError
         else rbind ReadVarInt (\<lambda>count. rret (hd flag, count)))
     else rret (0, count))"

definition decode_witness :: "MessageEncoding \<Rightarrow> byte \<Rightarrow> tx_in list \<Rightarrow> nat \<Rightarrow> tx_in list reader" where
  "decode_witness enc flag ins s =
    (if flag \<noteq> 0 \<and> enc = WitnessEncoding then
       rbind (read_slab (length ins) readWitness sum_len s) (\<lambda>(wits, s).
         let ins = map2 (\<lambda>ti w. ti\<lparr>in_Witness := w\<rparr>) ins wits in
         if \<not> HasWitness ins then rfail ErrSuperfluousWitnessRecord else rret ins)
     else rret ins)"

definition decode_ins :: "u64 \<Rightarrow> nat \<Rightarrow> (tx_in list \<times> nat) reader" where
  "decode_ins count s =
    (if unat count > maxTxInPerMessage then rfail MessageError
     else read_slab (unat count) readTxIn (length \<circ> in_SignatureScript) s)"

definition decode_outs :: "nat \<Rightarrow> (tx_out list \<times> nat) reader" where
  "decode_outs s = rbind ReadVarInt (\<lambda>count.
     if unat count > maxTxOutPerMessage then rfail MessageError
     else read_slab (unat count) readTxOut (length \<circ> out_PkScript) s)"

definition btcDecode :: "MessageEncoding \<Rightarrow> msg_tx reader" where
  "btcDecode enc =
    rbind Uint32 (\<lambda>version. rbind (decode_count enc) (\<lambda>(flag, count).
    rbind (decode_ins count scriptSlabSize) (\<lambda>(ins, s). rbind (decode_outs s) (\<lambda>(outs, s).
    rbind (decode_witness enc flag ins s) (\<lambda>ins. rbind Uint32 (\<lambda>lockTime.
    rret \<lparr>tx_Version = version, tx_TxIn = ins, tx_TxOut = outs, tx_LockTime = lockTime\<rparr>))))))"

definition Deserialize :: "msg_tx reader" where
  "Deserialize = btcDecode WitnessEncoding"

definition DeserializeNoWitness :: "msg_tx reader" where
  "DeserializeNoWitness = btcDecode BaseEncoding"

lemmas decode_defs = decode_count_def decode_ins_def decode_outs_def decode_witness_def

section \<open>Formats that take room in the slab\<close>

locale slab_format =
  fixes enc :: "'a \<Rightarrow> bytes"
    and dec :: "nat \<Rightarrow> 'a reader"
    and ok :: "'a \<Rightarrow> bool"
    and sz :: "'a \<Rightarrow> nat"
  assumes slab_iff: "dec s r = Inr (x, r') \<longleftrightarrow> ok x \<and> sz x \<le> s \<and> r = enc x @ r'"
begin

lemma read_slab_iff:
  "read_slab n dec sz s r = Inr ((xs, s'), r') \<longleftrightarrow>
    length xs = n \<and> list_all ok xs \<and> sum_list (map sz xs) + s' = s \<and> r = concat (map enc xs) @ r'"
proof (induction n arbitrary: s r xs)
  case 0
  then show ?case by auto
next
  case (Suc n)
  have "read_slab (Suc n) dec sz s r = Inr ((xs, s'), r') \<longleftrightarrow>
      (\<exists>y ys r1. xs = y # ys \<and> dec s r = Inr (y, r1) \<and> read_slab n dec sz (s - sz y) r1 = Inr ((ys, s'), r'))"
    by (auto simp: rbind_Inr)
  also have "\<dots> \<longleftrightarrow> (\<exists>y ys. xs = y # ys \<and> ok y \<and> sz y \<le> s \<and> length ys = n \<and> list_all ok ys
      \<and> sum_list (map sz ys) + s' = s - sz y \<and> r = enc y @ concat (map enc ys) @ r')"
    by (auto simp: slab_iff Suc.IH)
  also have "\<dots> \<longleftrightarrow> length xs = Suc n \<and> list_all ok xs \<and> sum_list (map sz xs) + s' = s \<and> r = concat (map enc xs) @ r'"
    by (cases xs) auto
  finally show ?case .
qed

lemma read_slab_enc:
  assumes "list_all ok xs" "sum_list (map sz xs) + s' = s" "length xs = n"
  shows "read_slab n dec sz s (concat (map enc xs) @ r) = Inr ((xs, s'), r)"
  using assms by (simp add: read_slab_iff)

end

sublocale slab_format \<subseteq> wire_format enc "dec s" "\<lambda>x. ok x \<and> sz x \<le> s"
  by unfold_locales (auto simp: slab_iff)

definition script_ok :: "bytes \<Rightarrow> bool" where
  "script_ok b \<longleftrightarrow> length b \<le> maxWitnessItemSize"

definition in_ok :: "tx_in \<Rightarrow> bool" where
  "in_ok ti \<longleftrightarrow> is_hash (op_Hash (in_PreviousOutPoint ti)) \<and> script_ok (in_SignatureScript ti) \<and> in_Witness ti = []"

definition out_ok :: "tx_out \<Rightarrow> bool" where
  "out_ok to \<longleftrightarrow> script_ok (out_PkScript to)"

definition witness_ok :: "bytes list \<Rightarrow> bool" where
  "witness_ok w \<longleftrightarrow> length w \<le> maxWitnessItemsPerInput \<and> list_all script_ok w"

interpretation outpoint_format: wire_format writeOutPoint readOutPoint "\<lambda>op. is_hash (op_Hash op)"
  by unfold_locales
    (auto simp: readOutPoint_def writeOutPoint_def rbind_Inr ReadFull_Inr u32_format.dec_iff is_hash_def)

lemma unat_len: "length b \<le> n \<Longrightarrow> n \<le> 40000000 \<Longrightarrow> unat (word_of_nat (length b) :: u64) = length b"
  by (rule unat_word_of_length) simp

interpretation script_format: slab_format WriteVarBytes readScript script_ok length
proof
  fix s and r x r' :: bytes
  have m: "maxWitnessItemSize \<le> 40000000" by (simp add: maxWitnessItemSize_def)
  show "readScript s r = Inr (x, r') \<longleftrightarrow> script_ok x \<and> length x \<le> s \<and> r = WriteVarBytes x @ r'"
  proof
    assume "readScript s r = Inr (x, r')"
    then show "script_ok x \<and> length x \<le> s \<and> r = WriteVarBytes x @ r'"
      by (auto simp: readScript_def WriteVarBytes_def rbind_Inr varint.dec_iff ReadFull_Inr script_ok_def split: if_splits)
  next
    assume "script_ok x \<and> length x \<le> s \<and> r = WriteVarBytes x @ r'"
    then show "readScript s r = Inr (x, r')" using unat_len [OF _ m, of x]
      by (auto simp: readScript_def WriteVarBytes_def rbind_def varint.dec_enc ReadFull_append script_ok_def)
  qed
qed

interpretation in_format: slab_format writeTxIn readTxIn in_ok "length \<circ> in_SignatureScript"
proof
  fix s x and r r' :: bytes
  show "readTxIn s r = Inr (x, r') \<longleftrightarrow> in_ok x \<and> (length \<circ> in_SignatureScript) x \<le> s \<and> r = writeTxIn x @ r'"
  proof
    assume "readTxIn s r = Inr (x, r')"
    then show "in_ok x \<and> (length \<circ> in_SignatureScript) x \<le> s \<and> r = writeTxIn x @ r'"
      by (auto simp: readTxIn_def writeTxIn_def in_ok_def rbind_Inr outpoint_format.dec_iff
        script_format.slab_iff u32_format.dec_iff)
  next
    assume "in_ok x \<and> (length \<circ> in_SignatureScript) x \<le> s \<and> r = writeTxIn x @ r'"
    then show "readTxIn s r = Inr (x, r')"
      by (simp add: readTxIn_def writeTxIn_def in_ok_def rbind_def outpoint_format.dec_enc script_format.dec_enc
        u32_format.dec_enc rret_def)
  qed
qed

interpretation out_format: slab_format WriteTxOut readTxOut out_ok "length \<circ> out_PkScript"
proof
  fix s x and r r' :: bytes
  show "readTxOut s r = Inr (x, r') \<longleftrightarrow> out_ok x \<and> (length \<circ> out_PkScript) x \<le> s \<and> r = WriteTxOut x @ r'"
  proof
    assume "readTxOut s r = Inr (x, r')"
    then show "out_ok x \<and> (length \<circ> out_PkScript) x \<le> s \<and> r = WriteTxOut x @ r'"
      by (auto simp: readTxOut_def WriteTxOut_def out_ok_def rbind_Inr script_format.slab_iff u64_format.dec_iff)
  next
    assume "out_ok x \<and> (length \<circ> out_PkScript) x \<le> s \<and> r = WriteTxOut x @ r'"
    then show "readTxOut s r = Inr (x, r')"
      by (simp add: readTxOut_def WriteTxOut_def out_ok_def rbind_def script_format.dec_enc u64_format.dec_enc rret_def)
  qed
qed

interpretation witness_format: slab_format writeTxWitness readWitness witness_ok sum_len
proof
  fix s and x and r r' :: bytes
  have m: "maxWitnessItemsPerInput \<le> 40000000" by (simp add: maxWitnessItemsPerInput_def)
  show "readWitness s r = Inr (x, r') \<longleftrightarrow> witness_ok x \<and> sum_len x \<le> s \<and> r = writeTxWitness x @ r'"
  proof
    assume "readWitness s r = Inr (x, r')"
    then show "witness_ok x \<and> sum_len x \<le> s \<and> r = writeTxWitness x @ r'"
      by (auto simp: readWitness_def writeTxWitness_def rbind_Inr varint.dec_iff script_format.read_slab_iff witness_ok_def
        split: if_splits)
  next
    assume a: "witness_ok x \<and> sum_len x \<le> s \<and> r = writeTxWitness x @ r'"
    then have "read_slab (length x) readScript length s (concat (map WriteVarBytes x) @ r') = Inr ((x, s - sum_len x), r')"
      by (intro script_format.read_slab_enc) (auto simp: witness_ok_def)
    then show "readWitness s r = Inr (x, r')" using unat_len [OF _ m, of x] a
      by (simp add: readWitness_def writeTxWitness_def rbind_def varint.dec_enc witness_ok_def rret_def)
  qed
qed

section \<open>The format of a transaction\<close>

definition strip_in :: "tx_in \<Rightarrow> tx_in" where
  "strip_in ti = ti\<lparr>in_Witness := []\<rparr>"

definition script_room :: "msg_tx \<Rightarrow> nat" where
  "script_room msg = sum_list (map (length \<circ> in_SignatureScript) (tx_TxIn msg))
    + sum_list (map (length \<circ> out_PkScript) (tx_TxOut msg))
    + sum_list (map (sum_len \<circ> in_Witness) (tx_TxIn msg))"

text \<open>The transactions that an encoding can carry.\<close>

definition tx_ok :: "MessageEncoding \<Rightarrow> msg_tx \<Rightarrow> bool" where
  "tx_ok enc msg \<longleftrightarrow>
    list_all (\<lambda>ti. in_ok (strip_in ti) \<and> witness_ok (in_Witness ti)) (tx_TxIn msg) \<and> list_all out_ok (tx_TxOut msg)
    \<and> length (tx_TxIn msg) \<le> maxTxInPerMessage \<and> length (tx_TxOut msg) \<le> maxTxOutPerMessage
    \<and> script_room msg \<le> scriptSlabSize
    \<and> (case enc of BaseEncoding \<Rightarrow> \<not> HasWitness (tx_TxIn msg) | WitnessEncoding \<Rightarrow> tx_TxIn msg \<noteq> [])"

lemma strip_in_simps [simp]:
  "writeTxIn (strip_in ti) = writeTxIn ti" "in_SignatureScript (strip_in ti) = in_SignatureScript ti"
  "in_Witness (strip_in ti) = []" "(strip_in ti)\<lparr>in_Witness := in_Witness ti\<rparr> = ti"
  by (simp_all add: strip_in_def writeTxIn_def)

lemma strip_in_id: "in_ok ti \<Longrightarrow> strip_in ti = ti"
  by (simp add: strip_in_def in_ok_def)

lemma writeTxIn_witness [simp]: "writeTxIn (ti\<lparr>in_Witness := w\<rparr>) = writeTxIn ti"
  by (simp add: writeTxIn_def)

lemma no_witness: "\<not> HasWitness ins \<Longrightarrow> ti \<in> set ins \<Longrightarrow> in_Witness ti = []"
  by (auto simp: HasWitness_def list_ex_iff)

lemma map_strip_id: "\<not> HasWitness ins \<Longrightarrow> map strip_in ins = ins"
  by (rule map_idI) (simp add: strip_in_def no_witness)

lemma restore_witness: "map2 (\<lambda>ti w. ti\<lparr>in_Witness := w\<rparr>) (map strip_in ins) (map in_Witness ins) = ins"
  by (induction ins) simp_all

lemma max_small: "maxTxInPerMessage \<le> 40000000" "maxTxOutPerMessage \<le> 40000000"
  by (simp_all add: maxTxInPerMessage_def maxTxOutPerMessage_def MaxMessagePayload_def minTxInPayload_def MinTxOutPayload_def)

lemma WriteVarInt_0: "WriteVarInt 0 = [0]"
  by (simp add: WriteVarInt_def)

lemma ReadVarInt_0: "ReadVarInt (0 # r) = Inr (0, r)"
  using varint.dec_enc [of 0 r] by (simp add: WriteVarInt_0)

lemma word_of_len_zero: "length xs \<le> 40000000 \<Longrightarrow> (word_of_nat (length xs) :: u64) = 0 \<longleftrightarrow> xs = []"
  using unat_len [of xs 40000000] by (auto simp: word_unat_eq_iff)

lemma btcDecode_btcEncode:
  assumes ok: "tx_ok enc msg"
  shows "btcDecode enc (btcEncode enc msg @ r) = Inr (msg, r)"
proof -
  let ?ins = "map strip_in (tx_TxIn msg)" and ?w = "enc = WitnessEncoding \<and> HasWitness (tx_TxIn msg)"
  define s1 s2 where "s1 = scriptSlabSize - sum_list (map (length \<circ> in_SignatureScript) ?ins)"
    and "s2 = s1 - sum_list (map (length \<circ> out_PkScript) (tx_TxOut msg))"
  have o: "(length \<circ> in_SignatureScript) \<circ> strip_in = length \<circ> in_SignatureScript" by auto
  have room: "sum_list (map (length \<circ> in_SignatureScript) ?ins) + s1 = scriptSlabSize"
    "sum_list (map (length \<circ> out_PkScript) (tx_TxOut msg)) + s2 = s1"
    "sum_list (map (sum_len \<circ> in_Witness) (tx_TxIn msg)) + (s2 - sum_list (map (sum_len \<circ> in_Witness) (tx_TxIn msg))) = s2"
    using ok by (auto simp: tx_ok_def script_room_def s1_def s2_def o)
  have ins: "read_slab (length (tx_TxIn msg)) readTxIn (length \<circ> in_SignatureScript) scriptSlabSize
      (concat (map writeTxIn (tx_TxIn msg)) @ t) = Inr ((?ins, s1), t)" for t
    using in_format.read_slab_enc [of ?ins s1 scriptSlabSize "length (tx_TxIn msg)" t] ok room(1)
    by (simp add: tx_ok_def list_all_iff o_def)
  have outs: "read_slab (length (tx_TxOut msg)) readTxOut (length \<circ> out_PkScript) s1
      (concat (map WriteTxOut (tx_TxOut msg)) @ t) = Inr ((tx_TxOut msg, s2), t)" for t
    using out_format.read_slab_enc [of "tx_TxOut msg" s2 s1 "length (tx_TxOut msg)" t] ok room(2)
    by (simp add: tx_ok_def)
  obtain s3 where wits: "read_slab (length (tx_TxIn msg)) readWitness sum_len s2
      (concat (map (writeTxWitness \<circ> in_Witness) (tx_TxIn msg)) @ t) = Inr ((map in_Witness (tx_TxIn msg), s3), t)" for t
    using witness_format.read_slab_enc [of "map in_Witness (tx_TxIn msg)"] ok room(3)
    by (simp add: tx_ok_def list_all_iff o_def)
  have len: "unat (word_of_nat (length (tx_TxIn msg)) :: u64) = length (tx_TxIn msg)"
    "unat (word_of_nat (length (tx_TxOut msg)) :: u64) = length (tx_TxOut msg)"
    using ok max_small by (auto simp: tx_ok_def intro!: unat_len)
  have lim: "\<not> maxTxInPerMessage < length (tx_TxIn msg)" "\<not> maxTxOutPerMessage < length (tx_TxOut msg)"
    using ok by (auto simp: tx_ok_def)
  show ?thesis
  proof (cases ?w)
    case True
    then show ?thesis
      by (simp add: btcDecode_def decode_defs btcEncode_def Let_def rbind_def rret_def u32_format.dec_enc ReadVarInt_0 varint.dec_enc
        ReadFull_1 TxFlagMarker_def WitnessFlag_def len lim ins outs wits restore_witness)
  next
    case False
    then have n: "\<not> HasWitness (tx_TxIn msg)" "enc = WitnessEncoding \<Longrightarrow> tx_TxIn msg \<noteq> []"
      using ok by (auto simp: tx_ok_def split: MessageEncoding.splits)
    have "enc = BaseEncoding \<or> enc = WitnessEncoding \<and> (word_of_nat (length (tx_TxIn msg)) :: u64) \<noteq> 0"
      using n(2) word_of_len_zero [of "tx_TxIn msg"] lim(1) max_small(1) by (cases enc) auto
    then show ?thesis using n(1)
      by (auto simp: btcDecode_def decode_defs btcEncode_def Let_def rbind_def rret_def u32_format.dec_enc varint.dec_enc
        TxFlagMarker_def len lim ins outs map_strip_id)
  qed
qed

lemma list_all_in_ok: "list_all in_ok ins \<Longrightarrow> \<not> HasWitness ins"
  by (auto simp: list_all_iff in_ok_def HasWitness_def list_ex_iff)

lemma sum_no_witness: "\<not> HasWitness ins \<Longrightarrow> sum_list (map (sum_len \<circ> in_Witness) ins) = 0"
  by (auto simp: no_witness)

lemma tx_ok_no_witness:
  assumes "list_all in_ok ins" "list_all out_ok outs" "length ins \<le> maxTxInPerMessage" "length outs \<le> maxTxOutPerMessage"
    and "sum_list (map (length \<circ> in_SignatureScript) ins) + sum_list (map (length \<circ> out_PkScript) outs) \<le> scriptSlabSize"
    and "enc = WitnessEncoding \<Longrightarrow> ins \<noteq> []"
  shows "tx_ok enc \<lparr>tx_Version = v, tx_TxIn = ins, tx_TxOut = outs, tx_LockTime = l\<rparr>"
proof -
  have n: "\<not> HasWitness ins" by (rule list_all_in_ok [OF assms(1)])
  have "list_all (\<lambda>ti. in_ok (strip_in ti) \<and> witness_ok (in_Witness ti)) ins"
    using assms(1) n by (auto simp: list_all_iff strip_in_id no_witness witness_ok_def)
  then show ?thesis using assms n
    by (auto simp: tx_ok_def script_room_def sum_no_witness split: MessageEncoding.split)
qed

lemma map2_witness:
  "length ins = length wits \<Longrightarrow> list_all in_ok ins \<Longrightarrow>
   map strip_in (map2 (\<lambda>ti w. ti\<lparr>in_Witness := w\<rparr>) ins wits) = ins
   \<and> map in_Witness (map2 (\<lambda>ti w. ti\<lparr>in_Witness := w\<rparr>) ins wits) = wits"
  by (induction ins wits rule: list_induct2) (auto simp: strip_in_def in_ok_def)

lemma concat_map_strip: "concat (map writeTxIn ins) = concat (map writeTxIn (map strip_in ins))"
  by (simp add: o_def)

lemma tx_ok_witness:
  assumes i: "map strip_in ins = bare" "list_all in_ok bare" and w: "map in_Witness ins = wits" "list_all witness_ok wits"
    and o: "list_all out_ok outs" "length bare \<le> maxTxInPerMessage" "length outs \<le> maxTxOutPerMessage"
    and s: "sum_list (map (length \<circ> in_SignatureScript) bare) + sum_list (map (length \<circ> out_PkScript) outs)
      + sum_list (map sum_len wits) \<le> scriptSlabSize"
    and h: "HasWitness ins"
  shows "tx_ok WitnessEncoding \<lparr>tx_Version = v, tx_TxIn = ins, tx_TxOut = outs, tx_LockTime = l\<rparr>"
proof -
  have l: "length ins = length bare" using i(1) by (metis length_map)
  have "list_all (\<lambda>ti. in_ok (strip_in ti) \<and> witness_ok (in_Witness ti)) ins"
    using i(2) w(2) unfolding i(1) [symmetric] w(1) [symmetric] by (auto simp: list_all_iff)
  moreover have "sum_list (map (length \<circ> in_SignatureScript) bare) = sum_list (map (length \<circ> in_SignatureScript) ins)"
    unfolding i(1) [symmetric] by (simp add: o_def)
  moreover have "sum_list (map sum_len wits) = sum_list (map (sum_len \<circ> in_Witness) ins)"
    unfolding w(1) [symmetric] by simp
  moreover have "ins \<noteq> []" using h by (auto simp: HasWitness_def)
  ultimately show ?thesis using o s by (simp add: tx_ok_def script_room_def l)
qed

lemma len_word: "length xs = unat c \<Longrightarrow> word_of_nat (length xs) = (c :: u64)"
  by simp

lemma decode_count_cases:
  assumes "decode_count enc r = Inr ((flag, c), r')"
  obtains (witness) "flag = WitnessFlag" "enc = WitnessEncoding" "r = TxFlagMarker # WitnessFlag # WriteVarInt c @ r'"
  | (base) "flag = 0" "enc = WitnessEncoding \<Longrightarrow> c \<noteq> 0" "r = WriteVarInt c @ r'"
proof -
  obtain c0 r1 where c: "r = WriteVarInt c0 @ r1" and
    d: "(if c0 = 0 \<and> enc = WitnessEncoding then
       rbind (ReadFull 1) (\<lambda>flag.
         if hd flag \<noteq> WitnessFlag then rfail MessageError
         else rbind ReadVarInt (\<lambda>count. rret (hd flag, count)))
     else rret (0, c0)) r1 = Inr ((flag, c), r')"
    using assms by (auto simp: decode_count_def rbind_Inr [of ReadVarInt] varint.dec_iff TxFlagMarker_def)
  show ?thesis
  proof (cases "c0 = 0 \<and> enc = WitnessEncoding")
    case True
    then show ?thesis using c d
      by (intro witness) (auto simp: rbind_Inr ReadFull_Inr varint.dec_iff WriteVarInt_0 TxFlagMarker_def length_Suc_conv
        split: if_splits)
  next
    case False
    then show ?thesis using c d by (intro base) auto
  qed
qed

lemma decode_outs_cases:
  assumes "decode_outs s r = Inr ((outs, s'), r')"
  shows "length outs \<le> maxTxOutPerMessage \<and> list_all out_ok outs \<and> sum_list (map (length \<circ> out_PkScript) outs) + s' = s
    \<and> r = WriteVarInt (word_of_nat (length outs)) @ concat (map WriteTxOut outs) @ r'"
  using assms by (auto simp: decode_outs_def rbind_Inr varint.dec_iff out_format.read_slab_iff split: if_splits)

lemma decode_ins_cases:
  assumes "decode_ins c s r = Inr ((ins, s'), r')"
  shows "length ins \<le> maxTxInPerMessage \<and> list_all in_ok ins \<and> sum_list (map (length \<circ> in_SignatureScript) ins) + s' = s
    \<and> length ins = unat c \<and> r = concat (map writeTxIn ins) @ r'"
  using assms by (auto simp: decode_ins_def in_format.read_slab_iff split: if_splits)

lemma decode_witness_cases:
  assumes "decode_witness enc flag ins s r = Inr (ins', r')" "list_all in_ok ins"
  obtains (witness) wits where "enc = WitnessEncoding" "flag \<noteq> 0" "map strip_in ins' = ins" "map in_Witness ins' = wits" "HasWitness ins'"
      "list_all witness_ok wits" "sum_list (map sum_len wits) \<le> s" "r = concat (map (writeTxWitness \<circ> in_Witness) ins') @ r'"
  | (base) "\<not> (flag \<noteq> 0 \<and> enc = WitnessEncoding)" "ins' = ins" "r' = r"
proof (cases "flag \<noteq> 0 \<and> enc = WitnessEncoding")
  case True
  then obtain wits s' where w: "read_slab (length ins) readWitness sum_len s r = Inr ((wits, s'), r')"
      "ins' = map2 (\<lambda>ti w. ti\<lparr>in_Witness := w\<rparr>) ins wits" "HasWitness ins'"
    using assms(1) by (auto simp: decode_witness_def rbind_Inr Let_def split: if_splits)
  note w1 = w(1) [unfolded witness_format.read_slab_iff]
  have m: "map strip_in ins' = ins \<and> map in_Witness ins' = wits"
    unfolding w(2) by (rule map2_witness) (use w1 assms(2) in auto)
  show ?thesis using True w(3) w1 m by (intro witness [of wits]) auto
next
  case False
  then show ?thesis using assms(1) by (intro base) (auto simp: decode_witness_def)
qed

lemma btcDecode_canonical:
  assumes "btcDecode enc r = Inr (msg, r')"
  shows "tx_ok enc msg \<and> r = btcEncode enc msg @ r'"
proof -
  obtain v r1 flag c r2 ins s1 r3 outs s2 r4 ins' r5 l where
    r: "r = le_bytes 4 v @ r1" "r5 = le_bytes 4 l @ r'" and
    msg: "msg = \<lparr>tx_Version = v, tx_TxIn = ins', tx_TxOut = outs, tx_LockTime = l\<rparr>" and
    c: "decode_count enc r1 = Inr ((flag, c), r2)" and i: "decode_ins c scriptSlabSize r2 = Inr ((ins, s1), r3)" and
    o: "decode_outs s1 r3 = Inr ((outs, s2), r4)" and w: "decode_witness enc flag ins s2 r4 = Inr (ins', r5)"
    using assms by (auto simp: btcDecode_def rbind_Inr u32_format.dec_iff)
  note i = decode_ins_cases [OF i] and o = decode_outs_cases [OF o]
  have ok: "list_all in_ok ins" using i by simp
  from w ok show ?thesis
  proof (cases rule: decode_witness_cases)
    case (witness wits)
    have n: "length ins' = length ins" using witness(3) by (metis length_map)
    have cc: "r1 = TxFlagMarker # WitnessFlag # WriteVarInt c @ r2"
      using c by (cases rule: decode_count_cases) (use witness in auto)
    have "tx_ok enc msg" unfolding msg witness(1)
      by (rule tx_ok_witness [OF witness(3) ok witness(4,6)]) (use i o witness in auto)
    moreover have "r = btcEncode enc msg @ r'"
      using r cc i o witness len_word [of ins c] concat_map_strip [of ins'] unfolding msg
      by (simp add: btcEncode_def n)
    ultimately show ?thesis by simp
  next
    case base
    have cc: "r1 = WriteVarInt c @ r2 \<and> (enc = WitnessEncoding \<longrightarrow> c \<noteq> 0)"
      using c by (cases rule: decode_count_cases) (use base in \<open>auto simp: WitnessFlag_def\<close>)
    then have "ins \<noteq> []" if "enc = WitnessEncoding" using that i by (auto simp: unat_eq_0)
    then have "tx_ok enc msg" unfolding msg base(2) using i o by (intro tx_ok_no_witness) auto
    moreover have "r = btcEncode enc msg @ r'"
      using r cc i o base len_word [of ins c] list_all_in_ok [OF ok] unfolding msg
      by (simp add: btcEncode_def)
    ultimately show ?thesis by simp
  qed
qed

interpretation tx_format: wire_format "btcEncode enc" "btcDecode enc" "tx_ok enc"
  by unfold_locales (simp_all add: btcDecode_btcEncode btcDecode_canonical)

section \<open>Sizes and identifiers\<close>

lemma fold_plus: "fold (\<lambda>t n. n + f t) xs (n::nat) = n + sum_list (map f xs)"
  by (induction xs arbitrary: n) auto

lemma fold_plus2: "fold (\<lambda>t n. n + f t + g t) xs (n::nat) = n + sum_list (map (\<lambda>t. f t + g t) xs)"
  by (induction xs arbitrary: n) auto

lemma length_WriteVarBytes: "length (WriteVarBytes b) = size_of_len b + length b"
  by (simp add: WriteVarBytes_def WriteVarInt_length)

lemma length_writeTxIn: "is_hash (op_Hash (in_PreviousOutPoint ti)) \<Longrightarrow> length (writeTxIn ti) = TxIn_SerializeSize ti"
  by (simp add: writeTxIn_def writeOutPoint_def is_hash_def length_WriteVarBytes TxIn_SerializeSize_def)

lemma length_WriteTxOut: "length (WriteTxOut to) = TxOut_SerializeSize to"
  by (simp add: WriteTxOut_def length_WriteVarBytes TxOut_SerializeSize_def)

lemma length_writeTxWitness: "length (writeTxWitness w) = TxWitness_SerializeSize w"
  by (simp add: writeTxWitness_def TxWitness_SerializeSize_def fold_plus2 WriteVarInt_length length_concat length_WriteVarBytes
    o_def)

definition hashes_ok :: "msg_tx \<Rightarrow> bool" where
  "hashes_ok msg = list_all (\<lambda>ti. is_hash (op_Hash (in_PreviousOutPoint ti))) (tx_TxIn msg)"

lemma sum_length_ins: "hashes_ok msg \<Longrightarrow>
  sum_list (map (length \<circ> writeTxIn) (tx_TxIn msg)) = sum_list (map TxIn_SerializeSize (tx_TxIn msg))"
  by (rule arg_cong [where f = sum_list]) (auto simp: hashes_ok_def list_all_iff length_writeTxIn)

lemma length_base: "hashes_ok msg \<Longrightarrow> length (SerializeNoWitness msg) = baseSize msg"
  by (simp add: SerializeNoWitness_def btcEncode_def baseSize_def fold_plus WriteVarInt_length length_concat sum_length_ins
    length_WriteTxOut o_def [of length WriteTxOut] Let_def)

lemma length_Serialize: "hashes_ok msg \<Longrightarrow> length (Serialize msg) = SerializeSize msg"
  using length_base [of msg]
  by (simp add: SerializeNoWitness_def Serialize_def SerializeSize_def btcEncode_def fold_plus length_concat
    length_writeTxWitness o_def [of length "writeTxWitness \<circ> in_Witness"] Let_def)

lemma tx_ok_hashes: "tx_ok enc msg \<Longrightarrow> hashes_ok msg"
  by (auto simp: tx_ok_def hashes_ok_def list_all_iff in_ok_def strip_in_def)

definition strip :: "msg_tx \<Rightarrow> msg_tx" where
  "strip msg = msg\<lparr>tx_TxIn := map strip_in (tx_TxIn msg)\<rparr>"

lemma strip_base: "btcEncode BaseEncoding (strip msg) = btcEncode BaseEncoding msg"
  by (simp add: btcEncode_def strip_def o_def)

section \<open>Properties\<close>

text \<open>
  C13: decoding a transaction is exactly the inverse of encoding it, with and without witness data. A stream
  decodes to a transaction and a rest if and only if the transaction is one the limits allow and the stream
  is its encoding followed by the rest: what was written is read back, and no other bytes are accepted for
  it, so the bytes under a transaction cannot be changed without changing the transaction.
\<close>

theorem tx_decode_exact:
  "btcDecode enc r = Inr (msg, rest) \<longleftrightarrow> tx_ok enc msg \<and> r = btcEncode enc msg @ rest"
  by (rule tx_format.dec_iff)

text \<open>
  C27: the computed sizes are the lengths of what is written, for every transaction that was read from the
  network, and the identifier of a transaction does not depend on its witness data.
\<close>

theorem tx_sizes_exact:
  assumes "Deserialize r = Inr (msg, rest)"
  shows "SerializeSize msg = length r - length rest \<and> length (Serialize msg) = SerializeSize msg
    \<and> length (SerializeNoWitness msg) = baseSize msg \<and> TxHash H (strip msg) = TxHash H msg"
proof -
  have d: "tx_ok WitnessEncoding msg" "r = Serialize msg @ rest"
    using assms by (simp_all add: Deserialize_def Serialize_def tx_format.dec_iff)
  have h: "hashes_ok msg" using d(1) by (rule tx_ok_hashes)
  show ?thesis using d(2) length_Serialize [OF h] length_base [OF h]
    by (simp add: TxHash_def SerializeNoWitness_def strip_base)
qed

definition ex_wire_tx :: msg_tx where
  "ex_wire_tx = \<lparr>tx_Version = 2, tx_TxIn = [\<lparr>in_PreviousOutPoint = \<lparr>op_Hash = replicate 32 7, op_Index = 1\<rparr>,
     in_SignatureScript = [], in_Witness = [[1, 2], []], in_Sequence = 3\<rparr>],
     tx_TxOut = [\<lparr>out_Value = 5, out_PkScript = [0x51]\<rparr>], tx_LockTime = 9\<rparr>"

lemma ex_wire_tx_ok: "tx_ok WitnessEncoding ex_wire_tx"
  by (simp add: tx_ok_def ex_wire_tx_def in_ok_def strip_in_def is_hash_def script_ok_def witness_ok_def out_ok_def
    maxWitnessItemSize_def maxWitnessItemsPerInput_def maxTxInPerMessage_def maxTxOutPerMessage_def MaxMessagePayload_def
    minTxInPayload_def MinTxOutPayload_def script_room_def scriptSlabSize_def)

theorem tx_sizes_exact_witness:
  "Deserialize (Serialize ex_wire_tx @ [1]) = Inr (ex_wire_tx, [1])
   \<and> length (Serialize ex_wire_tx) = SerializeSize ex_wire_tx \<and> SerializeSize ex_wire_tx = 68"
proof -
  have d: "Deserialize (Serialize ex_wire_tx @ [1]) = Inr (ex_wire_tx, [1])"
    using ex_wire_tx_ok by (simp add: Deserialize_def Serialize_def btcDecode_btcEncode)
  have "SerializeSize ex_wire_tx = 68"
    by (simp add: SerializeSize_def baseSize_def ex_wire_tx_def TxIn_SerializeSize_def TxOut_SerializeSize_def
      TxWitness_SerializeSize_def VarIntSerializeSize_def HasWitness_def)
  moreover have "length (Serialize ex_wire_tx) = SerializeSize ex_wire_tx" using tx_sizes_exact [OF d] by blast
  ultimately show ?thesis using d by blast
qed

end
