(* ===== verification/Wire_Block.thy ===== *)
theory Wire_Block
  imports Wire_Tx
begin

text \<open>
  Block headers and blocks on the wire, \<open>wire/blockheader.go\<close> and \<open>wire/msgblock.go\<close>, with the decoder that
  records where each transaction lies in the raw block. A timestamp is the number of its Unix seconds.
\<close>

section \<open>Headers\<close>

record block_header =
  bh_Version :: i32
  bh_PrevBlock :: hash
  bh_MerkleRoot :: hash
  bh_Timestamp :: int
  bh_Bits :: u32
  bh_Nonce :: u32

definition blockHeaderLen :: nat where
  "blockHeaderLen = 80"

definition readBlockHeader :: "block_header reader" where
  "readBlockHeader = rbind Uint32 (\<lambda>version. rbind (ReadFull 32) (\<lambda>prev. rbind (ReadFull 32) (\<lambda>root.
     rbind Uint32 (\<lambda>time. rbind Uint32 (\<lambda>bits. rbind Uint32 (\<lambda>nonce.
     rret \<lparr>bh_Version = version, bh_PrevBlock = prev, bh_MerkleRoot = root, bh_Timestamp = uint time,
       bh_Bits = bits, bh_Nonce = nonce\<rparr>))))))"

definition writeBlockHeader :: "block_header \<Rightarrow> bytes" where
  "writeBlockHeader bh = le_bytes 4 (bh_Version bh) @ bh_PrevBlock bh @ bh_MerkleRoot bh
     @ le_bytes 4 (word_of_int (bh_Timestamp bh) :: u32) @ le_bytes 4 (bh_Bits bh) @ le_bytes 4 (bh_Nonce bh)"

definition BlockHash :: "(bytes \<Rightarrow> hash) \<Rightarrow> block_header \<Rightarrow> hash" where
  "BlockHash H bh = H (writeBlockHeader bh)"

section \<open>Blocks\<close>

record msg_block =
  mb_Header :: block_header
  mb_Transactions :: "msg_tx list"

definition MaxBlockPayload :: nat where
  "MaxBlockPayload = 4000000"

definition minTxPayload :: nat where
  "minTxPayload = 10"

definition maxTxPerBlock :: nat where
  "maxTxPerBlock = MaxBlockPayload div minTxPayload + 1"

record tx_loc =
  TxStart :: int
  TxLen :: int

definition Block_BtcDecode :: "MessageEncoding \<Rightarrow> msg_block reader" where
  "Block_BtcDecode enc = rbind readBlockHeader (\<lambda>h. rbind ReadVarInt (\<lambda>txCount.
     if unat txCount > maxTxPerBlock then rfail MessageError
     else rbind (read_n (unat txCount) (btcDecode enc)) (\<lambda>txs. rret \<lparr>mb_Header = h, mb_Transactions = txs\<rparr>)))"

definition Block_BtcEncode :: "MessageEncoding \<Rightarrow> msg_block \<Rightarrow> bytes" where
  "Block_BtcEncode enc msg = writeBlockHeader (mb_Header msg) @ WriteVarInt (word_of_nat (length (mb_Transactions msg)))
     @ concat (map (btcEncode enc) (mb_Transactions msg))"

definition Block_SerializeSize :: "msg_block \<Rightarrow> nat" where
  "Block_SerializeSize msg = fold (\<lambda>tx n. n + SerializeSize tx) (mb_Transactions msg)
     (blockHeaderLen + VarIntSerializeSize (word_of_nat (length (mb_Transactions msg))))"

definition Block_SerializeSizeStripped :: "msg_block \<Rightarrow> nat" where
  "Block_SerializeSizeStripped msg = fold (\<lambda>tx n. n + baseSize tx) (mb_Transactions msg)
     (blockHeaderLen + VarIntSerializeSize (word_of_nat (length (mb_Transactions msg))))"

text \<open>The loop of \<open>DeserializeTxLoc\<close>; \<open>fullLen\<close> is the length of the raw block.\<close>

primrec tx_loc_loop :: "nat \<Rightarrow> nat \<Rightarrow> (msg_tx \<times> tx_loc) list reader" where
  "tx_loc_loop 0 fullLen = rret []"
| "tx_loc_loop (Suc n) fullLen = (\<lambda>r.
     let start = int fullLen - int (length r) in
     rbind (btcDecode WitnessEncoding) (\<lambda>tx r'.
       let loc = \<lparr>TxStart = start, TxLen = (int fullLen - int (length r')) - start\<rparr> in
       rbind (tx_loc_loop n fullLen) (\<lambda>rest. rret ((tx, loc) # rest)) r') r)"

definition DeserializeTxLoc :: "(msg_block \<times> tx_loc list) reader" where
  "DeserializeTxLoc r =
    (let fullLen = length r in
     rbind readBlockHeader (\<lambda>h. rbind ReadVarInt (\<lambda>txCount.
       if unat txCount > maxTxPerBlock then rfail MessageError
       else rbind (tx_loc_loop (unat txCount) fullLen) (\<lambda>xs.
         rret (\<lparr>mb_Header = h, mb_Transactions = map fst xs\<rparr>, map snd xs)))) r)"

section \<open>Formats\<close>

definition header_ok :: "block_header \<Rightarrow> bool" where
  "header_ok bh \<longleftrightarrow> is_hash (bh_PrevBlock bh) \<and> is_hash (bh_MerkleRoot bh) \<and> 0 \<le> bh_Timestamp bh \<and> bh_Timestamp bh < 2 ^ 32"

lemma uint_word_of_int_32: "0 \<le> t \<Longrightarrow> t < 2 ^ 32 \<Longrightarrow> uint (word_of_int t :: u32) = t"
  by (simp add: uint_word_of_int mod_pos_pos_trivial)

interpretation header_format: wire_format writeBlockHeader readBlockHeader header_ok
proof
  fix x and r :: bytes
  assume "header_ok x"
  then show "readBlockHeader (writeBlockHeader x @ r) = Inr (x, r)"
    by (simp add: readBlockHeader_def writeBlockHeader_def rbind_def ReadFull_append u32_format.dec_enc rret_def
      header_ok_def is_hash_def uint_word_of_int_32)
next
  fix x and r r' :: bytes
  assume "readBlockHeader r = Inr (x, r')"
  then show "header_ok x \<and> r = writeBlockHeader x @ r'"
    using uint_lt2p [where 'a = 32]
    by (auto simp: readBlockHeader_def writeBlockHeader_def rbind_Inr ReadFull_Inr u32_format.dec_iff header_ok_def is_hash_def)
qed

lemma length_header: "header_ok bh \<Longrightarrow> length (writeBlockHeader bh) = blockHeaderLen"
  by (simp add: header_ok_def is_hash_def writeBlockHeader_def blockHeaderLen_def)

definition block_ok :: "MessageEncoding \<Rightarrow> msg_block \<Rightarrow> bool" where
  "block_ok enc msg \<longleftrightarrow> header_ok (mb_Header msg) \<and> list_all (tx_ok enc) (mb_Transactions msg)
     \<and> length (mb_Transactions msg) \<le> maxTxPerBlock"

lemma maxTxPerBlock_small: "maxTxPerBlock \<le> 40000000"
  by (simp add: maxTxPerBlock_def MaxBlockPayload_def minTxPayload_def)

interpretation block_format: wire_format "Block_BtcEncode enc" "Block_BtcDecode enc" "block_ok enc"
proof
  fix x and r :: bytes
  assume ok: "block_ok enc x"
  then have "unat (word_of_nat (length (mb_Transactions x)) :: u64) = length (mb_Transactions x)"
    by (intro unat_len [OF _ maxTxPerBlock_small]) (simp add: block_ok_def)
  moreover have "read_n (length (mb_Transactions x)) (btcDecode enc) (concat (map (btcEncode enc) (mb_Transactions x)) @ r)
      = Inr (mb_Transactions x, r)"
    using ok by (simp add: tx_format.read_n_iff block_ok_def)
  ultimately show "Block_BtcDecode enc (Block_BtcEncode enc x @ r) = Inr (x, r)"
    using ok by (simp add: Block_BtcDecode_def Block_BtcEncode_def rbind_def rret_def header_format.dec_enc varint.dec_enc
      block_ok_def)
next
  fix x and r r' :: bytes
  assume "Block_BtcDecode enc r = Inr (x, r')"
  then show "block_ok enc x \<and> r = Block_BtcEncode enc x @ r'"
    by (auto simp: Block_BtcDecode_def Block_BtcEncode_def rbind_Inr header_format.dec_iff varint.dec_iff
      tx_format.read_n_iff block_ok_def split: if_splits)
qed

section \<open>Where the transactions lie\<close>

definition located :: "bytes \<Rightarrow> tx_loc \<Rightarrow> msg_tx \<Rightarrow> bool" where
  "located raw loc tx \<longleftrightarrow> 0 \<le> TxStart loc \<and> 0 \<le> TxLen loc \<and> TxStart loc + TxLen loc \<le> int (length raw)
     \<and> slice (nat (TxStart loc)) (nat (TxStart loc + TxLen loc)) raw = Serialize tx"

lemma tx_loc_loop_located:
  "tx_loc_loop n (length (p @ r)) r = Inr (xs, r') \<Longrightarrow>
   read_n n (btcDecode WitnessEncoding) r = Inr (map fst xs, r') \<and> list_all (\<lambda>(tx, loc). located (p @ r) loc tx) xs"
proof (induction n arbitrary: p r xs)
  case (Suc n)
  obtain tx r1 ys where d: "btcDecode WitnessEncoding r = Inr (tx, r1)"
      and l: "tx_loc_loop n (length (p @ r)) r1 = Inr (ys, r')"
      and xs: "xs = (tx, \<lparr>TxStart = int (length p), TxLen = int (length r) - int (length r1)\<rparr>) # ys"
    using Suc.prems by (auto simp: Let_def rbind_Inr)
  have r: "r = Serialize tx @ r1" using d by (simp add: tx_format.dec_iff Serialize_def)
  have "tx_loc_loop n (length ((p @ Serialize tx) @ r1)) r1 = Inr (ys, r')" using l by (simp add: r)
  note ih = Suc.IH [OF this]
  have "located (p @ r) \<lparr>TxStart = int (length p), TxLen = int (length r) - int (length r1)\<rparr> tx"
    by (simp add: located_def r slice_def nat_add_distrib)
  then show ?case using d ih by (simp add: xs r rbind_def rret_def)
qed (auto simp: rret_def)

lemma DeserializeTxLoc_located:
  assumes "DeserializeTxLoc raw = Inr ((blk, locs), rest)"
  shows "Block_BtcDecode WitnessEncoding raw = Inr (blk, rest)"
    and "list_all2 (located raw) locs (mb_Transactions blk)"
proof -
  obtain h r1 c r2 xs where h: "readBlockHeader raw = Inr (h, r1)" and c: "ReadVarInt r1 = Inr (c, r2)"
      and m: "unat c \<le> maxTxPerBlock" and l: "tx_loc_loop (unat c) (length raw) r2 = Inr (xs, rest)"
      and b: "blk = \<lparr>mb_Header = h, mb_Transactions = map fst xs\<rparr>" "locs = map snd xs"
    using assms by (auto simp: DeserializeTxLoc_def Let_def rbind_Inr split: if_splits)
  have raw: "raw = (writeBlockHeader h @ WriteVarInt c) @ r2"
    using h c by (simp add: header_format.dec_iff varint.dec_iff)
  note L = tx_loc_loop_located [OF l [unfolded raw], folded raw]
  show "Block_BtcDecode WitnessEncoding raw = Inr (blk, rest)"
    using h c m L b(1) by (simp add: Block_BtcDecode_def rbind_def rret_def)
  show "list_all2 (located raw) locs (mb_Transactions blk)"
    using L by (auto simp: b list_all2_conv_all_nth list_all_length split: prod.splits)
qed

section \<open>Properties\<close>

text \<open>
  C16: decoding a block is exactly the inverse of encoding it, and \<open>DeserializeTxLoc\<close> decodes the same block:
  the location it returns for each transaction is within the raw block, and the bytes there are the
  serialization of that transaction.
\<close>

theorem block_decode_locates:
  assumes "DeserializeTxLoc raw = Inr ((blk, locs), rest)"
  shows "raw = Block_BtcEncode WitnessEncoding blk @ rest \<and> block_ok WitnessEncoding blk
    \<and> Block_BtcDecode WitnessEncoding raw = Inr (blk, rest) \<and> list_all2 (located raw) locs (mb_Transactions blk)"
  using DeserializeTxLoc_located [OF assms] by (simp add: block_format.dec_iff)

definition ex_wire_block :: msg_block where
  "ex_wire_block = \<lparr>mb_Header = \<lparr>bh_Version = 4, bh_PrevBlock = replicate 32 1, bh_MerkleRoot = replicate 32 2,
     bh_Timestamp = 1600000000, bh_Bits = 5, bh_Nonce = 6\<rparr>, mb_Transactions = [ex_wire_tx]\<rparr>"

theorem block_decode_locates_witness:
  "\<exists>loc. DeserializeTxLoc (Block_BtcEncode WitnessEncoding ex_wire_block) = Inr ((ex_wire_block, [loc]), [])
    \<and> located (Block_BtcEncode WitnessEncoding ex_wire_block) loc ex_wire_tx"
proof -
  let ?h = "mb_Header ex_wire_block"
  have h: "header_ok ?h" by (simp add: header_ok_def ex_wire_block_def is_hash_def)
  have t: "btcDecode WitnessEncoding (btcEncode WitnessEncoding ex_wire_tx) = Inr (ex_wire_tx, [])"
    using btcDecode_btcEncode [OF ex_wire_tx_ok, of "[]"] by simp
  have m: "mb_Transactions ex_wire_block = [ex_wire_tx]" "maxTxPerBlock = 400001"
    "ex_wire_block = \<lparr>mb_Header = ?h, mb_Transactions = [ex_wire_tx]\<rparr>"
    by (simp_all add: ex_wire_block_def maxTxPerBlock_def MaxBlockPayload_def minTxPayload_def)
  have "\<exists>loc. DeserializeTxLoc (Block_BtcEncode WitnessEncoding ex_wire_block) = Inr ((ex_wire_block, [loc]), [])"
    using t by (subst (2) m(3)) (simp add: DeserializeTxLoc_def Block_BtcEncode_def Let_def rbind_def rret_def
      header_format.dec_enc [OF h] varint.dec_enc m(1,2))
  then obtain loc where d: "DeserializeTxLoc (Block_BtcEncode WitnessEncoding ex_wire_block) = Inr ((ex_wire_block, [loc]), [])" ..
  show ?thesis using block_decode_locates [OF d] d m(1) by auto
qed

end
