(* ===== verification/Merkle.thy ===== *)
theory Merkle
  imports Wire_Block
begin

text \<open>
  Merkle trees over the transactions of a block: the tree stored in an array (\<open>blockchain/merkle.go\<close>), the
  root computed with one hash per level (\<open>blockchain/rolling_merkle.go\<close>), and the witness commitment. \<open>H\<close> is
  the double SHA-256 of \<open>chainhash\<close>. A panic is \<^term>\<open>None\<close>.
\<close>

section \<open>The tree in an array (\<open>merkle.go\<close>)\<close>

text \<open>The integer part of \<open>math.Log2\<close>; the floating point result has it right for every number below \<open>2^47\<close>.\<close>

fun log2 :: "nat \<Rightarrow> nat" where
  "log2 n = (if n < 2 then 0 else Suc (log2 (n div 2)))"

declare log2.simps [simp del]

definition nextPowerOfTwo :: "nat \<Rightarrow> nat" where
  "nextPowerOfTwo n = (if n AND (n - 1) = 0 then n else 2 ^ (log2 n + 1))"

definition HashMerkleBranches :: "(bytes \<Rightarrow> hash) \<Rightarrow> hash \<Rightarrow> hash \<Rightarrow> hash" where
  "HashMerkleBranches H left right = H (left @ right)"

definition leaf_hash :: "(bytes \<Rightarrow> hash) \<Rightarrow> bool \<Rightarrow> nat \<Rightarrow> msg_tx \<Rightarrow> hash" where
  "leaf_hash H witness i tx =
    (if witness \<and> i = 0 then zero_hash else if witness then WitnessHash H tx else TxHash H tx)"

definition leaves :: "(bytes \<Rightarrow> hash) \<Rightarrow> bool \<Rightarrow> msg_tx list \<Rightarrow> hash list" where
  "leaves H witness txs = map2 (leaf_hash H witness) [0..<length txs] txs"

definition parent_node :: "(bytes \<Rightarrow> hash) \<Rightarrow> hash option \<Rightarrow> hash option \<Rightarrow> hash option" where
  "parent_node H l r =
    (case l of None \<Rightarrow> None
     | Some a \<Rightarrow> (case r of None \<Rightarrow> Some (HashMerkleBranches H a a) | Some b \<Rightarrow> Some (HashMerkleBranches H a b)))"

function store_loop :: "(bytes \<Rightarrow> hash) \<Rightarrow> nat \<Rightarrow> nat \<Rightarrow> hash option list \<Rightarrow> hash option list" where
  "store_loop H i offset merkles =
    (if i < length merkles - 1
     then store_loop H (i + 2) (offset + 1) (merkles[offset := parent_node H (merkles ! i) (merkles ! (i + 1))])
     else merkles)"
  by pat_completeness auto
termination by (relation "measure (\<lambda>(H, i, offset, merkles). length merkles - i)") auto

declare store_loop.simps [simp del]

text \<open>Without transactions the size of the array is negative, and \<open>make\<close> panics.\<close>

definition BuildMerkleTreeStore :: "(bytes \<Rightarrow> hash) \<Rightarrow> msg_tx list \<Rightarrow> bool \<Rightarrow> hash option list option" where
  "BuildMerkleTreeStore H transactions witness =
    (let nextPoT = nextPowerOfTwo (length transactions) in
     if nextPoT = 0 then None
     else let merkles = map Some (leaves H witness transactions)
            @ replicate (nextPoT * 2 - 1 - length transactions) None
          in Some (store_loop H 0 nextPoT merkles))"

section \<open>The rolling root (\<open>rolling_merkle.go\<close>)\<close>

text \<open>The slice \<open>roots\<close> is kept with its last element first.\<close>

record rollingMerkleTreeStore =
  rm_roots :: "hash list"
  rm_numLeaves :: u64

definition newRollingMerkleTreeStore :: rollingMerkleTreeStore where
  "newRollingMerkleTreeStore = \<lparr>rm_roots = [], rm_numLeaves = 0\<rparr>"

fun rolling_add_loop :: "(bytes \<Rightarrow> hash) \<Rightarrow> u64 \<Rightarrow> nat \<Rightarrow> hash list \<Rightarrow> hash \<Rightarrow> hash list option" where
  "rolling_add_loop H n h roots newRoot =
    (if bit n h then (case roots of [] \<Rightarrow> None | root # roots \<Rightarrow> rolling_add_loop H n (h + 1) roots (HashMerkleBranches H root newRoot))
     else Some (newRoot # roots))"

declare rolling_add_loop.simps [simp del]

definition rolling_add :: "(bytes \<Rightarrow> hash) \<Rightarrow> hash \<Rightarrow> rollingMerkleTreeStore \<Rightarrow> rollingMerkleTreeStore option" where
  "rolling_add H x s = do {
     roots \<leftarrow> rolling_add_loop H (rm_numLeaves s) 0 (rm_roots s) x;
     Some \<lparr>rm_roots = roots, rm_numLeaves = rm_numLeaves s + 1\<rparr> }"

primrec rolling_add_all :: "(bytes \<Rightarrow> hash) \<Rightarrow> hash list \<Rightarrow> rollingMerkleTreeStore \<Rightarrow> rollingMerkleTreeStore option" where
  "rolling_add_all H [] s = Some s"
| "rolling_add_all H (x # xs) s = do { s \<leftarrow> rolling_add H x s; rolling_add_all H xs s }"

text \<open>
  The inner loop that shifts \<open>numLeaves\<close> until the bit \<open>h\<close> of \<open>currentLeaves\<close> is set. A bit at 64 or above is
  never set, so when 64 steps find none the loop does not end, which is \<^term>\<open>None\<close>.
\<close>

primrec shift_loop :: "nat \<Rightarrow> u64 \<Rightarrow> nat \<Rightarrow> u64 \<Rightarrow> u64 option" where
  "shift_loop 0 currentLeaves h n = None"
| "shift_loop (Suc fuel) currentLeaves h n =
    (if bit currentLeaves h then Some n else shift_loop fuel currentLeaves (h + 1) (drop_bit 1 n))"

partial_function (option) row_loop :: "(bytes \<Rightarrow> hash) \<Rightarrow> rollingMerkleTreeStore \<Rightarrow> rollingMerkleTreeStore option" where
  "row_loop H s =
    (if 1 < length (rm_roots s) then do {
       n \<leftarrow> shift_loop 64 (rm_numLeaves s) 0 (rm_numLeaves s);
       s \<leftarrow> rolling_add H (hd (rm_roots s)) (s\<lparr>rm_numLeaves := n\<rparr>);
       row_loop H s }
     else Some s)"

declare row_loop.simps [code]

definition first_root :: "rollingMerkleTreeStore \<Rightarrow> hash option" where
  "first_root s = (if rm_roots s = [] then None else Some (last (rm_roots s)))"

definition calcMerkleRoot :: "(bytes \<Rightarrow> hash) \<Rightarrow> msg_tx list \<Rightarrow> bool \<Rightarrow> rollingMerkleTreeStore \<Rightarrow> hash option" where
  "calcMerkleRoot H adds witness s = do {
     s \<leftarrow> rolling_add_all H (leaves H witness adds) s;
     if rm_numLeaves s = 1 then first_root s
     else do {
       s \<leftarrow> (if 0 < length adds \<and> length adds mod 2 \<noteq> 0
              then rolling_add H (if witness then WitnessHash H (last adds) else TxHash H (last adds)) s
              else Some s);
       s \<leftarrow> row_loop H s;
       first_root s } }"

definition CalcMerkleRoot :: "(bytes \<Rightarrow> hash) \<Rightarrow> msg_tx list \<Rightarrow> bool \<Rightarrow> hash option" where
  "CalcMerkleRoot H transactions witness = calcMerkleRoot H transactions witness newRollingMerkleTreeStore"

section \<open>The witness commitment\<close>

definition IsCoinBaseTx :: "msg_tx \<Rightarrow> bool" where
  "IsCoinBaseTx msgTx =
    (case tx_TxIn msgTx of [ti] \<Rightarrow>
       \<not> (op_Index (in_PreviousOutPoint ti) \<noteq> 0xffffffff \<or> op_Hash (in_PreviousOutPoint ti) \<noteq> zero_hash)
     | _ \<Rightarrow> False)"

definition CoinbaseWitnessDataLen :: nat where
  "CoinbaseWitnessDataLen = 32"

definition CoinbaseWitnessPkScriptLength :: nat where
  "CoinbaseWitnessPkScriptLength = 38"

definition WitnessMagicBytes :: bytes where
  "WitnessMagicBytes = [0x6a, 0x24, 0xaa, 0x21, 0xa9, 0xed]"

text \<open>The loop looks at the outputs from the last to the first.\<close>

definition ExtractWitnessCommitment :: "msg_tx \<Rightarrow> bytes option" where
  "ExtractWitnessCommitment tx =
    (if \<not> IsCoinBaseTx tx then None
     else map_option (\<lambda>out. slice (length WitnessMagicBytes) CoinbaseWitnessPkScriptLength (out_PkScript out))
       (List.find (\<lambda>out. length (out_PkScript out) \<ge> CoinbaseWitnessPkScriptLength
           \<and> take (length WitnessMagicBytes) (out_PkScript out) = WitnessMagicBytes) (rev (tx_TxOut tx))))"

datatype commitment_error = ErrNoTransactions | ErrNoTxInputs | ErrInvalidWitnessCommitment | ErrWitnessCommitmentMismatch

definition ValidateWitnessCommitment :: "(bytes \<Rightarrow> hash) \<Rightarrow> msg_tx list \<Rightarrow> (commitment_error, unit) outcome" where
  "ValidateWitnessCommitment H txs =
    (if txs = [] then Fail ErrNoTransactions
     else if tx_TxIn (hd txs) = [] then Fail ErrNoTxInputs
     else case ExtractWitnessCommitment (hd txs) of
       None \<Rightarrow> Ret ()
     | Some witnessCommitment \<Rightarrow>
        (case in_Witness (hd (tx_TxIn (hd txs))) of
          [witnessNonce] \<Rightarrow>
            if length witnessNonce \<noteq> CoinbaseWitnessDataLen then Fail ErrInvalidWitnessCommitment
            else (case CalcMerkleRoot H txs True of None \<Rightarrow> Panic
              | Some root \<Rightarrow> if H (root @ witnessNonce) \<noteq> witnessCommitment then Fail ErrWitnessCommitmentMismatch else Ret ())
        | _ \<Rightarrow> Ret ()))"

section \<open>The root of a list of leaves\<close>

text \<open>
  The specification: a row is hashed in pairs, the last one with itself when its number is odd, until one
  hash is left.
\<close>

fun pair_up :: "(bytes \<Rightarrow> hash) \<Rightarrow> hash list \<Rightarrow> hash list" where
  "pair_up H (x # y # zs) = HashMerkleBranches H x y # pair_up H zs"
| "pair_up H [x] = [HashMerkleBranches H x x]"
| "pair_up H [] = []"

lemma length_pair_up [simp]: "length (pair_up H xs) = (length xs + 1) div 2"
  by (induction H xs rule: pair_up.induct) auto

function merkle_root :: "(bytes \<Rightarrow> hash) \<Rightarrow> hash list \<Rightarrow> hash" where
  "merkle_root H xs = (if length xs \<le> 1 then hd xs else merkle_root H (pair_up H xs))"
  by pat_completeness auto
termination by (relation "measure (\<lambda>(H, xs). length xs)") auto

declare merkle_root.simps [simp del]

lemma merkle_root_1 [simp]: "merkle_root H [x] = x"
  by (simp add: merkle_root.simps)

lemma merkle_root_pair_up: "1 < length xs \<Longrightarrow> merkle_root H (pair_up H xs) = merkle_root H xs"
  by (simp add: merkle_root.simps [of H xs])

section \<open>The array computes the root\<close>

lemma two_power_unique_div: "n AND (n - 1) = 0 \<Longrightarrow> 0 < n \<Longrightarrow> \<exists>k. n = 2 ^ k" for n :: nat
proof (induction n rule: less_induct)
  case (less n)
  show ?case
  proof (cases "even n")
    case True
    then obtain m where m: "n = 2 * m" by blast
    have "(2 * m - Suc 0) div 2 = m - Suc 0" using less.prems(2) m by arith
    then have "n AND (n - 1) = 2 * (m AND (m - 1))"
      using less.prems(2) m by (subst and_rec) auto
    then have "m AND (m - 1) = 0" using less.prems(1) by simp
    then obtain k where "m = 2 ^ k" using less.IH [of m] less.prems(2) m by auto
    then have "n = 2 ^ Suc k" by (simp add: m)
    then show ?thesis by blast
  next
    case False
    then obtain m where m: "n = 2 * m + 1" by (metis oddE)
    have "n AND (n - 1) = 2 * m" by (subst and_rec) (simp add: m)
    then have "n = 2 ^ 0" using less.prems(1) m by simp
    then show ?thesis by blast
  qed
qed

lemma log2_bounds: "0 < n \<Longrightarrow> 2 ^ log2 n \<le> n \<and> n < 2 ^ (log2 n + 1)"
proof (induction n rule: log2.induct)
  case (1 n)
  show ?case
  proof (cases "n < 2")
    case True
    then show ?thesis using 1 by (simp add: log2.simps [of n])
  next
    case False
    then have "2 ^ log2 (n div 2) \<le> n div 2 \<and> n div 2 < 2 ^ (log2 (n div 2) + 1)" using 1 by simp
    then show ?thesis using False by (simp add: log2.simps [of n]) arith
  qed
qed

lemma nextPowerOfTwo_bounds:
  assumes "0 < n"
  obtains k where "nextPowerOfTwo n = 2 ^ k" "n \<le> 2 ^ k" "2 ^ k < 2 * n"
proof (cases "n AND (n - 1) = 0")
  case True
  then obtain k where "n = 2 ^ k" using two_power_unique_div assms by blast
  then show ?thesis using True by (intro that [of k]) (auto simp: nextPowerOfTwo_def)
next
  case False
  have "2 ^ log2 n \<noteq> n"
  proof
    assume e: "2 ^ log2 n = n"
    have "(2 ^ j :: nat) AND (2 ^ j - 1) = 0" for j :: nat
      by (rule bit_eqI) (auto simp: bit_and_iff bit_exp_iff bit_mask_iff mask_eq_exp_minus_1 [symmetric] simp del: One_nat_def)
    then show False using False e by metis
  qed
  then show ?thesis using False log2_bounds [OF assms] by (intro that [of "log2 n + 1"]) (auto simp: nextPowerOfTwo_def)
qed

lemma length_store_loop [simp]: "length (store_loop H i off M) = length M"
  by (induction H i off M rule: store_loop.induct) (subst store_loop.simps, simp)

lemma store_loop_spec:
  assumes "length M = 2 * P - 1" "m < P"
  shows "(\<forall>j < P + m. store_loop H (2 * m) (P + m) M ! j = M ! j)
    \<and> (\<forall>m'. m \<le> m' \<longrightarrow> m' < P - 1 \<longrightarrow> store_loop H (2 * m) (P + m) M ! (P + m') =
        parent_node H (store_loop H (2 * m) (P + m) M ! (2 * m')) (store_loop H (2 * m) (P + m) M ! (2 * m' + 1)))"
  using assms
proof (induction "P - m" arbitrary: m M)
  case 0
  then show ?case by simp
next
  case (Suc d)
  show ?case
  proof (cases "m < P - 1")
    case True
    let ?M = "M[P + m := parent_node H (M ! (2 * m)) (M ! (2 * m + 1))]"
    have "2 * m < length M - 1" using True Suc.prems(1) by simp
    then have e: "store_loop H (2 * m) (P + m) M = store_loop H (2 * Suc m) (P + Suc m) ?M"
      by (subst store_loop.simps) simp
    have ih: "(\<forall>j < P + Suc m. store_loop H (2 * Suc m) (P + Suc m) ?M ! j = ?M ! j)
      \<and> (\<forall>m'. Suc m \<le> m' \<longrightarrow> m' < P - 1 \<longrightarrow> store_loop H (2 * Suc m) (P + Suc m) ?M ! (P + m') =
        parent_node H (store_loop H (2 * Suc m) (P + Suc m) ?M ! (2 * m')) (store_loop H (2 * Suc m) (P + Suc m) ?M ! (2 * m' + 1)))"
      by (rule Suc.hyps(1)) (use Suc True in auto)
    define A where "A = store_loop H (2 * m) (P + m) M"
    have A: "\<And>j. j < P + Suc m \<Longrightarrow> A ! j = ?M ! j"
      "\<And>m'. Suc m \<le> m' \<Longrightarrow> m' < P - 1 \<Longrightarrow> A ! (P + m') = parent_node H (A ! (2 * m')) (A ! (2 * m' + 1))"
      using ih unfolding A_def e by blast+
    have "A ! j = M ! j" if "j < P + m" for j using A(1) [of j] that by simp
    moreover have "A ! (P + m) = parent_node H (A ! (2 * m)) (A ! (2 * m + 1))"
      using A(1) [of "P + m"] A(1) [of "2 * m"] A(1) [of "2 * m + 1"] True Suc.prems(1) by simp
    ultimately show ?thesis unfolding A_def [symmetric] using A(2) by (metis Suc_leI le_neq_implies_less)
  next
    case False
    then have "m = P - 1" using Suc.prems(2) by simp
    then show ?thesis using Suc.prems(1) by (subst store_loop.simps) auto
  qed
qed

text \<open>A row of the array: its hashes, then empty slots.\<close>

definition row :: "hash list \<Rightarrow> nat \<Rightarrow> hash option list" where
  "row xs n = map Some xs @ replicate (n - length xs) None"

lemma row_nth: "i < n \<Longrightarrow> row xs n ! i = (if i < length xs then Some (xs ! i) else None)"
  by (simp add: row_def nth_append)

lemma pair_up_nth:
  "2 * i < length xs \<Longrightarrow> pair_up H xs ! i = HashMerkleBranches H (xs ! (2 * i)) (if 2 * i + 1 < length xs then xs ! (2 * i + 1) else xs ! (2 * i))"
proof (induction H xs arbitrary: i rule: pair_up.induct)
  case (1 H x y zs)
  then show ?case by (cases i) auto
qed auto

lemma parent_row:
  assumes "i < n"
  shows "parent_node H (row xs (2 * n) ! (2 * i)) (row xs (2 * n) ! (2 * i + 1)) = row (pair_up H xs) n ! i"
proof -
  have "2 * i < 2 * n" "2 * i + 1 < 2 * n" using assms by auto
  then show ?thesis using assms by (auto simp: row_nth parent_node_def pair_up_nth)
qed

lemma rows:
  assumes P: "P = 2 ^ k" and j: "j \<le> k"
    and base: "\<And>i. i < P \<Longrightarrow> A ! i = row xs P ! i"
    and step: "\<And>m. m < P - 1 \<Longrightarrow> A ! (P + m) = parent_node H (A ! (2 * m)) (A ! (2 * m + 1))"
    and i: "i < 2 ^ (k - j)"
  shows "A ! (2 * P - 2 * 2 ^ (k - j) + i) = row ((pair_up H ^^ j) xs) (2 ^ (k - j)) ! i"
  using j i
proof (induction j arbitrary: i)
  case 0
  then show ?case using base P by simp
next
  case (Suc j)
  define q where "q = (2::nat) ^ (k - Suc j)"
  have q: "(2::nat) ^ (k - j) = 2 * q" "0 < q" using Suc.prems(1) by (simp_all add: q_def Suc_diff_Suc flip: power_Suc)
  have le: "2 * q \<le> P" unfolding P q(1) [symmetric] by (rule power_increasing) auto
  let ?m = "P - 2 * q + i"
  have i: "i < q" using Suc.prems(2) by (simp add: q_def)
  have e: "2 * P - 2 * q + i = P + ?m" "2 * ?m = 2 * P - 2 * (2 * q) + 2 * i" "2 * ?m + 1 = 2 * P - 2 * (2 * q) + (2 * i + 1)"
    using le by auto
  have "?m < P - 1" using i le by linarith
  then have "A ! (2 * P - 2 * q + i) = parent_node H (A ! (2 * ?m)) (A ! (2 * ?m + 1))" unfolding e(1) by (rule step)
  also have "A ! (2 * ?m) = row ((pair_up H ^^ j) xs) (2 * q) ! (2 * i)"
    using Suc.IH [of "2 * i"] Suc.prems(1) i unfolding q(1) e(2) by simp
  also have "A ! (2 * ?m + 1) = row ((pair_up H ^^ j) xs) (2 * q) ! (2 * i + 1)"
    using Suc.IH [of "2 * i + 1"] Suc.prems(1) i unfolding q(1) e(3) by simp
  also have "parent_node H (row ((pair_up H ^^ j) xs) (2 * q) ! (2 * i)) (row ((pair_up H ^^ j) xs) (2 * q) ! (2 * i + 1))
      = row ((pair_up H ^^ Suc j) xs) q ! i"
    using parent_row [OF i] by simp
  finally show ?case by (simp add: q_def)
qed

lemma pair_up_all: "length xs \<le> 2 ^ k \<Longrightarrow> 2 ^ k < 2 * length xs \<Longrightarrow> (pair_up H ^^ k) xs = [merkle_root H xs]"
proof (induction k arbitrary: xs)
  case 0
  then obtain x where "xs = [x]" by (cases xs) (auto simp: length_Suc_conv)
  then show ?case by simp
next
  case (Suc k)
  have "(pair_up H ^^ k) (pair_up H xs) = [merkle_root H (pair_up H xs)]"
    by (rule Suc.IH) (use Suc.prems in auto)
  moreover have "(1::nat) \<le> 2 ^ k" by simp
  then have "1 < length xs" using Suc.prems(2) unfolding power_Suc by linarith
  ultimately show ?case by (simp add: funpow_Suc_right merkle_root_pair_up del: funpow.simps)
qed

lemma length_leaves [simp]: "length (leaves H w txs) = length txs"
  by (simp add: leaves_def)

lemma store_root:
  assumes "txs \<noteq> []"
  obtains A where "BuildMerkleTreeStore H txs w = Some A" "A \<noteq> []" "last A = Some (merkle_root H (leaves H w txs))"
proof -
  let ?xs = "leaves H w txs"
  obtain k where k: "nextPowerOfTwo (length txs) = 2 ^ k" "length txs \<le> 2 ^ k" "2 ^ k < 2 * length txs"
    using nextPowerOfTwo_bounds [of "length txs"] assms by auto
  define P where "P = (2::nat) ^ k"
  define M where "M = map Some ?xs @ replicate (P * 2 - 1 - length txs) None"
  define A where "A = store_loop H 0 P M"
  have P: "0 < P" by (simp add: P_def)
  have len: "length M = 2 * P - 1" using k(2) P by (simp add: M_def P_def)
  have base: "A ! i = row ?xs P ! i" if "i < P" for i
    using store_loop_spec [OF len P, of H] that k(2) by (simp add: A_def M_def row_nth nth_append P_def [symmetric])
  have step: "A ! (P + m) = parent_node H (A ! (2 * m)) (A ! (2 * m + 1))" if "m < P - 1" for m
    using store_loop_spec [OF len P, of H] that by (simp add: A_def)
  have "A ! (2 * P - 2 * 2 ^ (k - k) + 0) = row ((pair_up H ^^ k) ?xs) (2 ^ (k - k)) ! 0"
    by (rule rows [OF P_def _ base step]) auto
  then have "A ! (2 * P - 2) = Some (merkle_root H ?xs)"
    using pair_up_all [of ?xs k H] k by (simp add: row_def)
  moreover have "A \<noteq> []" "length A - 1 = 2 * P - 2" using len P by (auto simp: A_def simp flip: length_greater_0_conv)
  ultimately have "last A = Some (merkle_root H ?xs)" by (metis last_conv_nth)
  moreover have "BuildMerkleTreeStore H txs w = Some A"
    by (simp add: BuildMerkleTreeStore_def k(1) A_def M_def P_def Let_def)
  ultimately show ?thesis using that \<open>A \<noteq> []\<close> by blast
qed

section \<open>The rolling computation\<close>

text \<open>
  The full pairs of a row, and the stack of roots after the leaves \<open>xs\<close>: at each level the last node is
  kept when the number of nodes is odd.
\<close>

fun full_pairs :: "(bytes \<Rightarrow> hash) \<Rightarrow> hash list \<Rightarrow> hash list" where
  "full_pairs H (x # y # zs) = HashMerkleBranches H x y # full_pairs H zs"
| "full_pairs H xs = []"

lemma length_full_pairs [simp]: "length (full_pairs H xs) = length xs div 2"
  by (induction H xs rule: full_pairs.induct) auto

function roots_of :: "(bytes \<Rightarrow> hash) \<Rightarrow> hash list \<Rightarrow> hash list" where
  "roots_of H xs = (if xs = [] then [] else (if odd (length xs) then [last xs] else []) @ roots_of H (full_pairs H xs))"
  by pat_completeness auto
termination by (relation "measure (\<lambda>(H, xs). length xs)") auto

declare roots_of.simps [simp del]

lemma roots_of_Nil [simp]: "roots_of H [] = []"
  by (simp add: roots_of.simps)

lemma roots_of_odd: "odd (length xs) \<Longrightarrow> roots_of H xs = last xs # roots_of H (full_pairs H xs)"
  by (subst roots_of.simps) auto

lemma roots_of_even: "even (length xs) \<Longrightarrow> roots_of H xs = roots_of H (full_pairs H xs)"
  by (subst roots_of.simps) auto

lemma full_pairs_snoc_even: "even (length xs) \<Longrightarrow> full_pairs H (xs @ [x]) = full_pairs H xs"
  by (induction H xs rule: full_pairs.induct) auto

lemma full_pairs_snoc_odd: "odd (length xs) \<Longrightarrow> full_pairs H (xs @ [x]) = full_pairs H xs @ [HashMerkleBranches H (last xs) x]"
  by (induction H xs rule: full_pairs.induct) auto

lemma pair_up_even: "even (length xs) \<Longrightarrow> pair_up H xs = full_pairs H xs"
  by (induction H xs rule: pair_up.induct) auto

lemma pair_up_odd: "odd (length xs) \<Longrightarrow> pair_up H xs = full_pairs H (xs @ [last xs])"
  by (induction H xs rule: pair_up.induct) auto

lemma rolling_add_loop_roots:
  "drop_bit h (unat n) = length xs \<Longrightarrow> rolling_add_loop H n h (roots_of H xs) x = Some (roots_of H (xs @ [x]))"
proof (induction "length xs" arbitrary: xs h x rule: less_induct)
  case less
  have b: "bit n h \<longleftrightarrow> odd (length xs)"
    using less.prems bit_iff_odd_drop_bit [of "unat n" h] by (simp add: bit_unsigned_iff)
  show ?case
  proof (cases "odd (length xs)")
    case True
    have "drop_bit (h + 1) (unat n) = length (full_pairs H xs)"
      using less.prems div_mult2_eq [of "unat n" "2 ^ h" 2] by (simp add: drop_bit_eq_div mult.commute)
    then have "rolling_add_loop H n (h + 1) (roots_of H (full_pairs H xs)) (HashMerkleBranches H (last xs) x)
        = Some (roots_of H (full_pairs H xs @ [HashMerkleBranches H (last xs) x]))"
      by (rule less.hyps [rotated]) (use odd_pos [OF True] in auto)
    then show ?thesis using True b
      by (subst rolling_add_loop.simps) (simp add: roots_of_odd [OF True] roots_of_even [of "xs @ [x]"] full_pairs_snoc_odd)
  next
    case False
    then show ?thesis using b
      by (subst rolling_add_loop.simps) (simp add: roots_of_odd [of "xs @ [x]"] full_pairs_snoc_even roots_of_even [of xs])
  qed
qed

text \<open>The store after the leaves \<open>xs\<close>.\<close>

definition rolled :: "(bytes \<Rightarrow> hash) \<Rightarrow> hash list \<Rightarrow> rollingMerkleTreeStore" where
  "rolled H xs = \<lparr>rm_roots = roots_of H xs, rm_numLeaves = word_of_nat (length xs)\<rparr>"

lemma unat_word_of_nat_less: "n < 2 ^ 64 \<Longrightarrow> unat (word_of_nat n :: u64) = n"
  by (simp add: unsigned_of_nat take_bit_nat_eq_self)

lemma rolling_add_rolled: "length xs < 2 ^ 64 \<Longrightarrow> rolling_add H x (rolled H xs) = Some (rolled H (xs @ [x]))"
  by (simp add: rolling_add_def rolled_def rolling_add_loop_roots unat_word_of_nat_less)

lemma rolling_add_all_rolled:
  "length xs + length ys < 2 ^ 64 \<Longrightarrow> rolling_add_all H ys (rolled H xs) = Some (rolled H (xs @ ys))"
proof (induction ys arbitrary: xs)
  case (Cons y ys)
  then show ?case using Cons.IH [of "xs @ [y]"] by (simp add: rolling_add_rolled)
qed simp

lemma roots_single: "xs \<noteq> [] \<Longrightarrow> length (roots_of H xs) \<le> 1 \<Longrightarrow> roots_of H xs = [merkle_root H xs]"
proof (induction "length xs" arbitrary: xs rule: less_induct)
  case less
  show ?case
  proof (cases "odd (length xs)")
    case True
    then have "roots_of H (full_pairs H xs) = []" using less.prems(2) by (simp add: roots_of_odd)
    then have "full_pairs H xs = []"
      using less.hyps [of "full_pairs H xs"] odd_pos [OF True] by auto
    then have "length xs div 2 = 0" by (metis length_full_pairs list.size(3))
    then obtain x where "xs = [x]" using less.prems(1) True by (cases xs) (auto simp: length_Suc_conv)
    then show ?thesis by (simp add: roots_of_odd)
  next
    case False
    have "0 < length xs" using less.prems(1) by simp
    then have l: "2 \<le> length xs" using False by presburger
    then have "length (full_pairs H xs) < length xs" "full_pairs H xs \<noteq> []" by (auto simp flip: length_greater_0_conv)
    then show ?thesis using less.hyps [of "full_pairs H xs"] less.prems False merkle_root_pair_up [of xs H] l
      by (simp add: roots_of_even pair_up_even)
  qed
qed

lemma roots_nonempty: "xs \<noteq> [] \<Longrightarrow> roots_of H xs \<noteq> []"
  using roots_single [of xs H] by fastforce

lemma even_row:
  assumes "even (length ys)" "ys \<noteq> []"
  shows "full_pairs H ys \<noteq> []" "merkle_root H (full_pairs H ys) = merkle_root H ys" "roots_of H (full_pairs H ys) = roots_of H ys"
proof -
  have "0 < length ys" using assms(2) by simp
  then have l: "2 \<le> length ys" using assms(1) by presburger
  then show "full_pairs H ys \<noteq> []" by (auto simp flip: length_greater_0_conv)
  show "merkle_root H (full_pairs H ys) = merkle_root H ys"
    using merkle_root_pair_up [of ys H] l by (simp add: pair_up_even [OF assms(1)])
  show "roots_of H (full_pairs H ys) = roots_of H ys" by (simp add: roots_of_even [OF assms(1)])
qed

lemma shift_loop_rows:
  assumes "drop_bit h (unat cur) = length ys" "ys \<noteq> []" "length ys < 2 ^ fuel" "length ys < 2 ^ 64"
  shows "\<exists>zs. odd (length zs) \<and> roots_of H zs = roots_of H ys \<and> merkle_root H zs = merkle_root H ys
    \<and> shift_loop fuel cur h (word_of_nat (length ys)) = Some (word_of_nat (length zs))
    \<and> length zs \<le> length ys \<and> (even (length ys) \<longrightarrow> 2 * length zs \<le> length ys)"
  using assms
proof (induction fuel arbitrary: h ys)
  case 0
  then show ?case by (auto simp flip: length_greater_0_conv)
next
  case (Suc fuel)
  have b: "bit cur h \<longleftrightarrow> odd (length ys)"
    using Suc.prems(1) bit_iff_odd_drop_bit [of "unat cur" h] by (simp add: bit_unsigned_iff)
  show ?case
  proof (cases "odd (length ys)")
    case True
    then show ?thesis using b by (intro exI [of _ ys]) simp
  next
    case False
    note e = even_row [of ys H] 
    have d: "drop_bit (Suc h) (unat cur) = length (full_pairs H ys)"
      using Suc.prems(1) div_mult2_eq [of "unat cur" "2 ^ h" 2] by (simp add: drop_bit_eq_div mult.commute)
    have w: "drop_bit (Suc 0) (word_of_nat (length ys) :: u64) = word_of_nat (length (full_pairs H ys))"
      unfolding word_unat_eq_iff using Suc.prems(4)
      by (simp add: unat_drop_bit_eq unat_word_of_nat_less drop_bit_Suc unat_div)
    have "\<exists>zs. odd (length zs) \<and> roots_of H zs = roots_of H (full_pairs H ys) \<and> merkle_root H zs = merkle_root H (full_pairs H ys)
      \<and> shift_loop fuel cur (Suc h) (word_of_nat (length (full_pairs H ys))) = Some (word_of_nat (length zs))
      \<and> length zs \<le> length (full_pairs H ys) \<and> (even (length (full_pairs H ys)) \<longrightarrow> 2 * length zs \<le> length (full_pairs H ys))"
      by (rule Suc.IH [OF d]) (use Suc.prems False e in auto)
    then obtain zs where z: "odd (length zs)" "roots_of H zs = roots_of H (full_pairs H ys)" "merkle_root H zs = merkle_root H (full_pairs H ys)"
        "shift_loop fuel cur (Suc h) (word_of_nat (length (full_pairs H ys))) = Some (word_of_nat (length zs))"
        "length zs \<le> length (full_pairs H ys)"
      by blast
    show ?thesis
      by (rule exI [of _ zs]) (use z b False e Suc.prems(2) w in \<open>auto simp: length_full_pairs\<close>)
  qed
qed

lemma double_last_root: "odd (length zs) \<Longrightarrow> 1 < length zs \<Longrightarrow> merkle_root H (zs @ [last zs]) = merkle_root H zs"
  using merkle_root_pair_up [of "zs @ [last zs]" H] merkle_root_pair_up [of zs H]
  by (cases "zs = []") (simp_all add: pair_up_odd pair_up_even)

lemma row_loop_root:
  "xs \<noteq> [] \<Longrightarrow> length xs < 2 ^ 64 - 1 \<Longrightarrow> \<exists>s. row_loop H (rolled H xs) = Some s \<and> first_root s = Some (merkle_root H xs)"
proof (induction "if odd (length xs) then length xs + 2 else length xs" arbitrary: xs rule: less_induct)
  case less
  show ?case
  proof (cases "1 < length (roots_of H xs)")
    case False
    then have "roots_of H xs = [merkle_root H xs]" using roots_single less.prems(1) by (metis leI)
    then show ?thesis by (subst row_loop.simps) (simp add: rolled_def first_root_def)
  next
    case True
    have u: "unat (word_of_nat (length xs) :: u64) = length xs" using less.prems(2) by (intro unat_word_of_nat_less) simp
    obtain zs where z: "odd (length zs)" "roots_of H zs = roots_of H xs" "merkle_root H zs = merkle_root H xs"
        "shift_loop 64 (word_of_nat (length xs)) 0 (word_of_nat (length xs)) = Some (word_of_nat (length zs))"
        "length zs \<le> length xs" "even (length xs) \<Longrightarrow> 2 * length zs \<le> length xs"
      using shift_loop_rows [of 0 "word_of_nat (length xs)" xs 64 H] u less.prems by (auto simp: drop_bit_0)
    have "length zs \<noteq> 1"
    proof
      assume "length zs = 1"
      then have "roots_of H zs = [last zs]" using z(1) roots_of_odd [of zs H] by (cases zs) auto
      then show False using True z(2) by simp
    qed
    then have l: "3 \<le> length zs" using z(1) by (cases "length zs = 0") (simp, presburger)
    have h: "hd (roots_of H xs) = last zs" using z(1,2) by (simp add: roots_of_odd flip: z(2))
    have s: "(rolled H xs)\<lparr>rm_numLeaves := word_of_nat (length zs)\<rparr> = rolled H zs" by (simp add: rolled_def z(2))
    have "row_loop H (rolled H xs) = row_loop H (rolled H (zs @ [last zs]))"
      using True z(4,5) h s less.prems(2) rolling_add_rolled [of zs H "last zs"]
      by (subst row_loop.simps) (simp add: rolled_def [of H xs])
    moreover have "\<exists>s. row_loop H (rolled H (zs @ [last zs])) = Some s \<and> first_root s = Some (merkle_root H (zs @ [last zs]))"
    proof (rule less.hyps)
      have "length zs \<noteq> 2 ^ 64 - 2" using z(1) by auto
      then show "length (zs @ [last zs]) < 2 ^ 64 - 1" using z(5) less.prems(2) by simp
    qed (use z(1,5,6) l in auto)
    ultimately show ?thesis using z(1,3) l double_last_root [of zs H] by simp
  qed
qed

lemma rolling_root:
  assumes "txs \<noteq> []" "length txs < 2 ^ 63"
  shows "CalcMerkleRoot H txs w = Some (merkle_root H (leaves H w txs))"
proof -
  let ?xs = "leaves H w txs"
  have e: "newRollingMerkleTreeStore = rolled H []" by (simp add: newRollingMerkleTreeStore_def rolled_def)
  have a: "rolling_add_all H ?xs (rolled H []) = Some (rolled H ?xs)"
    using rolling_add_all_rolled [of "[]" ?xs H] assms(2) by simp
  have n: "rm_numLeaves (rolled H ?xs) = 1 \<longleftrightarrow> length txs = 1"
    using assms(2) unat_word_of_nat_less [of "length txs"] by (auto simp: rolled_def word_unat_eq_iff)
  have x: "?xs \<noteq> []" using assms(1) by (simp flip: length_greater_0_conv)
  consider "length txs = 1" | "length txs \<noteq> 1" "odd (length txs)" | "even (length txs)" by blast
  then show ?thesis
  proof cases
    case 1
    then obtain y where y: "?xs = [y]" by (metis One_nat_def length_0_conv length_Suc_conv length_leaves)
    have "first_root (rolled H [y]) = Some y" by (simp add: first_root_def rolled_def roots_of_odd)
    then show ?thesis using 1 n a unfolding y by (simp add: CalcMerkleRoot_def calcMerkleRoot_def e y del: rolling_add_all.simps)
  next
    case 2
    have l: "1 < length txs" using 2 assms(1) by (cases txs) auto
    have "last ?xs = (if w then WitnessHash H (last txs) else TxHash H (last txs))"
      using l x assms(1) by (auto simp: last_conv_nth leaves_def leaf_hash_def)
    then show ?thesis
      using 2 l n row_loop_root [of "?xs @ [last ?xs]" H] double_last_root [of ?xs H] rolling_add_rolled [of ?xs H "last ?xs"] assms(2)
      by (auto simp: CalcMerkleRoot_def calcMerkleRoot_def e a)
  next
    case 3
    then show ?thesis using n row_loop_root [OF x, of H] assms(2) by (auto simp: CalcMerkleRoot_def calcMerkleRoot_def e a)
  qed
qed

section \<open>Properties\<close>

text \<open>
  C9: the two computations of the Merkle root agree, with and without witness identifiers. For every list of
  transactions that is not empty, the rolling computation ends without a panic, and its result is the last
  node of the tree in the array, which is the root of the pairwise hashes.
\<close>

theorem merkle_roots_agree:
  assumes "txs \<noteq> []" "length txs < 2 ^ 63"
  shows "\<exists>merkles. BuildMerkleTreeStore H txs witness = Some merkles \<and> merkles \<noteq> []
    \<and> CalcMerkleRoot H txs witness = last merkles \<and> last merkles = Some (merkle_root H (leaves H witness txs))"
  using store_root [OF assms(1)] rolling_root [OF assms] by metis

theorem merkle_roots_agree_witness:
  "\<exists>merkles. BuildMerkleTreeStore (take 1) [ex_wire_tx, ex_wire_tx, ex_wire_tx] True = Some merkles
    \<and> CalcMerkleRoot (take 1) [ex_wire_tx, ex_wire_tx, ex_wire_tx] True = last merkles \<and> last merkles \<noteq> None"
  using merkle_roots_agree [of "[ex_wire_tx, ex_wire_tx, ex_wire_tx]" "take 1" True] by force

end
