(* ===== verification/Compress.thy ===== *)
theory Compress
  imports Script_Tokenizer
begin

text \<open>
  The compressed forms of the chain state, \<open>blockchain/compress.go\<close>: variable length quantities, amounts,
  scripts and outputs. A routine that fills a target slice returns the bytes it writes; the size routines
  give the length the caller allocates. Parsing a public key (\<open>btcec\<close>, on top of an external curve library) is
  the pair \<open>parse\<close>, \<open>unc\<close> of parameters: \<open>ParsePubKey\<close> and \<open>SerializeUncompressed\<close>.
\<close>

section \<open>Variable length quantities\<close>

function serializeSizeVLQ_loop :: "u64 \<Rightarrow> nat \<Rightarrow> nat" where
  "serializeSizeVLQ_loop n sz =
    (if n > 0x7f then serializeSizeVLQ_loop (drop_bit 7 n - 1) (sz + 1) else sz)"
  by pat_completeness auto

text \<open>The two loops shrink \<open>n\<close>: above \<open>0x7f\<close> the shifted value is positive, so the decrement does not wrap.\<close>

lemma vlq_step_nat:
  assumes "n > (0x7f :: u64)"
  shows "unat (drop_bit 7 n - 1) = unat n div 128 - 1" "0 < unat n div 128"
proof -
  have "unat n > 127" using assms by (simp add: word_less_nat_alt)
  then show p: "0 < unat n div 128" by simp
  have d: "unat (drop_bit 7 n) = unat n div 128" by (subst unat_drop_bit_eq) (simp add: drop_bit_eq_div)
  have "(1 :: u64) \<le> drop_bit 7 n" using p d by (simp add: word_le_nat_alt)
  then show "unat (drop_bit 7 n - 1) = unat n div 128 - 1" using d by (simp add: unat_sub)
qed

lemma vlq_step_less: "n > (0x7f :: u64) \<Longrightarrow> unat (drop_bit 7 n - 1) < unat n"
proof -
  assume a: "n > (0x7f :: u64)"
  have "unat n div 128 \<le> unat n" by simp
  then show ?thesis using vlq_step_nat [OF a] by linarith
qed

termination serializeSizeVLQ_loop
  by (relation "measure (\<lambda>(n, sz). unat n)") (auto intro: vlq_step_less)

definition serializeSizeVLQ :: "u64 \<Rightarrow> nat" where
  "serializeSizeVLQ n = serializeSizeVLQ_loop n 1"

text \<open>The bytes in the order the first loop of \<open>putVLQ\<close> stores them, the least significant first.\<close>

function putVLQ_loop :: "u64 \<Rightarrow> byte \<Rightarrow> bytes" where
  "putVLQ_loop n highBitMask =
    (ucast (n AND 0x7f) OR highBitMask) #
      (if n \<le> 0x7f then [] else putVLQ_loop (drop_bit 7 n - 1) 0x80)"
  by pat_completeness auto

termination putVLQ_loop
  by (relation "measure (\<lambda>(n, m). unat n)") (auto intro: vlq_step_less)

declare serializeSizeVLQ_loop.simps [simp del] putVLQ_loop.simps [simp del]

definition putVLQ :: "u64 \<Rightarrow> bytes" where
  "putVLQ n = rev (putVLQ_loop n 0)"

fun deserializeVLQ_loop :: "bytes \<Rightarrow> u64 \<Rightarrow> nat \<Rightarrow> u64 \<times> nat" where
  "deserializeVLQ_loop [] n sz = (n, sz)"
| "deserializeVLQ_loop (v # vs) n sz =
    (let n' = push_bit 7 n OR ucast (v AND 0x7f) in
     if v AND 0x80 \<noteq> 0x80 then (n', sz + 1) else deserializeVLQ_loop vs (n' + 1) (sz + 1))"

definition deserializeVLQ :: "bytes \<Rightarrow> u64 \<times> nat" where
  "deserializeVLQ serialized = deserializeVLQ_loop serialized 0 0"

section \<open>Scripts\<close>

definition isPubKeyHash :: "bytes \<Rightarrow> bytes option" where
  "isPubKeyHash script =
    (if length script = 25 \<and> script ! 0 = OP_DUP \<and> script ! 1 = OP_HASH160 \<and> script ! 2 = OP_DATA_20
        \<and> script ! 23 = OP_EQUALVERIFY \<and> script ! 24 = OP_CHECKSIG
     then Some (slice 3 23 script) else None)"

definition isScriptHash :: "bytes \<Rightarrow> bytes option" where
  "isScriptHash script =
    (if length script = 23 \<and> script ! 0 = OP_HASH160 \<and> script ! 1 = OP_DATA_20 \<and> script ! 22 = OP_EQUAL
     then Some (slice 2 22 script) else None)"

definition isPubKey :: "(bytes \<Rightarrow> 'k option) \<Rightarrow> bytes \<Rightarrow> bytes option" where
  "isPubKey parse script =
    (if length script = 35 \<and> script ! 0 = OP_DATA_33 \<and> script ! 34 = OP_CHECKSIG
        \<and> (script ! 1 = 0x02 \<or> script ! 1 = 0x03) \<and> parse (slice 1 34 script) \<noteq> None
     then Some (slice 1 34 script)
     else if length script = 67 \<and> script ! 0 = OP_DATA_65 \<and> script ! 66 = OP_CHECKSIG
        \<and> script ! 1 = 0x04 \<and> parse (slice 1 66 script) \<noteq> None
     then Some (slice 1 66 script)
     else None)"

definition numSpecialScripts :: nat where
  "numSpecialScripts = 6"

definition compressedScriptSize :: "(bytes \<Rightarrow> 'k option) \<Rightarrow> bytes \<Rightarrow> nat" where
  "compressedScriptSize parse pkScript =
    (if isPubKeyHash pkScript \<noteq> None then 21
     else if isScriptHash pkScript \<noteq> None then 21
     else if isPubKey parse pkScript \<noteq> None then 33
     else serializeSizeVLQ (word_of_nat (length pkScript + numSpecialScripts)) + length pkScript)"

text \<open>An \<open>int\<close> result: the sum may exceed the range of \<open>int\<close> and come out negative.\<close>

definition decodeCompressedScriptSize :: "bytes \<Rightarrow> int" where
  "decodeCompressedScriptSize serialized =
    (case deserializeVLQ serialized of (scriptSize, bytesRead) \<Rightarrow>
       if bytesRead = 0 then 0
       else if scriptSize \<in> {0, 1} then 21
       else if scriptSize \<in> {2, 3, 4, 5} then 33
       else sint ((scriptSize - word_of_nat numSpecialScripts) + word_of_nat bytesRead))"

definition putCompressedScript :: "(bytes \<Rightarrow> 'k option) \<Rightarrow> bytes \<Rightarrow> bytes" where
  "putCompressedScript parse pkScript =
    (case isPubKeyHash pkScript of Some h \<Rightarrow> 0 # h
     | None \<Rightarrow> (case isScriptHash pkScript of Some h \<Rightarrow> 1 # h
     | None \<Rightarrow> (case isPubKey parse pkScript of
         Some k \<Rightarrow>
           (if k ! 0 \<in> {0x02, 0x03} then k ! 0 # slice 1 33 k
            else (k ! 0 OR (k ! 64 AND 0x01)) # slice 1 33 k)
     | None \<Rightarrow> putVLQ (word_of_nat (length pkScript + numSpecialScripts)) @ pkScript)))"

text \<open>
  The slice \<open>s[i:j]\<close> of a slice whose backing array is \<open>buf\<close> panics unless \<open>i \<le> j\<close> and \<open>j\<close> is within the
  capacity, which is the length of \<open>buf\<close>. \<open>decompressScript\<close> is given the slice of the first \<open>n\<close> bytes of \<open>buf\<close>.
\<close>

definition go_slice :: "bytes \<Rightarrow> int \<Rightarrow> int \<Rightarrow> (unit, bytes) outcome" where
  "go_slice buf i j =
    (if 0 \<le> i \<and> i \<le> j \<and> j \<le> int (length buf) then Ret (slice (nat i) (nat j) buf) else Panic)"

definition decompressScript ::
  "(bytes \<Rightarrow> 'k option) \<Rightarrow> ('k \<Rightarrow> bytes) \<Rightarrow> bytes \<Rightarrow> nat \<Rightarrow> (unit, bytes) outcome" where
  "decompressScript parse unc buf n =
    (let compressedPkScript = take n buf in
     if length compressedPkScript = 0 then Ret []
     else case deserializeVLQ compressedPkScript of (encodedScriptSize, bytesRead) \<Rightarrow>
       if encodedScriptSize = 0 then
         obind (go_slice buf (int bytesRead) (int bytesRead + 20))
           (\<lambda>h. Ret ([OP_DUP, OP_HASH160, OP_DATA_20] @ h @ [OP_EQUALVERIFY, OP_CHECKSIG]))
       else if encodedScriptSize = 1 then
         obind (go_slice buf (int bytesRead) (int bytesRead + 20))
           (\<lambda>h. Ret ([OP_HASH160, OP_DATA_20] @ h @ [OP_EQUAL]))
       else if encodedScriptSize \<in> {2, 3} then
         obind (go_slice buf (int bytesRead) (int bytesRead + 32))
           (\<lambda>x. Ret ([OP_DATA_33, ucast encodedScriptSize] @ x @ [OP_CHECKSIG]))
       else if encodedScriptSize \<in> {4, 5} then
         (let x = take 32 (drop 1 compressedPkScript) in
          case parse (ucast (encodedScriptSize - 2) # x @ replicate (32 - length x) 0) of
            None \<Rightarrow> Ret []
          | Some key \<Rightarrow> Ret (OP_DATA_65 # take 65 (unc key) @ replicate (65 - length (unc key)) 0 @ [OP_CHECKSIG]))
       else
         (let scriptSize = sint (encodedScriptSize - word_of_nat numSpecialScripts) in
          if scriptSize < 0 then Panic
          else go_slice buf (int bytesRead) (int bytesRead + scriptSize)))"

section \<open>Amounts\<close>

fun strip_zeros :: "nat \<Rightarrow> u64 \<Rightarrow> u64 \<Rightarrow> u64 \<times> u64" where
  "strip_zeros 0 amount exponent = (amount, exponent)"
| "strip_zeros (Suc left) amount exponent =
    (if amount mod 10 = 0 then strip_zeros left (amount div 10) (exponent + 1) else (amount, exponent))"

text \<open>The loop stops when the exponent reaches 9, so it runs at most nine times.\<close>

definition compressTxOutAmount :: "u64 \<Rightarrow> u64" where
  "compressTxOutAmount amount =
    (if amount = 0 then 0
     else case strip_zeros 9 amount 0 of (amount, exponent) \<Rightarrow>
       if exponent < 9 then
         (let lastDigit = amount mod 10; amount = amount div 10 in
          1 + 10 * (9 * amount + lastDigit - 1) + exponent)
       else 10 + 10 * (amount - 1))"

primrec times10 :: "nat \<Rightarrow> u64 \<Rightarrow> u64" where
  "times10 0 n = n"
| "times10 (Suc e) n = times10 e (n * 10)"

definition decompressTxOutAmount :: "u64 \<Rightarrow> u64" where
  "decompressTxOutAmount amount =
    (if amount = 0 then 0
     else
       let amount = amount - 1; exponent = amount mod 10; amount = amount div 10;
         n = (if exponent < 9 then let lastDigit = amount mod 9 + 1 in (amount div 9) * 10 + lastDigit
              else amount + 1)
       in times10 (unat exponent) n)"

section \<open>Outputs\<close>

definition compressedTxOutSize :: "(bytes \<Rightarrow> 'k option) \<Rightarrow> u64 \<Rightarrow> bytes \<Rightarrow> nat" where
  "compressedTxOutSize parse amount pkScript =
    serializeSizeVLQ (compressTxOutAmount amount) + compressedScriptSize parse pkScript"

definition putCompressedTxOut :: "(bytes \<Rightarrow> 'k option) \<Rightarrow> u64 \<Rightarrow> bytes \<Rightarrow> bytes" where
  "putCompressedTxOut parse amount pkScript =
    putVLQ (compressTxOutAmount amount) @ putCompressedScript parse pkScript"

definition decodeCompressedTxOut ::
  "(bytes \<Rightarrow> 'k option) \<Rightarrow> ('k \<Rightarrow> bytes) \<Rightarrow> bytes \<Rightarrow> (unit, (u64 \<times> bytes) \<times> nat) outcome" where
  "decodeCompressedTxOut parse unc serialized =
    (case deserializeVLQ serialized of (compressedAmount, bytesRead) \<Rightarrow>
       if bytesRead \<ge> length serialized then Fail ()
       else
         let rest = drop bytesRead serialized; scriptSize = decodeCompressedScriptSize rest in
         if int (length rest) < scriptSize then Fail ()
         else if scriptSize < 0 then Panic
         else obind (decompressScript parse unc rest (nat scriptSize))
           (\<lambda>script. Ret ((decompressTxOutAmount compressedAmount, script), bytesRead + nat scriptSize)))"

section \<open>Variable length quantities: the round trip\<close>

text \<open>
  The interface of a stored format whose decoder reports how many bytes it used: whatever follows the encoding,
  decoding returns the value and the length of the encoding.
\<close>

locale sized_code =
  fixes enc :: "'a \<Rightarrow> bytes"
    and dec :: "bytes \<Rightarrow> ('e, 'a \<times> nat) outcome"
    and ok :: "'a \<Rightarrow> bool"
  assumes dec_enc: "ok x \<Longrightarrow> dec (enc x @ r) = Ret (x, length (enc x))"
begin

lemma dec_enc_nil: "ok x \<Longrightarrow> dec (enc x) = Ret (x, length (enc x))"
  using dec_enc [of x "[]"] by simp

end

sublocale sized_code \<subseteq> stored: prefix_code enc ok
proof
  fix x y r s
  assume x: "ok x" and y: "ok y" and e: "enc x @ r = enc y @ s"
  show "x = y" using dec_enc [OF x, of r] dec_enc [OF y, of s] e by simp
qed

lemma bit_7f: "bit (0x7f :: int) i \<longleftrightarrow> i < 7"
proof -
  have "(0x7f :: int) = mask 7" by (simp add: mask_eq_exp_minus_1)
  then show ?thesis by (simp only: bit_mask_iff) auto
qed

lemma bit_80: "bit (0x80 :: int) i \<longleftrightarrow> i = 7"
proof -
  have "(0x80 :: int) = 2 ^ 7" by simp
  then show ?thesis by (simp only: bit_exp_iff) auto
qed

lemma vlq_digit:
  fixes n :: u64 and m :: byte
  assumes "m = 0 \<or> m = 0x80"
  shows "ucast ((ucast (n AND 0x7f) OR m) AND 0x7f) = n AND 0x7f"
    and "(ucast (n AND 0x7f) OR m) AND 0x80 = m"
proof -
  show "ucast ((ucast (n AND 0x7f) OR m) AND 0x7f) = n AND 0x7f"
    by (rule bit_word_eqI) (use assms in \<open>auto simp: bit_simps bit_7f bit_80\<close>)
  show "(ucast (n AND 0x7f) OR m) AND 0x80 = m"
    by (rule bit_word_eqI) (use assms in \<open>auto simp: bit_simps bit_7f bit_80\<close>)
qed

lemma vlq_join: "push_bit 7 (drop_bit 7 n) OR (n AND 0x7f) = (n :: u64)"
  by (rule bit_word_eqI) (auto simp: bit_simps bit_7f)

lemma vlq_last: "n \<le> 0x7f \<Longrightarrow> n AND 0x7f = (n :: u64)"
proof -
  assume "n \<le> 0x7f"
  then have "unat n < 2 ^ 7" by (simp add: word_le_nat_alt)
  then have "take_bit 7 n = n" by (simp add: word_unat_eq_iff unsigned_take_bit_eq take_bit_nat_eq_self)
  moreover have "(0x7f :: u64) = mask 7" by (simp add: mask_eq_exp_minus_1)
  ultimately show ?thesis by (simp only: take_bit_eq_mask)
qed

lemma deserializeVLQ_more:
  "deserializeVLQ_loop (rev (putVLQ_loop n 0x80) @ r) 0 s = deserializeVLQ_loop r (n + 1) (s + length (putVLQ_loop n 0x80))"
proof (induction "unat n" arbitrary: n r s rule: less_induct)
  case less
  show ?case
  proof (cases "n \<le> 0x7f")
    case True
    then show ?thesis using vlq_digit [of "0x80" n]
      by (simp add: putVLQ_loop.simps [of n] vlq_last Let_def)
  next
    case False
    define m where "m = drop_bit 7 n - 1"
    have "unat m < unat n" unfolding m_def using False by (intro vlq_step_less) simp
    from less [OF this] have ih: "deserializeVLQ_loop (rev (putVLQ_loop m 0x80) @ r') 0 s
        = deserializeVLQ_loop r' (drop_bit 7 n) (s + length (putVLQ_loop m 0x80))" for r'
      by (simp add: m_def)
    have e: "putVLQ_loop n 0x80 = (ucast (n AND 0x7f) OR 0x80) # putVLQ_loop m 0x80"
      using False by (simp add: putVLQ_loop.simps [of n] m_def)
    show ?thesis by (simp add: e ih vlq_digit vlq_join Let_def)
  qed
qed

lemma deserializeVLQ_putVLQ: "deserializeVLQ (putVLQ n @ r) = (n, length (putVLQ n))"
proof (cases "n \<le> 0x7f")
  case True
  then show ?thesis using vlq_digit [of 0 n]
    by (simp add: deserializeVLQ_def putVLQ_def putVLQ_loop.simps [of n] vlq_last Let_def)
next
  case False
  define m where "m = drop_bit 7 n - 1"
  have e: "putVLQ_loop n 0 = ucast (n AND 0x7f) # putVLQ_loop m 0x80"
    using False by (simp add: putVLQ_loop.simps [of n] m_def)
  have m: "m + 1 = drop_bit 7 n" by (simp add: m_def)
  show ?thesis using vlq_digit [of 0 n]
    by (simp add: deserializeVLQ_def putVLQ_def e deserializeVLQ_more m vlq_join Let_def)
qed

lemma size_loop: "serializeSizeVLQ_loop n k = k + length (putVLQ_loop n m) - 1"
proof (induction n k arbitrary: m rule: serializeSizeVLQ_loop.induct)
  case (1 n k)
  show ?case
  proof (cases "n > 0x7f")
    case True
    have "length (putVLQ_loop (drop_bit 7 n - 1) 0x80) > 0" by (subst putVLQ_loop.simps) simp
    moreover have "\<not> n \<le> 0x7f" using True by simp
    ultimately show ?thesis using 1 [OF True, of "0x80"] True
      by (auto simp: serializeSizeVLQ_loop.simps [of n] putVLQ_loop.simps [of n])
  next
    case False
    then show ?thesis by (auto simp: serializeSizeVLQ_loop.simps [of n] putVLQ_loop.simps [of n])
  qed
qed

lemma serializeSizeVLQ: "serializeSizeVLQ n = length (putVLQ n)"
  using size_loop [of n 1 0] by (simp add: serializeSizeVLQ_def putVLQ_def)

interpretation vlq: sized_code putVLQ "\<lambda>bs. Ret (deserializeVLQ bs) :: (unit, _) outcome" "\<lambda>_. True"
  by unfold_locales (simp add: deserializeVLQ_putVLQ)


section \<open>Amounts: the round trip\<close>

lemma unat_le_mult_div: "unat (w div 10) = unat w div 10" "unat (w mod 10) = unat w mod 10" for w :: u64
  by (simp_all add: unat_div unat_mod)

text \<open>What stripping leaves: a factor of ten for every step, and a last digit that is not zero unless nine were found.\<close>

lemma strip_zeros:
  assumes "strip_zeros k a e = (a', e')" "unat a > 0" "unat e + k \<le> 9"
  shows "unat a' > 0 \<and> unat e \<le> unat e' \<and> unat e' \<le> unat e + k \<and> unat a = unat a' * 10 ^ (unat e' - unat e)
    \<and> (unat e' < unat e + k \<longrightarrow> unat a' mod 10 \<noteq> 0)"
  using assms
proof (induction k a e rule: strip_zeros.induct)
  case (2 k a e)
  have e1: "unat (e + 1) = unat e + 1" using 2(4) by (simp add: unat_word_ariths)
  show ?case
  proof (cases "a mod 10 = 0")
    case True
    then have m: "unat a mod 10 = 0" using unat_le_mult_div(2) [of a] by simp
    then have p: "unat (a div 10) > 0" using 2(3) by (auto simp: unat_le_mult_div)
    have "unat a' > 0 \<and> unat (e + 1) \<le> unat e' \<and> unat e' \<le> unat (e + 1) + k
        \<and> unat (a div 10) = unat a' * 10 ^ (unat e' - unat (e + 1)) \<and> (unat e' < unat (e + 1) + k \<longrightarrow> unat a' mod 10 \<noteq> 0)"
      using 2(1) [OF True _ p] 2(2,4) True e1 by simp
    moreover have "unat a = 10 * (unat a div 10)" using m by auto
    ultimately show ?thesis
      by (auto simp: e1 unat_le_mult_div Suc_le_eq Suc_diff_le simp flip: power_Suc)
  next
    case False
    then have "unat a mod 10 \<noteq> 0" using unat_le_mult_div(2) [of a] by (auto simp: word_unat_eq_iff)
    then show ?thesis using 2(2,3) False by auto
  qed
qed auto

lemma of_nat_u64: "n < 2 ^ 64 \<Longrightarrow> unat (word_of_nat n :: u64) = n"
  by (simp add: unat_of_nat)

lemma word_of_unat: "unat w = n \<Longrightarrow> w = word_of_nat n"
  by auto

lemma div_mod_split: "e < b \<Longrightarrow> (b * k + e) mod b = e \<and> (b * k + e) div b = k" for b k e :: nat
  by simp

lemma compressTxOutAmount_nat:
  assumes s: "strip_zeros 9 a 0 = (a', e')" and a: "a \<noteq> 0" "9 * unat a < 2 ^ 64"
  shows "unat (compressTxOutAmount a) =
    (if unat e' < 9 then 1 + 10 * (9 * (unat a' div 10) + unat a' mod 10 - 1) + unat e' else 10 + 10 * (unat a' - 1))"
    "unat (compressTxOutAmount a) > 0"
proof -
  have "unat a > 0" using a(1) by (metis gr_zeroI unat_eq_zero)
  note f = strip_zeros [OF s this]
  have p: "unat a' > 0" and eq: "unat a = unat a' * 10 ^ unat e'" and e9: "unat e' \<le> 9"
    and d: "unat e' < 9 \<Longrightarrow> unat a' mod 10 \<noteq> 0" using f by auto
  define q d where "q = unat a' div 10" and "d = unat a' mod 10"
  have ad: "unat a' = 10 * q + d" by (simp add: q_def d_def)
  have w: "a' div 10 = word_of_nat q" "a' mod 10 = word_of_nat d" "a' = word_of_nat (unat a')" "e' = word_of_nat (unat e')"
    by (simp_all add: q_def d_def flip: unat_le_mult_div)
  show *: "unat (compressTxOutAmount a) =
    (if unat e' < 9 then 1 + 10 * (9 * (unat a' div 10) + unat a' mod 10 - 1) + unat e' else 10 + 10 * (unat a' - 1))"
  proof (cases "unat e' < 9")
    case True
    then have "d > 0" "d < 10" using d by (auto simp: d_def)
    have e: "e' < 9" using True by (simp add: word_less_nat_alt)
    define N where "N = 1 + 10 * (9 * q + d - 1) + unat e'"
    have "compressTxOutAmount a = 1 + 10 * (9 * word_of_nat q + word_of_nat d - 1) + word_of_nat (unat e')"
      using e a(1) by (simp add: compressTxOutAmount_def s Let_def w(1,2))
    also have "\<dots> = word_of_nat N" using \<open>d > 0\<close> by (simp add: N_def of_nat_diff algebra_simps)
    finally have c: "compressTxOutAmount a = word_of_nat N" .
    have "N \<le> 9 * unat a' + (unat e' + d - 9)" using ad \<open>d > 0\<close> by (simp add: N_def)
    also have "\<dots> \<le> 9 * unat a"
    proof (cases "unat e'")
      case 0
      then show ?thesis using \<open>d < 10\<close> eq by simp
    next
      case (Suc n)
      then have "10 * unat a' \<le> unat a" unfolding eq by (simp add: mult.commute)
      then show ?thesis using p True \<open>d < 10\<close> by linarith
    qed
    finally have "N < 2 ^ 64" using a(2) by linarith
    then have "unat (compressTxOutAmount a) = N" unfolding c by (rule of_nat_u64)
    then show ?thesis using True by (simp add: N_def q_def d_def)
  next
    case False
    then have e: "\<not> e' < 9" "unat e' = 9" using e9 by (auto simp: word_less_nat_alt)
    define N where "N = 10 + 10 * (unat a' - 1)"
    have "compressTxOutAmount a = 10 + 10 * (word_of_nat (unat a') - 1)"
      using e a(1) by (simp add: compressTxOutAmount_def s Let_def)
    also have "\<dots> = word_of_nat N" using p by (simp add: N_def of_nat_diff algebra_simps)
    finally have c: "compressTxOutAmount a = word_of_nat N" .
    have "N \<le> 9 * unat a" using p eq e(2) by (simp add: N_def)
    then have "N < 2 ^ 64" using a(2) by linarith
    then have "unat (compressTxOutAmount a) = N" unfolding c by (rule of_nat_u64)
    then show ?thesis using e by (simp add: N_def)
  qed
  show "unat (compressTxOutAmount a) > 0" unfolding * by simp
qed

lemma times10_nat: "unat n * 10 ^ e < 2 ^ 64 \<Longrightarrow> unat (times10 e n) = unat n * 10 ^ e"
proof (induction e arbitrary: n)
  case (Suc e)
  have "unat n * 10 * 1 \<le> unat n * 10 * 10 ^ e" by (intro mult_left_mono) simp_all
  also have "\<dots> = unat n * 10 ^ Suc e" by simp
  also have "\<dots> < 2 ^ 64" by (rule Suc(2))
  finally have "unat n * 10 < 2 ^ 64" by simp
  then have "unat (n * 10) = unat n * 10" by (simp add: unat_word_ariths)
  then show ?case using Suc by (simp add: mult.assoc)
qed simp

lemma decompressTxOutAmount_nat:
  assumes c: "unat c > 0" and n: "n * 10 ^ ((unat c - 1) mod 10) < 2 ^ 64"
    and eq: "n = (if (unat c - 1) mod 10 < 9 then (unat c - 1) div 10 div 9 * 10 + ((unat c - 1) div 10 mod 9 + 1)
      else (unat c - 1) div 10 + 1)"
  shows "unat (decompressTxOutAmount c) = n * 10 ^ ((unat c - 1) mod 10)"
proof -
  define m where "m = unat c - 1"
  have "c - 1 = word_of_nat m" using c by (simp add: m_def of_nat_diff)
  have mm: "unat (c - 1) = m" using c by (simp add: m_def unat_minus_one unat_gt_0)
  have ex: "unat ((c - 1) mod 10) = m mod 10" "unat ((c - 1) div 10) = m div 10" by (simp_all add: unat_le_mult_div mm)
  have m9: "unat ((c - 1) div 10 div 9) = m div 10 div 9" "unat ((c - 1) div 10 mod 9) = m div 10 mod 9"
    by (simp_all add: unat_div unat_mod mm)
  have nn: "n < 2 ^ 64" using n by (metis le_less_trans mult.right_neutral mult_le_mono2 one_le_numeral one_le_power)
  define w where "w = (if (c - 1) mod 10 < 9 then (c - 1) div 10 div 9 * 10 + ((c - 1) div 10 mod 9 + 1) else (c - 1) div 10 + 1)"
  have lt: "(c - 1) mod 10 < 9 \<longleftrightarrow> m mod 10 < 9" by (simp add: word_less_nat_alt ex)
  have "w = word_of_nat n"
  proof -
    have a: "(c - 1) div 10 div 9 = word_of_nat (m div 10 div 9)" "(c - 1) div 10 mod 9 = word_of_nat (m div 10 mod 9)"
      "(c - 1) div 10 = word_of_nat (m div 10)"
      by (rule word_of_unat, simp only: m9 ex)+
    show ?thesis unfolding w_def lt eq m_def [symmetric] by (simp add: a(1,2)) (simp add: a(3))
  qed
  then have "unat w = n" using nn by (simp add: of_nat_u64)
  moreover have "decompressTxOutAmount c = times10 (m mod 10) w"
    using c by (auto simp: decompressTxOutAmount_def Let_def w_def ex)
  ultimately show ?thesis using times10_nat [of w "m mod 10"] n by (simp add: m_def)
qed

lemma amount_roundtrip: "9 * unat a < 2 ^ 64 \<Longrightarrow> decompressTxOutAmount (compressTxOutAmount a) = a"
proof (cases "a = 0")
  case False
  assume b: "9 * unat a < 2 ^ 64"
  obtain a' e' where s: "strip_zeros 9 a 0 = (a', e')" by fastforce
  have "unat a > 0" using False by (metis gr_zeroI unat_eq_zero)
  note f = strip_zeros [OF s this]
  note c = compressTxOutAmount_nat [OF s False b]
  have lt: "unat a' * 10 ^ unat e' < 2 ^ 64" using f unat_lt [of a] by auto
  have "unat (decompressTxOutAmount (compressTxOutAmount a)) = unat a' * 10 ^ unat e'"
  proof (cases "unat e' < 9")
    case True
    then have d: "unat a' mod 10 > 0" using f by auto
    have m: "unat (compressTxOutAmount a) - 1 = 10 * (9 * (unat a' div 10) + (unat a' mod 10 - 1)) + unat e'"
      using c(1) True d by simp
    have x: "(unat (compressTxOutAmount a) - 1) mod 10 = unat e'"
      "(unat (compressTxOutAmount a) - 1) div 10 = 9 * (unat a' div 10) + (unat a' mod 10 - 1)"
      unfolding m using div_mod_split [of "unat e'" 10] True by (simp_all del: distrib_left_numeral)
    have "unat a' mod 10 < 10" by simp
    then have y: "(unat (compressTxOutAmount a) - 1) div 10 div 9 = unat a' div 10"
      "(unat (compressTxOutAmount a) - 1) div 10 mod 9 = unat a' mod 10 - 1"
      unfolding x using div_mod_split [of "unat a' mod 10 - 1" 9 "unat a' div 10"] d by simp_all
    have "unat a' = unat a' div 10 * 10 + (unat a' mod 10 - 1 + 1)" using d by simp
    then show ?thesis using decompressTxOutAmount_nat [OF c(2), of "unat a'"] lt True unfolding x(1) y by (simp only: if_True)
  next
    case False
    then have e: "unat e' = 9" using f by simp
    have m: "unat (compressTxOutAmount a) - 1 = 10 * (unat a' - 1) + 9" using c(1) False by simp
    have x: "(unat (compressTxOutAmount a) - 1) mod 10 = 9" "(unat (compressTxOutAmount a) - 1) div 10 = unat a' - 1"
      unfolding m by simp_all
    have "unat a' = unat a' - 1 + 1" using f by simp
    then show ?thesis using decompressTxOutAmount_nat [OF c(2), of "unat a'"] lt unfolding x e by simp
  qed
  then show ?thesis using f by (simp add: word_unat_eq_iff)
qed (simp add: compressTxOutAmount_def decompressTxOutAmount_def)

section \<open>Scripts and outputs: the round trip\<close>

text \<open>
  What the code relies on of the curve library: a point given by both coordinates is the point that its first
  coordinate and the oddness of the second give, and it is serialized by both coordinates.
\<close>

definition pubkey_lib :: "(bytes \<Rightarrow> 'k option) \<Rightarrow> ('k \<Rightarrow> bytes) \<Rightarrow> bool" where
  "pubkey_lib parse unc \<longleftrightarrow>
    (\<forall>x y. length x = 32 \<longrightarrow> length y = 32 \<longrightarrow> parse (0x04 # x @ y) \<noteq> None \<longrightarrow>
      (\<exists>k. parse ((0x02 OR (y ! 31 AND 0x01)) # x) = Some k \<and> unc k = 0x04 # x @ y))"

text \<open>A script is short enough when its length plus the special cases is an \<open>int\<close>: every script in memory is.\<close>

definition script_fits :: "bytes \<Rightarrow> bool" where
  "script_fits s \<longleftrightarrow> length s + 16 < 2 ^ 63"

lemma slice_all: "j \<le> length xs \<Longrightarrow> i \<le> j \<Longrightarrow> xs = take i xs @ slice i j xs @ drop j xs"
  unfolding slice_def
  by (metis append_assoc append_take_drop_id le_add_diff_inverse take_add)

lemma take_nths: "length xs = n \<Longrightarrow> k \<le> n \<Longrightarrow> take k xs = map ((!) xs) [0..<k]"
  by (simp add: list_eq_iff_nth_eq)

lemma drop_nths: "length xs = n \<Longrightarrow> k \<le> n \<Longrightarrow> drop k xs = map ((!) xs) [k..<n]"
  by (simp add: list_eq_iff_nth_eq)

lemma isPubKeyHash_Some:
  "isPubKeyHash s = Some h \<Longrightarrow> length h = 20 \<and> s = [OP_DUP, OP_HASH160, OP_DATA_20] @ h @ [OP_EQUALVERIFY, OP_CHECKSIG]"
  using slice_all [of 23 s 3] take_nths [of s 25 3] drop_nths [of s 25 23]
  by (auto simp: isPubKeyHash_def upt_rec numeral_2_eq_2 split: if_splits)

lemma isScriptHash_Some:
  "isScriptHash s = Some h \<Longrightarrow> length h = 20 \<and> s = [OP_HASH160, OP_DATA_20] @ h @ [OP_EQUAL]"
  using slice_all [of 22 s 2] take_nths [of s 23 2] drop_nths [of s 23 22]
  by (auto simp: isScriptHash_def upt_rec numeral_2_eq_2 split: if_splits)

lemma isPubKey_Some:
  assumes "isPubKey parse s = Some k"
  shows "(\<exists>t x. length x = 32 \<and> t \<in> {2, 3} \<and> k = t # x \<and> s = OP_DATA_33 # k @ [OP_CHECKSIG])
    \<or> (\<exists>x y. length x = 32 \<and> length y = 32 \<and> k = 4 # x @ y \<and> parse k \<noteq> None \<and> s = OP_DATA_65 # k @ [OP_CHECKSIG])"
proof (cases "length s = 35")
  case True
  then have s: "s ! 0 = OP_DATA_33" "s ! 34 = OP_CHECKSIG" "s ! 1 \<in> {2, 3}" "k = slice 1 34 s"
    using assms by (auto simp: isPubKey_def split: if_splits)
  have e: "s = OP_DATA_33 # k @ [OP_CHECKSIG]"
    using slice_all [of 34 s 1] take_nths [OF True, of 1] drop_nths [OF True, of 34] s True by (simp add: upt_rec)
  have "length k = 33" using s(4) True by simp
  then obtain t x where k: "k = t # x" "length x = 32" by (cases k) auto
  have "s ! 1 = t" using arg_cong [OF e, of "\<lambda>s. s ! 1"] k by simp
  then show ?thesis using s(3) k e by auto
next
  case False
  then have s: "s ! 0 = OP_DATA_65" "s ! 66 = OP_CHECKSIG" "s ! 1 = 4" "k = slice 1 66 s" "length s = 67" "parse k \<noteq> None"
    using assms by (auto simp: isPubKey_def split: if_splits)
  have e: "s = OP_DATA_65 # k @ [OP_CHECKSIG]"
    using slice_all [of 66 s 1] take_nths [OF s(5), of 1] drop_nths [OF s(5), of 66] s by (simp add: upt_rec)
  have "length k = 65" using s(4,5) by simp
  then obtain t z where k: "k = t # z" "length z = 64" by (cases k) auto
  have "s ! 1 = t" using arg_cong [OF e, of "\<lambda>s. s ! 1"] k by simp
  moreover have "z = take 32 z @ drop 32 z" "length (take 32 z) = 32" "length (drop 32 z) = 32" using k by simp_all
  ultimately show ?thesis using s(3,6) k e by metis
qed

lemma vlq_tag: "unat t < 128 \<Longrightarrow> deserializeVLQ (t # r) = (ucast t, 1)" for t :: byte
proof -
  assume a: "unat t < 128"
  then have t: "take_bit 7 t = t" by (simp add: word_unat_eq_iff unsigned_take_bit_eq take_bit_nat_eq_self)
  have f: "t AND 0x7f = t" using t by (simp add: take_bit_eq_mask mask_eq_exp_minus_1)
  have "\<not> bit t 7"
    using a by (metis bit_take_bit_iff less_irrefl t)
  moreover have "bit (0x80 :: byte) 7" by simp
  ultimately have "t AND 0x80 \<noteq> 0x80" by (metis bit_and_iff)
  then show ?thesis using f by (simp add: deserializeVLQ_def Let_def)
qed

lemma go_slice_mid: "go_slice (a @ b @ c) (int (length a)) (int (length a) + int (length b)) = Ret b"
  by (simp add: go_slice_def slice_def nat_add_distrib)

lemma length_putVLQ_loop: "unat n < 128 ^ Suc k \<Longrightarrow> length (putVLQ_loop n m) \<le> Suc k"
proof (induction k arbitrary: n m)
  case 0
  then have "n \<le> 0x7f" by (simp add: word_le_nat_alt)
  then show ?case by (simp add: putVLQ_loop.simps [of n])
next
  case (Suc k)
  show ?case
  proof (cases "n \<le> 0x7f")
    case False
    then have g: "n > 0x7f" by simp
    have "unat n div 128 < 128 ^ Suc k" using Suc(2) by (simp add: less_mult_imp_div_less mult.commute)
    then have "unat (drop_bit 7 n - 1) < 128 ^ Suc k" using vlq_step_nat [OF g] by linarith
    from Suc(1) [OF this] show ?thesis using False by (simp add: putVLQ_loop.simps [of n])
  qed (simp add: putVLQ_loop.simps [of n])
qed

lemma length_putVLQ: "0 < length (putVLQ n)" "length (putVLQ n) \<le> 10"
proof -
  show "0 < length (putVLQ n)" unfolding putVLQ_def by (subst putVLQ_loop.simps) simp
  have "unat n < 128 ^ Suc 9" using unat_lt [of n] by simp
  from length_putVLQ_loop [OF this] show "length (putVLQ n) \<le> 10" by (simp add: putVLQ_def)
qed

lemma uncompressed_tag: "0x04 OR (b AND 0x01) = (if bit b 0 then 5 else 4)" "0x02 OR (b AND 0x01) = (if bit b 0 then 3 else 2)"
  for b :: byte
  by (cases "bit b 0"; simp add: bit_0 and_one_eq odd_iff_mod_2_eq_one even_iff_mod_2_eq_zero)+

text \<open>The five forms of a compressed script.\<close>

lemma putCompressedScript_cases:
  obtains (pkh) h where "length h = 20" "s = [OP_DUP, OP_HASH160, OP_DATA_20] @ h @ [OP_EQUALVERIFY, OP_CHECKSIG]"
      "putCompressedScript parse s = 0 # h"
    | (sh) h where "length h = 20" "s = [OP_HASH160, OP_DATA_20] @ h @ [OP_EQUAL]" "putCompressedScript parse s = 1 # h"
    | (comp) t x where "t \<in> {2, 3}" "length x = 32" "s = OP_DATA_33 # t # x @ [OP_CHECKSIG]"
        "putCompressedScript parse s = t # x"
    | (uncomp) x y where "length x = 32" "length y = 32" "parse (4 # x @ y) \<noteq> None" "s = OP_DATA_65 # 4 # x @ y @ [OP_CHECKSIG]"
        "putCompressedScript parse s = (0x04 OR (y ! 31 AND 0x01)) # x"
    | (plain) "isPubKeyHash s = None" "isScriptHash s = None" "isPubKey parse s = None"
        "putCompressedScript parse s = putVLQ (word_of_nat (length s + 6)) @ s"
proof (cases "isPubKeyHash s")
  case (Some h)
  then have "putCompressedScript parse s = 0 # h" by (simp add: putCompressedScript_def)
  then show ?thesis using isPubKeyHash_Some [OF Some] pkh by blast
next
  case n1: None
  show ?thesis
  proof (cases "isScriptHash s")
    case (Some h)
    then have "putCompressedScript parse s = 1 # h" using n1 by (simp add: putCompressedScript_def)
    then show ?thesis using isScriptHash_Some [OF Some] sh by blast
  next
    case n2: None
    show ?thesis
    proof (cases "isPubKey parse s")
      case None
      then show ?thesis using plain n1 n2 by (simp add: putCompressedScript_def numSpecialScripts_def)
    next
      case (Some k)
      from isPubKey_Some [OF Some] show ?thesis
      proof (elim disjE exE conjE)
        fix t x
        assume a: "length x = 32" "t \<in> {2, 3}" "k = t # x" "s = OP_DATA_33 # k @ [OP_CHECKSIG]"
        then have "putCompressedScript parse s = t # x"
          using n1 n2 Some unfolding putCompressedScript_def by (auto simp: slice_def)
        then show ?thesis using a comp [of t x] by simp
      next
        fix x y
        assume a: "length x = 32" "length y = 32" "k = 4 # x @ y" "parse k \<noteq> None" "s = OP_DATA_65 # k @ [OP_CHECKSIG]"
        then have "putCompressedScript parse s = (0x04 OR (y ! 31 AND 0x01)) # x"
          using n1 n2 Some unfolding putCompressedScript_def by (auto simp: slice_def nth_Cons' nth_append)
        then show ?thesis using a uncomp [of x y] by simp
      qed
    qed
  qed
qed

lemma tag_lt: "t \<in> {0, 1, 2, 3, 4, 5 :: byte} \<Longrightarrow> unat t < 128"
  by auto

lemma plain_size:
  assumes "script_fits s"
  shows "unat (word_of_nat (length s + 6) :: u64) = length s + 6"
    "(word_of_nat (length s + 6) :: u64) \<notin> {0, 1, 2, 3, 4, 5}"
    "sint ((word_of_nat (length s + 6) :: u64) - word_of_nat 6) = int (length s)"
    "k \<le> 10 \<Longrightarrow> sint ((word_of_nat (length s + 6) - word_of_nat 6) + word_of_nat k :: u64) = int (length s + k)"
proof -
  show u: "unat (word_of_nat (length s + 6) :: u64) = length s + 6"
    by (rule of_nat_u64) (use assms in \<open>simp add: script_fits_def\<close>)
  then show "(word_of_nat (length s + 6) :: u64) \<notin> {0, 1, 2, 3, 4, 5}" by (auto simp del: of_nat_add)
  have d: "(word_of_nat (length s + 6) :: u64) - word_of_nat 6 = word_of_nat (length s)" by simp
  have si: "sint (word_of_nat n :: u64) = int n" if "n < 2 ^ 63" for n
  proof -
    have "unat (word_of_nat n :: u64) = n" by (rule of_nat_u64) (use that in simp)
    then show ?thesis using that by (simp add: sint_cases)
  qed
  show "sint ((word_of_nat (length s + 6) :: u64) - word_of_nat 6) = int (length s)"
    unfolding d using assms by (intro si) (simp add: script_fits_def)
  show "sint ((word_of_nat (length s + 6) - word_of_nat 6) + word_of_nat k :: u64) = int (length s + k)" if "k \<le> 10"
    unfolding d of_nat_add [symmetric] using assms that by (intro si) (simp add: script_fits_def)
qed

lemma compressedScriptSize: "compressedScriptSize parse s = length (putCompressedScript parse s)"
proof -
  have h: "isPubKeyHash s = Some h \<Longrightarrow> length h = 20" "isScriptHash s = Some h \<Longrightarrow> length h = 20"
    "isPubKey parse s = Some h \<Longrightarrow> length (slice (Suc 0) 33 h) = 32" for h
    using isPubKeyHash_Some [of s h] isScriptHash_Some [of s h] isPubKey_Some [of parse s h] by auto
  show ?thesis
    by (auto simp: compressedScriptSize_def putCompressedScript_def serializeSizeVLQ h simp del: length_slice split: option.split)
qed

lemma decodeCompressedScriptSize:
  assumes "script_fits s"
  shows "decodeCompressedScriptSize (putCompressedScript parse s @ r) = int (length (putCompressedScript parse s))"
proof (cases parse s rule: putCompressedScript_cases)
  case (pkh h)
  then show ?thesis by (simp add: decodeCompressedScriptSize_def vlq_tag)
next
  case (sh h)
  then show ?thesis by (simp add: decodeCompressedScriptSize_def vlq_tag)
next
  case (comp t x)
  then show ?thesis by (auto simp: decodeCompressedScriptSize_def vlq_tag)
next
  case (uncomp x y)
  then show ?thesis by (auto simp: decodeCompressedScriptSize_def vlq_tag uncompressed_tag)
next
  case plain
  define n :: u64 where "n = word_of_nat (length s + 6)"
  have "n \<notin> {0, 1, 2, 3, 4, 5}" unfolding n_def by (rule plain_size(2) [OF assms])
  moreover have "sint (n - word_of_nat 6 + word_of_nat (length (putVLQ n))) = int (length s + length (putVLQ n))"
    unfolding n_def by (rule plain_size(4) [OF assms length_putVLQ(2)])
  moreover have "length (putVLQ n) \<noteq> 0" using length_putVLQ(1) [of n] by simp
  ultimately show ?thesis unfolding plain(4) n_def [symmetric]
    by (simp add: decodeCompressedScriptSize_def numSpecialScripts_def deserializeVLQ_putVLQ)
qed

lemma decompressScript_put:
  assumes lib: "pubkey_lib parse unc" and fits: "script_fits s"
  shows "decompressScript parse unc (putCompressedScript parse s @ r) (length (putCompressedScript parse s)) = Ret s"
proof (cases parse s rule: putCompressedScript_cases)
  case (pkh h)
  then show ?thesis using go_slice_mid [of "[0]" h r] by (simp add: decompressScript_def vlq_tag)
next
  case (sh h)
  then show ?thesis using go_slice_mid [of "[1]" h r] by (simp add: decompressScript_def vlq_tag)
next
  case (comp t x)
  then show ?thesis using go_slice_mid [of "[t]" x r] by (auto simp: decompressScript_def vlq_tag)
next
  case (uncomp x y)
  obtain k where k: "parse ((0x02 OR (y ! 31 AND 0x01)) # x) = Some k" "unc k = 0x04 # x @ y"
    using lib uncomp(1-3) unfolding pubkey_lib_def by blast
  then show ?thesis using uncomp by (auto simp: decompressScript_def vlq_tag uncompressed_tag split: if_splits)
next
  case plain
  define n :: u64 where "n = word_of_nat (length s + 6)"
  have "n \<notin> {0, 1, 2, 3, 4, 5}" unfolding n_def by (rule plain_size(2) [OF fits])
  moreover have "sint (n - word_of_nat 6) = int (length s)" unfolding n_def by (rule plain_size(3) [OF fits])
  moreover have "putVLQ n \<noteq> []" using length_putVLQ(1) [of n] by simp
  ultimately show ?thesis unfolding plain(4) n_def [symmetric] using go_slice_mid [of "putVLQ n" s r]
    by (simp add: decompressScript_def numSpecialScripts_def deserializeVLQ_putVLQ)
qed

lemma decodeCompressedTxOut_put:
  assumes lib: "pubkey_lib parse unc" and fits: "script_fits s" and a: "9 * unat a < 2 ^ 64"
  shows "decodeCompressedTxOut parse unc (putCompressedTxOut parse a s @ r) = Ret ((a, s), length (putCompressedTxOut parse a s))"
proof -
  have "putCompressedScript parse s \<noteq> []"
    by (cases parse s rule: putCompressedScript_cases) (use length_putVLQ(1) [of "word_of_nat (length s + 6)"] in auto)
  then show ?thesis
    by (simp add: decodeCompressedTxOut_def putCompressedTxOut_def deserializeVLQ_putVLQ Let_def
        decodeCompressedScriptSize [OF fits] decompressScript_put [OF lib fits] amount_roundtrip [OF a])
qed

end
