(* ===== verification/Utxo_Entry.thy ===== *)
theory Utxo_Entry
  imports Merkle Script_Analysis "HOL-Library.AList"
begin

text \<open>
  Unspent outputs (\<open>blockchain/utxoviewpoint.go\<close>): an entry with its packed flags, and the slice of maps that
  the cache of \<open>blockchain/utxocache.go\<close> keeps its entries in. A Go map is an association list, whose order is
  the arbitrary order of iteration; a nil entry in it is \<^term>\<open>None\<close>.
\<close>

section \<open>Entries\<close>

type_synonym txoFlags = "8 word"

definition tfCoinBase :: txoFlags where
  "tfCoinBase = 1"

definition tfSpent :: txoFlags where
  "tfSpent = 2"

definition tfModified :: txoFlags where
  "tfModified = 4"

definition tfFresh :: txoFlags where
  "tfFresh = 8"

record utxo_entry =
  en_amount :: i64
  en_pkScript :: bytes
  en_blockHeight :: i32
  en_packedFlags :: txoFlags

definition isModified :: "utxo_entry \<Rightarrow> bool" where
  "isModified e \<longleftrightarrow> en_packedFlags e AND tfModified = tfModified"

definition isFresh :: "utxo_entry \<Rightarrow> bool" where
  "isFresh e \<longleftrightarrow> en_packedFlags e AND tfFresh = tfFresh"

definition IsCoinBase_entry :: "utxo_entry \<Rightarrow> bool" where
  "IsCoinBase_entry e \<longleftrightarrow> en_packedFlags e AND tfCoinBase = tfCoinBase"

definition IsSpent :: "utxo_entry \<Rightarrow> bool" where
  "IsSpent e \<longleftrightarrow> en_packedFlags e AND tfSpent = tfSpent"

definition clearModified :: "utxo_entry \<Rightarrow> utxo_entry" where
  "clearModified e = e\<lparr>en_packedFlags := en_packedFlags e AND NOT (tfModified OR tfFresh)\<rparr>"

definition Spend :: "utxo_entry \<Rightarrow> utxo_entry" where
  "Spend e = (if IsSpent e then e else e\<lparr>en_packedFlags := en_packedFlags e OR (tfSpent OR tfModified)\<rparr>)"

definition baseEntrySize :: u64 where
  "baseEntrySize = 40"

definition memoryUsage :: "utxo_entry option \<Rightarrow> u64" where
  "memoryUsage e = (case e of None \<Rightarrow> 0 | Some e \<Rightarrow> baseEntrySize + word_of_nat (length (en_pkScript e)))"

record spent_tx_out =
  sto_Amount :: i64
  sto_PkScript :: bytes
  sto_Height :: i32
  sto_IsCoinBase :: bool

text \<open>The entry that \<open>addTxOut\<close> of the view and of the cache makes for an output.\<close>

definition fresh_entry :: "tx_out \<Rightarrow> bool \<Rightarrow> i32 \<Rightarrow> utxo_entry" where
  "fresh_entry txOut isCoinBase blockHeight =
    \<lparr>en_amount = out_Value txOut, en_pkScript = out_PkScript txOut, en_blockHeight = blockHeight,
     en_packedFlags = (if isCoinBase then (tfFresh OR tfModified) OR tfCoinBase else tfFresh OR tfModified)\<rparr>"

definition stxo_of :: "utxo_entry \<Rightarrow> spent_tx_out" where
  "stxo_of e = \<lparr>sto_Amount = en_amount e, sto_PkScript = en_pkScript e, sto_Height = en_blockHeight e,
     sto_IsCoinBase = IsCoinBase_entry e\<rparr>"

text \<open>
  What a row of the database keeps of an entry: \<open>serializeUtxoEntry\<close> writes the height, the coinbase flag, the
  amount and the script, and \<open>deserializeUtxoEntry\<close> sets no other flag.
\<close>

definition row_of :: "utxo_entry \<Rightarrow> utxo_entry" where
  "row_of e = e\<lparr>en_packedFlags := en_packedFlags e AND tfCoinBase\<rparr>"

section \<open>The slice of maps\<close>

type_synonym entry_map = "(out_point \<times> utxo_entry option) list"

record mapSlice =
  ms_maps :: "entry_map list"
  ms_maxEntries :: "int list"
  ms_maxTotalMemoryUsage :: u64

fun maps_get :: "entry_map list \<Rightarrow> out_point \<Rightarrow> utxo_entry option option" where
  "maps_get [] op = None"
| "maps_get (m # ms) op = (case map_of m op of Some e \<Rightarrow> Some e | None \<Rightarrow> maps_get ms op)"

definition ms_get :: "mapSlice \<Rightarrow> out_point \<Rightarrow> utxo_entry option option" where
  "ms_get ms op = maps_get (ms_maps ms) op"

text \<open>The two loops of \<open>put\<close>: overwriting the key where it is, else inserting it into a map with room.\<close>

fun maps_overwrite :: "entry_map list \<Rightarrow> int list \<Rightarrow> out_point \<Rightarrow> utxo_entry option \<Rightarrow> entry_map list option" where
  "maps_overwrite (m # ms) (n # ns) op e =
    (if map_of m op \<noteq> None then Some (AList.update op e m # ms) else map_option ((#) m) (maps_overwrite ms ns op e))"
| "maps_overwrite ms ns op e = None"

fun maps_insert :: "entry_map list \<Rightarrow> int list \<Rightarrow> out_point \<Rightarrow> utxo_entry option \<Rightarrow> entry_map list option" where
  "maps_insert (m # ms) (n # ns) op e =
    (if int (length m) \<ge> n then map_option ((#) m) (maps_insert ms ns op e) else Some (AList.update op e m # ms))"
| "maps_insert ms ns op e = None"

text \<open>\<open>room\<close> is the computation of \<open>makeNewMap\<close> of how many entries the new map is made for.\<close>

definition ms_put ::
  "(mapSlice \<Rightarrow> u64 \<Rightarrow> int) \<Rightarrow> out_point \<Rightarrow> utxo_entry option \<Rightarrow> u64 \<Rightarrow> mapSlice \<Rightarrow> mapSlice" where
  "ms_put room op e totalEntryMemory ms =
    (case maps_overwrite (ms_maps ms) (ms_maxEntries ms) op e of
       Some maps \<Rightarrow> ms\<lparr>ms_maps := maps\<rparr>
     | None \<Rightarrow>
        (case maps_insert (ms_maps ms) (ms_maxEntries ms) op e of
           Some maps \<Rightarrow> ms\<lparr>ms_maps := maps\<rparr>
         | None \<Rightarrow> ms\<lparr>ms_maxEntries := ms_maxEntries ms @ [room ms totalEntryMemory],
             ms_maps := ms_maps ms @ [[(op, e)]]\<rparr>))"

definition ms_delete :: "out_point \<Rightarrow> mapSlice \<Rightarrow> mapSlice" where
  "ms_delete op ms = ms\<lparr>ms_maps := map (AList.delete op) (ms_maps ms)\<rparr>"

definition deleteMaps :: "mapSlice \<Rightarrow> mapSlice" where
  "deleteMaps ms = ms\<lparr>ms_maxEntries := take 1 (ms_maxEntries ms), ms_maps := take 1 (ms_maps ms)\<rparr>"

definition ms_length :: "mapSlice \<Rightarrow> nat" where
  "ms_length ms = sum_list (map length (ms_maps ms))"

text \<open>Changing an entry through a pointer to it: the map that holds it shows the change.\<close>

definition ms_modify :: "out_point \<Rightarrow> utxo_entry \<Rightarrow> mapSlice \<Rightarrow> mapSlice" where
  "ms_modify op e ms =
    (case maps_overwrite (ms_maps ms) (ms_maxEntries ms) op (Some e) of
       Some maps \<Rightarrow> ms\<lparr>ms_maps := maps\<rparr> | None \<Rightarrow> ms)"

section \<open>Flags\<close>

lemmas tf_defs = tfCoinBase_def tfSpent_def tfModified_def tfFresh_def

lemma bit_tf:
  "bit tfCoinBase n \<longleftrightarrow> n = 0" "bit tfSpent n \<longleftrightarrow> n = 1" "bit tfModified n \<longleftrightarrow> n = 2" "bit tfFresh n \<longleftrightarrow> n = 3"
proof -
  have p: "bit (2 ^ k :: 8 word) n \<longleftrightarrow> n = k" if "k < 8" for k using that by (auto simp: bit_exp_iff)
  show "bit tfCoinBase n \<longleftrightarrow> n = 0" using p [of 0] by (simp add: tf_defs)
  show "bit tfSpent n \<longleftrightarrow> n = 1" using p [of 1] by (simp add: tf_defs)
  show "bit tfModified n \<longleftrightarrow> n = 2" using p [of 2] by (simp add: tf_defs)
  show "bit tfFresh n \<longleftrightarrow> n = 3" using p [of 3] by (simp add: tf_defs)
qed

lemma and_flag_iff:
  fixes w f :: "8 word"
  assumes "\<And>n. bit f n \<longleftrightarrow> n = k"
  shows "w AND f = f \<longleftrightarrow> bit w k"
proof
  assume e: "w AND f = f"
  have "bit (w AND f) k" unfolding e using assms by simp
  then show "bit w k" by (simp only: bit_and_iff)
next
  assume "bit w k"
  then show "w AND f = f" by (intro bit_eqI) (auto simp: bit_and_iff assms)
qed

lemma flag_bits:
  "isModified e \<longleftrightarrow> bit (en_packedFlags e) 2" "isFresh e \<longleftrightarrow> bit (en_packedFlags e) 3"
  "IsCoinBase_entry e \<longleftrightarrow> bit (en_packedFlags e) 0" "IsSpent e \<longleftrightarrow> bit (en_packedFlags e) 1"
  unfolding isModified_def isFresh_def IsCoinBase_entry_def IsSpent_def
  by (rule and_flag_iff bit_tf)+

lemmas flag_simps = flag_bits bit_and_iff bit_or_iff bit_not_iff bit_tf

lemma Spend_simps [simp]:
  "IsSpent (Spend e)" "isFresh (Spend e) = isFresh e" "en_amount (Spend e) = en_amount e"
  "en_pkScript (Spend e) = en_pkScript e" "en_blockHeight (Spend e) = en_blockHeight e"
  "IsCoinBase_entry (Spend e) = IsCoinBase_entry e"
  by (auto simp: Spend_def flag_simps)

lemma Spend_modified: "\<not> IsSpent e \<Longrightarrow> isModified (Spend e)"
  by (auto simp: Spend_def flag_simps)

lemma clearModified_simps [simp]:
  "\<not> isModified (clearModified e)" "\<not> isFresh (clearModified e)" "IsSpent (clearModified e) = IsSpent e"
  "IsCoinBase_entry (clearModified e) = IsCoinBase_entry e" "en_amount (clearModified e) = en_amount e"
  "en_pkScript (clearModified e) = en_pkScript e" "en_blockHeight (clearModified e) = en_blockHeight e"
  by (auto simp: clearModified_def flag_simps)

lemma fresh_entry_simps [simp]:
  "isModified (fresh_entry t c h)" "isFresh (fresh_entry t c h)" "\<not> IsSpent (fresh_entry t c h)"
  "IsCoinBase_entry (fresh_entry t c h) = c" "en_amount (fresh_entry t c h) = out_Value t"
  "en_pkScript (fresh_entry t c h) = out_PkScript t" "en_blockHeight (fresh_entry t c h) = h"
  by (auto simp: fresh_entry_def flag_simps)

lemma row_of_simps [simp]:
  "\<not> isModified (row_of e)" "\<not> isFresh (row_of e)" "\<not> IsSpent (row_of e)"
  "IsCoinBase_entry (row_of e) = IsCoinBase_entry e" "en_amount (row_of e) = en_amount e"
  "en_pkScript (row_of e) = en_pkScript e" "en_blockHeight (row_of e) = en_blockHeight e"
  by (auto simp: row_of_def flag_simps)

section \<open>The slice of maps is a map\<close>

text \<open>The interface of a store of entries: what a lookup returns after each operation.\<close>

locale entry_store =
  fixes ok :: "'s \<Rightarrow> bool"
    and get :: "'s \<Rightarrow> out_point \<Rightarrow> utxo_entry option option"
    and put :: "out_point \<Rightarrow> utxo_entry option \<Rightarrow> u64 \<Rightarrow> 's \<Rightarrow> 's"
    and del :: "out_point \<Rightarrow> 's \<Rightarrow> 's"
    and modify :: "out_point \<Rightarrow> utxo_entry \<Rightarrow> 's \<Rightarrow> 's"
  assumes put_ok: "ok s \<Longrightarrow> ok (put op e m s)" and get_put: "ok s \<Longrightarrow> get (put op e m s) = (get s)(op \<mapsto> e)"
    and del_ok: "ok s \<Longrightarrow> ok (del op s)" and get_del: "ok s \<Longrightarrow> get (del op s) = (get s)(op := None)"
    and modify_ok: "ok s \<Longrightarrow> ok (modify op en s)"
    and get_modify: "ok s \<Longrightarrow> get s op \<noteq> None \<Longrightarrow> get (modify op en s) = (get s)(op \<mapsto> Some en)"
begin

lemma fold_put:
  "ok s \<Longrightarrow> ok (fold (\<lambda>op. put op (f op) (m op)) ops s)
   \<and> get (fold (\<lambda>op. put op (f op) (m op)) ops s) k = (if k \<in> set ops then Some (f k) else get s k)"
proof (induction ops arbitrary: s)
  case (Cons op ops)
  have "ok (put op (f op) (m op) s)" using Cons(2) by (rule put_ok)
  from Cons(1) [OF this] show ?case using get_put [OF Cons(2), of op "f op" "m op"] by simp
qed simp

end

text \<open>A key is in at most one map, and a Go map holds a key once.\<close>

definition ms_keys :: "entry_map list \<Rightarrow> out_point list" where
  "ms_keys ms = map fst (concat ms)"

definition ms_ok :: "mapSlice \<Rightarrow> bool" where
  "ms_ok ms \<longleftrightarrow> length (ms_maps ms) = length (ms_maxEntries ms) \<and> ms_maps ms \<noteq> [] \<and> distinct (ms_keys (ms_maps ms))"

lemma ms_keys_simps [simp]: "ms_keys [] = []" "ms_keys (m # ms) = map fst m @ ms_keys ms" "ms_keys (ms @ ms') = ms_keys ms @ ms_keys ms'"
  by (simp_all add: ms_keys_def)

lemma map_of_keys: "map_of m op = None \<longleftrightarrow> op \<notin> set (map fst m)"
  by (simp add: map_of_eq_None_iff)

lemma maps_get_keys: "maps_get ms op \<noteq> None \<longleftrightarrow> op \<in> set (ms_keys ms)"
proof (induction ms)
  case (Cons m ms)
  then show ?case using map_of_keys [of m op] by (cases "map_of m op") auto
qed simp

lemma maps_overwrite_keys: "maps_overwrite ms ns op e = Some ms' \<Longrightarrow> ms_keys ms' = ms_keys ms"
proof (induction ms ns op e arbitrary: ms' rule: maps_overwrite.induct)
  case (1 m ms n ns op e)
  show ?case
  proof (cases "map_of m op")
    case (Some x)
    then have "op \<in> set (map fst m)" using map_of_keys [of m op] by simp
    then have "map fst (AList.update op e m) = map fst m" by (simp only: update_keys if_True)
    then show ?thesis using 1(2) Some by auto
  qed (use 1 in auto)
qed auto

lemma maps_insert_keys:
  "maps_insert ms ns op e = Some ms' \<Longrightarrow> op \<notin> set (ms_keys ms) \<Longrightarrow> distinct (ms_keys ms) \<Longrightarrow>
   distinct (ms_keys ms') \<and> set (ms_keys ms') = insert op (set (ms_keys ms))"
proof (induction ms ns op e arbitrary: ms' rule: maps_insert.induct)
  case (1 m ms n ns op e)
  show ?case
  proof (cases "n \<le> int (length m)")
    case True
    then obtain r where r: "maps_insert ms ns op e = Some r" "ms' = m # r" using 1(2) by auto
    then show ?thesis using 1(1) [OF True r(1)] 1(3,4) by auto
  next
    case False
    then have m: "ms' = AList.update op e m # ms" using 1(2) by simp
    have "op \<notin> set (map fst m)" using 1(3) by simp
    then have "map fst (AList.update op e m) = map fst m @ [op]" by (simp only: update_keys if_False)
    then show ?thesis using 1(3,4) unfolding m by (simp only: ms_keys_simps) auto
  qed
qed auto

lemma ms_keys_delete: "ms_keys (map (AList.delete op) ms) = removeAll op (ms_keys ms)"
  by (induction ms) (simp_all add: delete_keys)

lemma maps_overwrite_Some:
  "maps_overwrite ms ns op e = Some ms' \<Longrightarrow> length ms' = length ms \<and> (\<forall>k. maps_get ms' k = ((maps_get ms)(op \<mapsto> e)) k)"
proof (induction ms ns op e arbitrary: ms' rule: maps_overwrite.induct)
  case (1 m ms n ns op e)
  show ?case
  proof (cases "map_of m op = None")
    case True
    then obtain r where r: "maps_overwrite ms ns op e = Some r" "ms' = m # r" using 1(2) by auto
    then show ?thesis using 1(1) [OF _ r(1)] True by (auto split: option.split)
  next
    case False
    then show ?thesis using 1(2) by (auto simp: update_conv' split: option.split)
  qed
qed auto

lemma maps_overwrite_None:
  "maps_overwrite ms ns op e = None \<Longrightarrow> length ms = length ns \<Longrightarrow> maps_get ms op = None"
  by (induction ms ns op e rule: maps_overwrite.induct) (auto split: if_splits)

lemma maps_insert_Some:
  "maps_insert ms ns op e = Some ms' \<Longrightarrow> maps_get ms op = None \<Longrightarrow>
   length ms' = length ms \<and> (\<forall>k. maps_get ms' k = ((maps_get ms)(op \<mapsto> e)) k)"
proof (induction ms ns op e arbitrary: ms' rule: maps_insert.induct)
  case (1 m ms n ns op e)
  have n: "map_of m op = None" "maps_get ms op = None" using 1(3) by (auto split: option.splits)
  show ?case
  proof (cases "int (length m) \<ge> n")
    case True
    then obtain r where r: "maps_insert ms ns op e = Some r" "ms' = m # r" using 1(2) by auto
    then show ?thesis using 1(1) [OF True r(1) n(2)] n by (auto split: option.split)
  next
    case False
    then show ?thesis using 1(2) n by (auto simp: update_conv' split: option.split)
  qed
qed auto

lemma maps_get_append: "maps_get (ms @ [m]) op = (case maps_get ms op of Some e \<Rightarrow> Some e | None \<Rightarrow> map_of m op)"
  by (induction ms) (auto split: option.split)

lemma maps_get_delete: "maps_get (map (AList.delete op) ms) k = ((maps_get ms)(op := None)) k"
  by (induction ms) (auto simp: delete_conv' split: option.split)

lemma ms_put_get: "ms_ok ms \<Longrightarrow> ms_get (ms_put room op e t ms) k = ((ms_get ms)(op \<mapsto> e)) k \<and> ms_ok (ms_put room op e t ms)"
proof (cases "maps_overwrite (ms_maps ms) (ms_maxEntries ms) op e")
  case (Some maps)
  assume "ms_ok ms"
  then show ?thesis using maps_overwrite_Some [OF Some] maps_overwrite_keys [OF Some] Some
    by (auto simp: ms_put_def ms_get_def ms_ok_def)
next
  case n: None
  assume ok: "ms_ok ms"
  have g: "maps_get (ms_maps ms) op = None" using maps_overwrite_None [OF n] ok by (simp add: ms_ok_def)
  then have k: "op \<notin> set (ms_keys (ms_maps ms))" using maps_get_keys by blast
  show ?thesis
  proof (cases "maps_insert (ms_maps ms) (ms_maxEntries ms) op e")
    case (Some maps)
    then show ?thesis using maps_insert_Some [OF Some g] maps_insert_keys [OF Some k] n ok
      by (auto simp: ms_put_def ms_get_def ms_ok_def)
  next
    case None
    then show ?thesis using n g k ok by (auto simp: ms_put_def ms_get_def ms_ok_def maps_get_append split: option.split)
  qed
qed

lemma ms_modify_get:
  "ms_ok ms \<Longrightarrow> ms_ok (ms_modify op e ms)
    \<and> (ms_get ms op \<noteq> None \<longrightarrow> ms_get (ms_modify op e ms) k = ((ms_get ms)(op \<mapsto> Some e)) k)"
proof (cases "maps_overwrite (ms_maps ms) (ms_maxEntries ms) op (Some e)")
  case None
  assume "ms_ok ms"
  then show ?thesis using maps_overwrite_None [OF None] None by (simp add: ms_modify_def ms_get_def ms_ok_def)
next
  case (Some maps)
  assume "ms_ok ms"
  then show ?thesis using maps_overwrite_Some [OF Some] maps_overwrite_keys [OF Some] Some
    by (auto simp: ms_modify_def ms_get_def ms_ok_def)
qed

lemma ms_delete_get:
  "ms_ok ms \<Longrightarrow> ms_ok (ms_delete op ms) \<and> ms_get (ms_delete op ms) k = ((ms_get ms)(op := None)) k"
  by (simp add: ms_delete_def ms_ok_def ms_get_def maps_get_delete ms_keys_delete distinct_removeAll)

interpretation entries: entry_store ms_ok ms_get "ms_put room" ms_delete ms_modify
proof (unfold_locales, goal_cases)
  case (1 s op e m)
  then show ?case using ms_put_get by blast
next
  case (2 s op e m)
  then show ?case using ms_put_get by blast
next
  case (3 s op)
  then show ?case using ms_delete_get by blast
next
  case (4 s op)
  then show ?case using ms_delete_get by blast
next
  case (5 s op en)
  then show ?case using ms_modify_get by blast
next
  case (6 s op en)
  then show ?case using ms_modify_get by blast
qed

end
