(* ===== verification/Chain_Db.thy ===== *)
theory Chain_Db
  imports Compress Utxo_Entry "HOL-Library.RBT" "HOL-Library.List_Lexorder"
begin

text \<open>
  The rows of the chain state, \<open>blockchain/chainio.go\<close>: the spend journal, the unspent outputs, the two
  directions of the block index, block headers, and the single-key records of the best tip. A bucket of the
  metadata store is an ordered map of byte strings; inside a writable transaction its \<open>Put\<close> and \<open>Delete\<close>
  succeed for the non-empty keys used here. A routine that an undersized row makes panic returns \<^const>\<open>Panic\<close>.
\<close>

type_synonym bucket = "(bytes, bytes) RBT.rbt"

datatype chain_error = ErrNotInMainChain | ErrDeserialize | ErrCorruption | AssertError | ErrNotConnected | ErrDecode

record chain_db =
  cd_utxo :: bucket
  cd_spend :: bucket
  cd_hashIdx :: bucket
  cd_heightIdx :: bucket
  cd_blockIdx :: bucket
  cd_meta :: bucket
  cd_watermark :: "i32 option"

section \<open>The spend journal\<close>

definition spentTxOutHeaderCode :: "spent_tx_out \<Rightarrow> u64" where
  "spentTxOutHeaderCode stxo =
    (let headerCode = push_bit 1 (scast (sto_Height stxo) :: u64) in
     if sto_IsCoinBase stxo then headerCode OR 0x01 else headerCode)"

definition spentTxOutSerializeSize :: "(bytes \<Rightarrow> 'k option) \<Rightarrow> spent_tx_out \<Rightarrow> nat" where
  "spentTxOutSerializeSize parse stxo =
    serializeSizeVLQ (spentTxOutHeaderCode stxo) + (if 0 <s sto_Height stxo then serializeSizeVLQ 0 else 0)
      + compressedTxOutSize parse (sto_Amount stxo) (sto_PkScript stxo)"

definition putSpentTxOut :: "(bytes \<Rightarrow> 'k option) \<Rightarrow> spent_tx_out \<Rightarrow> bytes" where
  "putSpentTxOut parse stxo =
    putVLQ (spentTxOutHeaderCode stxo) @ (if 0 <s sto_Height stxo then putVLQ 0 else [])
      @ putCompressedTxOut parse (sto_Amount stxo) (sto_PkScript stxo)"

definition decodeSpentTxOut ::
  "(bytes \<Rightarrow> 'k option) \<Rightarrow> ('k \<Rightarrow> bytes) \<Rightarrow> bytes \<Rightarrow> (unit, spent_tx_out \<times> nat) outcome" where
  "decodeSpentTxOut parse unc serialized =
    (if length serialized = 0 then Fail ()
     else case deserializeVLQ serialized of (code, offset) \<Rightarrow>
       if offset \<ge> length serialized then Fail ()
       else
         let isCoinBase = code AND 0x01 \<noteq> 0; height = (ucast (drop_bit 1 code) :: i32);
           offset = (if 0 <s height then offset + snd (deserializeVLQ (drop offset serialized)) else offset)
         in if 0 <s height \<and> offset \<ge> length serialized then Fail ()
         else obind (decodeCompressedTxOut parse unc (drop offset serialized))
           (\<lambda>((amount, pkScript), bytesRead).
             Ret (\<lparr>sto_Amount = amount, sto_PkScript = pkScript, sto_Height = height, sto_IsCoinBase = isCoinBase\<rparr>,
               offset + bytesRead)))"

text \<open>The entries in the order they are read: the loops run backwards over the transactions and their inputs.\<close>

fun read_stxos ::
  "(bytes \<Rightarrow> 'k option) \<Rightarrow> ('k \<Rightarrow> bytes) \<Rightarrow> tx_in list \<Rightarrow> bytes \<Rightarrow> (chain_error, spent_tx_out list) outcome" where
  "read_stxos parse unc [] serialized = Ret []"
| "read_stxos parse unc (txIn # ins) serialized =
    (case decodeSpentTxOut parse unc serialized of
       Panic \<Rightarrow> Panic
     | Fail _ \<Rightarrow> Fail ErrDeserialize
     | Ret (stxo, n) \<Rightarrow> obind (read_stxos parse unc ins (drop n serialized)) (\<lambda>r. Ret (stxo # r)))"

definition deserializeSpendJournalEntry ::
  "(bytes \<Rightarrow> 'k option) \<Rightarrow> ('k \<Rightarrow> bytes) \<Rightarrow> bytes \<Rightarrow> msg_tx list \<Rightarrow> (chain_error, spent_tx_out list) outcome" where
  "deserializeSpendJournalEntry parse unc serialized txns =
    (let ins = concat (map tx_TxIn txns) in
     if length serialized = 0 then (if length ins \<noteq> 0 then Fail AssertError else Ret [])
     else obind (read_stxos parse unc (rev ins) serialized) (\<lambda>r. Ret (rev r)))"

definition serializeSpendJournalEntry :: "(bytes \<Rightarrow> 'k option) \<Rightarrow> spent_tx_out list \<Rightarrow> bytes" where
  "serializeSpendJournalEntry parse stxos = concat (map (putSpentTxOut parse) (rev stxos))"

section \<open>Hash and height index\<close>

definition height_key :: "i32 \<Rightarrow> bytes" where
  "height_key height = le_bytes 4 height"

definition dbPutBlockIndex :: "hash \<Rightarrow> i32 \<Rightarrow> chain_db \<Rightarrow> chain_db" where
  "dbPutBlockIndex h height db =
    db\<lparr>cd_hashIdx := RBT.insert h (height_key height) (cd_hashIdx db),
       cd_heightIdx := RBT.insert (height_key height) h (cd_heightIdx db)\<rparr>"

definition dbPutHashIndex :: "hash \<Rightarrow> i32 \<Rightarrow> chain_db \<Rightarrow> chain_db" where
  "dbPutHashIndex h height db = db\<lparr>cd_hashIdx := RBT.insert h (height_key height) (cd_hashIdx db)\<rparr>"

definition dbPutHeightIndex :: "i32 \<Rightarrow> hash \<Rightarrow> chain_db \<Rightarrow> chain_db" where
  "dbPutHeightIndex height h db = db\<lparr>cd_heightIdx := RBT.insert (height_key height) h (cd_heightIdx db)\<rparr>"

definition dbFetchHashByHeight :: "chain_db \<Rightarrow> i32 \<Rightarrow> chain_error + hash" where
  "dbFetchHashByHeight db height =
    (case RBT.lookup (cd_heightIdx db) (height_key height) of
       None \<Rightarrow> Inl ErrNotInMainChain
     | Some hashBytes \<Rightarrow> Inr (take 32 hashBytes @ replicate (32 - length hashBytes) 0))"

definition dbPutHeightIndexGuarded :: "i32 \<Rightarrow> hash \<Rightarrow> bool \<Rightarrow> chain_db \<Rightarrow> chain_db" where
  "dbPutHeightIndexGuarded height h onChain db =
    (if \<not> onChain then
       (case dbFetchHashByHeight db height of Inr _ \<Rightarrow> db | Inl _ \<Rightarrow> dbPutHeightIndex height h db)
     else dbPutHeightIndex height h db)"

definition dbRemoveHeightIndex :: "i32 \<Rightarrow> chain_db \<Rightarrow> chain_db" where
  "dbRemoveHeightIndex height db = db\<lparr>cd_heightIdx := RBT.delete (height_key height) (cd_heightIdx db)\<rparr>"

definition dbRemoveBlockIndex :: "hash \<Rightarrow> i32 \<Rightarrow> chain_db \<Rightarrow> chain_db" where
  "dbRemoveBlockIndex h height db =
    db\<lparr>cd_hashIdx := RBT.delete h (cd_hashIdx db),
       cd_heightIdx := RBT.delete (height_key height) (cd_heightIdx db)\<rparr>"

text \<open>\<open>Uint32\<close> of a slice of fewer than four bytes panics.\<close>

definition go_uint32 :: "bytes \<Rightarrow> ('e, u32) outcome" where
  "go_uint32 b = (if length b < 4 then Panic else Ret (le_word (take 4 b)))"

definition dbFetchHeightByHash :: "chain_db \<Rightarrow> hash \<Rightarrow> (chain_error, i32) outcome" where
  "dbFetchHeightByHash db h =
    (case RBT.lookup (cd_hashIdx db) h of None \<Rightarrow> Fail ErrNotInMainChain | Some s \<Rightarrow> go_uint32 s)"

text \<open>A block of the chain, as the journal routines use it: its hash and its message.\<close>

record chain_block =
  cb_hash :: hash
  cb_msg :: msg_block
  cb_height :: i32

definition dbFetchSpendJournalEntry ::
  "(bytes \<Rightarrow> 'k option) \<Rightarrow> ('k \<Rightarrow> bytes) \<Rightarrow> chain_db \<Rightarrow> chain_block \<Rightarrow> (chain_error, spent_tx_out list) outcome" where
  "dbFetchSpendJournalEntry parse unc db block =
    (let serialized = (case RBT.lookup (cd_spend db) (cb_hash block) of None \<Rightarrow> [] | Some s \<Rightarrow> s) in
     if mb_Transactions (cb_msg block) = [] then Panic
     else case deserializeSpendJournalEntry parse unc serialized (drop 1 (mb_Transactions (cb_msg block))) of
       Panic \<Rightarrow> Panic
     | Ret stxos \<Rightarrow> Ret stxos
     | Fail err \<Rightarrow>
        (case dbFetchHeightByHash db (cb_hash block) of
           Panic \<Rightarrow> Panic
         | Fail _ \<Rightarrow> Fail ErrNotConnected
         | Ret _ \<Rightarrow> if err = ErrDeserialize then Fail ErrCorruption else Fail err))"

definition dbPutSpendJournalEntry :: "(bytes \<Rightarrow> 'k option) \<Rightarrow> hash \<Rightarrow> spent_tx_out list \<Rightarrow> chain_db \<Rightarrow> chain_db" where
  "dbPutSpendJournalEntry parse blockHash stxos db =
    db\<lparr>cd_spend := RBT.insert blockHash (serializeSpendJournalEntry parse stxos) (cd_spend db)\<rparr>"

definition dbRemoveSpendJournalEntry :: "hash \<Rightarrow> chain_db \<Rightarrow> chain_db" where
  "dbRemoveSpendJournalEntry blockHash db = db\<lparr>cd_spend := RBT.delete blockHash (cd_spend db)\<rparr>"

definition dbPruneSpendJournalEntry :: "hash list \<Rightarrow> chain_db \<Rightarrow> chain_db" where
  "dbPruneSpendJournalEntry blockHashes db = fold dbRemoveSpendJournalEntry blockHashes db"

section \<open>Unspent outputs\<close>

definition outpointKey :: "out_point \<Rightarrow> bytes" where
  "outpointKey outpoint = op_Hash outpoint @ putVLQ (ucast (op_Index outpoint))"

definition deserializeOutpointKey :: "bytes \<Rightarrow> chain_error + out_point" where
  "deserializeOutpointKey key =
    (if length key < 32 then Inl AssertError
     else case deserializeVLQ (drop 32 key) of (index, numBytes) \<Rightarrow>
       if numBytes = 0 \<or> 32 + numBytes \<noteq> length key then Inl AssertError
       else Inr \<lparr>op_Hash = take 32 key, op_Index = ucast index\<rparr>)"

definition utxoEntryHeaderCode :: "utxo_entry \<Rightarrow> chain_error + u64" where
  "utxoEntryHeaderCode entry =
    (if IsSpent entry then Inl AssertError
     else
       let headerCode = push_bit 1 (scast (en_blockHeight entry) :: u64) in
       Inr (if IsCoinBase_entry entry then headerCode OR 0x01 else headerCode))"

text \<open>A spent entry has the empty serialization.\<close>

definition serializeUtxoEntry :: "(bytes \<Rightarrow> 'k option) \<Rightarrow> utxo_entry \<Rightarrow> chain_error + bytes" where
  "serializeUtxoEntry parse entry =
    (if IsSpent entry then Inr []
     else case utxoEntryHeaderCode entry of
       Inl e \<Rightarrow> Inl e
     | Inr headerCode \<Rightarrow> Inr (putVLQ headerCode @ putCompressedTxOut parse (en_amount entry) (en_pkScript entry)))"

definition deserializeUtxoEntry ::
  "(bytes \<Rightarrow> 'k option) \<Rightarrow> ('k \<Rightarrow> bytes) \<Rightarrow> bytes \<Rightarrow> (chain_error, utxo_entry) outcome" where
  "deserializeUtxoEntry parse unc serialized =
    (case deserializeVLQ serialized of (code, offset) \<Rightarrow>
       if offset \<ge> length serialized then Fail ErrDeserialize
       else case decodeCompressedTxOut parse unc (drop offset serialized) of
         Panic \<Rightarrow> Panic
       | Fail _ \<Rightarrow> Fail ErrDeserialize
       | Ret ((amount, pkScript), _) \<Rightarrow>
          Ret \<lparr>en_amount = amount, en_pkScript = pkScript, en_blockHeight = ucast (drop_bit 1 code),
            en_packedFlags = (if code AND 0x01 \<noteq> 0 then tfCoinBase else 0)\<rparr>)"

text \<open>\<open>Seek\<close> leaves the cursor at the first key that is not below the given one.\<close>

definition dbFetchUtxoEntryByHash ::
  "(bytes \<Rightarrow> 'k option) \<Rightarrow> ('k \<Rightarrow> bytes) \<Rightarrow> chain_db \<Rightarrow> hash \<Rightarrow> (chain_error, utxo_entry option) outcome" where
  "dbFetchUtxoEntryByHash parse unc db h =
    (case dropWhile (\<lambda>(k, v). k < outpointKey \<lparr>op_Hash = h, op_Index = 0\<rparr>) (RBT.entries (cd_utxo db)) of
       [] \<Rightarrow> Ret None
     | (k, v) # _ \<Rightarrow>
        if length k < 32 then Ret None
        else if h \<noteq> take 32 k then Ret None
        else obind (deserializeUtxoEntry parse unc v) (\<lambda>e. Ret (Some e)))"

definition dbFetchUtxoEntry ::
  "(bytes \<Rightarrow> 'k option) \<Rightarrow> ('k \<Rightarrow> bytes) \<Rightarrow> chain_db \<Rightarrow> out_point \<Rightarrow> (chain_error, utxo_entry option) outcome" where
  "dbFetchUtxoEntry parse unc db outpoint =
    (case RBT.lookup (cd_utxo db) (outpointKey outpoint) of
       None \<Rightarrow> Ret None
     | Some s \<Rightarrow>
        if length s = 0 then Fail AssertError
        else case deserializeUtxoEntry parse unc s of
          Panic \<Rightarrow> Panic
        | Fail err \<Rightarrow> if err = ErrDeserialize then Fail ErrCorruption else Fail err
        | Ret e \<Rightarrow> Ret (Some e))"

definition dbDeleteUtxoEntry :: "out_point \<Rightarrow> chain_db \<Rightarrow> chain_db" where
  "dbDeleteUtxoEntry outpoint db = db\<lparr>cd_utxo := RBT.delete (outpointKey outpoint) (cd_utxo db)\<rparr>"

definition dbPutUtxoEntry ::
  "(bytes \<Rightarrow> 'k option) \<Rightarrow> out_point \<Rightarrow> utxo_entry option \<Rightarrow> chain_db \<Rightarrow> chain_error + chain_db" where
  "dbPutUtxoEntry parse outpoint entry db =
    (case entry of
       None \<Rightarrow> Inl AssertError
     | Some e \<Rightarrow>
        if IsSpent e then Inl AssertError
        else case serializeUtxoEntry parse e of
          Inl err \<Rightarrow> Inl err
        | Inr s \<Rightarrow> Inr (db\<lparr>cd_utxo := RBT.insert (outpointKey outpoint) s (cd_utxo db)\<rparr>))"

text \<open>The entries of a view, in the arbitrary order of iterating over them.\<close>

fun dbPutUtxoView :: "(bytes \<Rightarrow> 'k option) \<Rightarrow> (out_point \<times> utxo_entry option) list \<Rightarrow> chain_db \<Rightarrow> chain_error + chain_db" where
  "dbPutUtxoView parse [] db = Inr db"
| "dbPutUtxoView parse ((outpoint, entry) # es) db =
    (case entry of
       None \<Rightarrow> dbPutUtxoView parse es db
     | Some e \<Rightarrow>
        if \<not> isModified e then dbPutUtxoView parse es db
        else if IsSpent e then dbPutUtxoView parse es (dbDeleteUtxoEntry outpoint db)
        else case dbPutUtxoEntry parse outpoint entry db of
          Inl err \<Rightarrow> Inl err
        | Inr db' \<Rightarrow> dbPutUtxoView parse es db')"

section \<open>Round trips of the rows\<close>

text \<open>Height and coinbase flag in one code, for heights of either sign.\<close>

lemma header_code:
  fixes h :: i32 and b :: bool
  defines "c \<equiv> (if b then push_bit 1 (scast h :: u64) OR 0x01 else push_bit 1 (scast h))"
  shows "c AND 0x01 \<noteq> 0 \<longleftrightarrow> b" "ucast (drop_bit 1 c) = h"
proof -
  have p: "bit (push_bit 1 (scast h :: u64)) i \<longleftrightarrow> 1 \<le> i \<and> i < 64 \<and> bit (scast h :: u64) (i - 1)" for i
    unfolding bit_push_bit_iff by auto
  have o: "bit (1 :: u64) i \<longleftrightarrow> i = 0" for i by (simp add: bit_1_iff)
  have b: "bit c i \<longleftrightarrow> (if i = 0 then b else i < 64 \<and> bit (scast h :: u64) (i - 1))" for i
    unfolding c_def by (cases b) (auto simp only: if_True if_False bit_or_iff p o split: if_split)
  have "c AND 0x01 = (if bit c 0 then 1 else 0)" by (simp add: and_one_eq bit_0 even_iff_mod_2_eq_zero odd_iff_mod_2_eq_one)
  then show "c AND 0x01 \<noteq> 0 \<longleftrightarrow> b" using b [of 0] by simp
  show "ucast (drop_bit 1 c) = h"
  proof (rule bit_word_eqI)
    fix i assume i: "i < LENGTH(32)"
    have "bit (drop_bit 1 c) i \<longleftrightarrow> bit c (1 + i)" by (simp only: bit_drop_bit_eq o_def)
    also have "\<dots> \<longleftrightarrow> bit h i" using i by (simp add: b bit_simps)
    finally show "bit (ucast (drop_bit 1 c) :: i32) i \<longleftrightarrow> bit h i" using i by (simp only: bit_ucast_iff) simp
  qed
qed

definition amount_fits :: "i64 \<Rightarrow> bool" where
  "amount_fits a \<longleftrightarrow> 9 * unat a < 2 ^ 64"

text \<open>An entry that the database can hold, and an outpoint whose hash has its width.\<close>

definition storable :: "utxo_entry \<Rightarrow> bool" where
  "storable e \<longleftrightarrow> amount_fits (en_amount e) \<and> script_fits (en_pkScript e)"

definition stxo_ok :: "spent_tx_out \<Rightarrow> bool" where
  "stxo_ok s \<longleftrightarrow> amount_fits (sto_Amount s) \<and> script_fits (sto_PkScript s)"

definition op_ok :: "out_point \<Rightarrow> bool" where
  "op_ok op \<longleftrightarrow> is_hash (op_Hash op)"

interpretation txout_code: sized_code "\<lambda>(a, s). putCompressedTxOut parse a s" "decodeCompressedTxOut parse unc"
  "\<lambda>(a, s). pubkey_lib parse unc \<and> amount_fits a \<and> script_fits s"
  by unfold_locales (auto simp: decodeCompressedTxOut_put amount_fits_def)

lemma putCompressedTxOut_nonempty: "0 < length (putCompressedTxOut parse a s)"
  using length_putVLQ(1) by (simp add: putCompressedTxOut_def)

lemma deserializeUtxoEntry_serialize:
  assumes lib: "pubkey_lib parse unc" and e: "storable e" "\<not> IsSpent e"
  shows "\<exists>s. serializeUtxoEntry parse e = Inr s \<and> s \<noteq> [] \<and> deserializeUtxoEntry parse unc s = Ret (row_of e)"
proof -
  define c where "c = (if IsCoinBase_entry e then push_bit 1 (scast (en_blockHeight e) :: u64) OR 0x01
    else push_bit 1 (scast (en_blockHeight e)))"
  define t where "t = putCompressedTxOut parse (en_amount e) (en_pkScript e)"
  have s: "serializeUtxoEntry parse e = Inr (putVLQ c @ t)"
    using e(2) by (simp add: serializeUtxoEntry_def utxoEntryHeaderCode_def c_def t_def Let_def)
  have d: "decodeCompressedTxOut parse unc t = Ret ((en_amount e, en_pkScript e), length t)"
    using txout_code.dec_enc_nil [of parse unc "(en_amount e, en_pkScript e)"] lib e(1) by (simp add: t_def storable_def)
  have f: "en_packedFlags (row_of e) = (if IsCoinBase_entry e then tfCoinBase else 0)"
  proof -
    have "en_packedFlags e AND tfCoinBase = (if IsCoinBase_entry e then tfCoinBase else 0)"
      by (rule bit_word_eqI) (auto simp: bit_and_iff bit_tf flag_bits intro: gr0I)
    then show ?thesis by (simp add: row_of_def)
  qed
  have t: "t \<noteq> []" using putCompressedTxOut_nonempty [of parse "en_amount e" "en_pkScript e"] by (simp add: t_def)
  have "deserializeUtxoEntry parse unc (putVLQ c @ t) = Ret (row_of e)"
    using header_code [of "IsCoinBase_entry e" "en_blockHeight e", folded c_def] f t
    by (simp add: deserializeUtxoEntry_def deserializeVLQ_putVLQ d row_of_def)
  then show ?thesis using s length_putVLQ(1) [of c] by auto
qed

lemma outpointKey_inj: "op_ok a \<Longrightarrow> op_ok b \<Longrightarrow> outpointKey a = outpointKey b \<longleftrightarrow> a = b"
proof -
  assume "op_ok a" "op_ok b"
  then have "outpointKey a = outpointKey b \<longleftrightarrow> op_Hash a = op_Hash b \<and> putVLQ (ucast (op_Index a)) = putVLQ (ucast (op_Index b))"
    by (auto simp: outpointKey_def op_ok_def is_hash_def)
  also have "putVLQ (ucast (op_Index a)) = putVLQ (ucast (op_Index b)) \<longleftrightarrow> (ucast (op_Index a) :: u64) = ucast (op_Index b)"
    using vlq.stored.enc_inj by blast
  also have "\<dots> \<longleftrightarrow> op_Index a = op_Index b"
    using unat_ucast_up [where 'a = 64 and 'b = 32] by (simp add: word_unat_eq_iff)
  finally show ?thesis by (cases a; cases b) auto
qed

lemma deserializeOutpointKey: "op_ok op \<Longrightarrow> deserializeOutpointKey (outpointKey op) = Inr op"
proof -
  assume "op_ok op"
  then have l: "length (op_Hash op) = 32" by (simp add: op_ok_def is_hash_def)
  have "ucast (ucast (op_Index op) :: u64) = op_Index op"
    by (rule ucast_ucast_small) (use unat_lt [of "op_Index op"] in simp)
  then show ?thesis using l length_putVLQ(1) [of "ucast (op_Index op)"] deserializeVLQ_putVLQ [of "ucast (op_Index op)" "[]"]
    by (simp add: deserializeOutpointKey_def outpointKey_def)
qed

text \<open>The stored set: what a fetch finds under each outpoint, when no row is corrupt.\<close>

definition rows_ok :: "(bytes \<Rightarrow> 'k option) \<Rightarrow> ('k \<Rightarrow> bytes) \<Rightarrow> chain_db \<Rightarrow> bool" where
  "rows_ok parse unc db \<longleftrightarrow> (\<forall>op. op_ok op \<longrightarrow> (\<exists>e. dbFetchUtxoEntry parse unc db op = Ret e))"

definition rows :: "(bytes \<Rightarrow> 'k option) \<Rightarrow> ('k \<Rightarrow> bytes) \<Rightarrow> chain_db \<Rightarrow> out_point \<rightharpoonup> utxo_entry" where
  "rows parse unc db op = (case dbFetchUtxoEntry parse unc db op of Ret e \<Rightarrow> e | _ \<Rightarrow> None)"

lemma rows_fetch: "rows_ok parse unc db \<Longrightarrow> op_ok op \<Longrightarrow> dbFetchUtxoEntry parse unc db op = Ret (rows parse unc db op)"
  by (auto simp: rows_ok_def rows_def)

lemma fetch_delete:
  "op_ok op \<Longrightarrow> op_ok op' \<Longrightarrow>
   dbFetchUtxoEntry parse unc (dbDeleteUtxoEntry op db) op' = (if op' = op then Ret None else dbFetchUtxoEntry parse unc db op')"
  by (simp add: dbFetchUtxoEntry_def dbDeleteUtxoEntry_def outpointKey_inj)

lemma fetch_put:
  assumes lib: "pubkey_lib parse unc" and e: "storable e" "\<not> IsSpent e"
  shows "\<exists>db'. dbPutUtxoEntry parse op (Some e) db = Inr db'
    \<and> (\<exists>u. db' = db\<lparr>cd_utxo := u\<rparr>)
    \<and> (op_ok op \<longrightarrow> (\<forall>op'. op_ok op' \<longrightarrow>
         dbFetchUtxoEntry parse unc db' op' = (if op' = op then Ret (Some (row_of e)) else dbFetchUtxoEntry parse unc db op')))"
proof -
  obtain s where s: "serializeUtxoEntry parse e = Inr s" "s \<noteq> []" "deserializeUtxoEntry parse unc s = Ret (row_of e)"
    using deserializeUtxoEntry_serialize [OF assms] by blast
  show ?thesis using s e by (auto simp: dbPutUtxoEntry_def dbFetchUtxoEntry_def outpointKey_inj)
qed

section \<open>The spend journal\<close>

interpretation stxo_code: sized_code "putSpentTxOut parse" "decodeSpentTxOut parse unc" "\<lambda>s. pubkey_lib parse unc \<and> stxo_ok s"
proof
  fix s :: spent_tx_out and r :: bytes
  assume a: "pubkey_lib parse unc \<and> stxo_ok s"
  define c where "c = spentTxOutHeaderCode s"
  define t where "t = putCompressedTxOut parse (sto_Amount s) (sto_PkScript s)"
  have hc: "c AND 0x01 \<noteq> 0 \<longleftrightarrow> sto_IsCoinBase s" "ucast (drop_bit 1 c) = sto_Height s"
    unfolding c_def spentTxOutHeaderCode_def Let_def by (rule header_code)+
  have d: "decodeCompressedTxOut parse unc (t @ r) = Ret ((sto_Amount s, sto_PkScript s), length t)"
    using txout_code.dec_enc [of parse unc "(sto_Amount s, sto_PkScript s)" r] a by (simp add: t_def stxo_ok_def)
  have t: "t \<noteq> []" using putCompressedTxOut_nonempty [of parse "sto_Amount s" "sto_PkScript s"] by (simp add: t_def)
  have n: "putVLQ c \<noteq> []" using length_putVLQ(1) [of c] by simp
  show "decodeSpentTxOut parse unc (putSpentTxOut parse s @ r) = Ret (s, length (putSpentTxOut parse s))"
    using t n hc d
    by (simp add: decodeSpentTxOut_def putSpentTxOut_def c_def [symmetric] t_def [symmetric] deserializeVLQ_putVLQ Let_def)
qed

lemma read_stxos:
  "pubkey_lib parse unc \<Longrightarrow> list_all stxo_ok ss \<Longrightarrow> length ins = length ss \<Longrightarrow>
   read_stxos parse unc ins (concat (map (putSpentTxOut parse) ss) @ r) = Ret ss"
proof (induction ss arbitrary: ins)
  case (Cons s ss)
  then obtain i js where i: "ins = i # js" "length js = length ss" by (cases ins) auto
  show ?case using Cons i stxo_code.dec_enc [of parse unc s] by simp
qed simp

lemma journal_roundtrip:
  assumes "pubkey_lib parse unc" "list_all stxo_ok ss" "length (concat (map tx_TxIn txns)) = length ss"
  shows "deserializeSpendJournalEntry parse unc (serializeSpendJournalEntry parse ss) txns = Ret ss"
proof (cases "ss = []")
  case False
  then obtain s rest where "rev ss = s # rest" by (metis neq_Nil_conv rev_is_Nil_conv)
  then have "serializeSpendJournalEntry parse ss \<noteq> []"
    using length_putVLQ(1) by (auto simp: serializeSpendJournalEntry_def putSpentTxOut_def)
  then show ?thesis
    using read_stxos [of parse unc "rev ss" "rev (concat (map tx_TxIn txns))" "[]"] assms
    by (simp add: deserializeSpendJournalEntry_def serializeSpendJournalEntry_def Let_def)
qed (use assms in \<open>simp add: deserializeSpendJournalEntry_def serializeSpendJournalEntry_def\<close>)

end
