(* ===== verification/Utxo_Cache.thy ===== *)
theory Utxo_Cache
  imports Chain_Db
begin

text \<open>
  The cache of unspent outputs, \<open>blockchain/utxocache.go\<close>, over the rows of \<open>Chain_Db\<close>. An operation takes the
  cache and returns it with its outcome, because the code changes it in place also on the way to an error.
  Two computations of \<open>sizehelper.go\<close> are parameters: \<open>room\<close>, the number of entries a new map is made for, and
  \<open>mapSize\<close>, the estimated size of a map made for a number of entries.
\<close>

section \<open>State\<close>

record utxo_delta =
  ud_op :: out_point
  ud_tombstone :: bool
  ud_entry :: "utxo_entry option"

text \<open>\<open>dirtyOps\<close> is a set; the list is in the arbitrary order of iterating over it.\<close>

record utxoCache =
  uc_maxTotalMemoryUsage :: u64
  uc_cachedEntries :: mapSlice
  uc_totalEntryMemory :: u64
  uc_dirtyOps :: "out_point list"
  uc_trackDeltas :: bool
  uc_deltaPoints :: "utxo_delta list"
  uc_hotFloor :: i32
  uc_lastFlushHash :: hash
  uc_lastFlushTime :: int

definition newUtxoCache :: "(u64 \<Rightarrow> int) \<Rightarrow> u64 \<Rightarrow> utxoCache" where
  "newUtxoCache minEntries maxTotalMemoryUsage =
    \<lparr>uc_maxTotalMemoryUsage = maxTotalMemoryUsage,
     uc_cachedEntries = \<lparr>ms_maps = [[]], ms_maxEntries = [minEntries maxTotalMemoryUsage - 1],
       ms_maxTotalMemoryUsage = maxTotalMemoryUsage\<rparr>,
     uc_totalEntryMemory = 0, uc_dirtyOps = [], uc_trackDeltas = False, uc_deltaPoints = [], uc_hotFloor = 0,
     uc_lastFlushHash = zero_hash, uc_lastFlushTime = 0\<rparr>"

type_synonym 'a cache_op = "utxoCache \<Rightarrow> utxoCache \<times> (chain_error, 'a) outcome"

definition cbind :: "'a cache_op \<Rightarrow> ('a \<Rightarrow> 'b cache_op) \<Rightarrow> 'b cache_op" where
  "cbind m f c = (case m c of (c', Panic) \<Rightarrow> (c', Panic) | (c', Fail e) \<Rightarrow> (c', Fail e) | (c', Ret x) \<Rightarrow> f x c')"

text \<open>What the operations are parameterised over: the key library, the map sizes and the stored rows.\<close>

record 'k cache_env =
  env_parse :: "bytes \<Rightarrow> 'k option"
  env_unc :: "'k \<Rightarrow> bytes"
  env_room :: "mapSlice \<Rightarrow> u64 \<Rightarrow> int"
  env_mapSize :: "int \<Rightarrow> u64"
  env_txHash :: "msg_tx \<Rightarrow> hash"

definition totalMemoryUsage :: "'k cache_env \<Rightarrow> utxoCache \<Rightarrow> u64" where
  "totalMemoryUsage E s = sum_list (map (env_mapSize E) (ms_maxEntries (uc_cachedEntries s))) + uc_totalEntryMemory s"

section \<open>Reading\<close>

fun db_fetch_all :: "'k cache_env \<Rightarrow> chain_db \<Rightarrow> out_point list \<Rightarrow> (chain_error, utxo_entry option list) outcome" where
  "db_fetch_all E db [] = Ret []"
| "db_fetch_all E db (op # ops) =
    obind (dbFetchUtxoEntry (env_parse E) (env_unc E) db op) (\<lambda>e. obind (db_fetch_all E db ops) (\<lambda>es. Ret (e # es)))"

fun cache_fetched :: "'k cache_env \<Rightarrow> (out_point \<times> utxo_entry option) list \<Rightarrow> utxoCache \<Rightarrow> utxoCache" where
  "cache_fetched E [] s = s"
| "cache_fetched E ((op, e) # r) s =
    cache_fetched E r
      (s\<lparr>uc_cachedEntries := ms_put (env_room E) op e (uc_totalEntryMemory s) (uc_cachedEntries s),
         uc_totalEntryMemory := uc_totalEntryMemory s + memoryUsage e\<rparr>)"

text \<open>The result lists: the cached entry where there is one, else the next of the fetched ones.\<close>

fun fill_in :: "utxo_entry option option list \<Rightarrow> utxo_entry option list \<Rightarrow> utxo_entry option list" where
  "fill_in [] fs = []"
| "fill_in (Some e # cs) fs = e # fill_in cs fs"
| "fill_in (None # cs) (f # fs) = f # fill_in cs fs"
| "fill_in (None # cs) [] = None # fill_in cs []"

definition fetchEntries :: "'k cache_env \<Rightarrow> chain_db \<Rightarrow> out_point list \<Rightarrow> utxo_entry option list cache_op" where
  "fetchEntries E db outpoints s =
    (let found = map (ms_get (uc_cachedEntries s)) outpoints;
       missingOps = map fst (filter (\<lambda>(op, f). f = None) (zip outpoints found)) in
     if missingOps = [] then (s, Ret (fill_in found []))
     else case db_fetch_all E db missingOps of
       Panic \<Rightarrow> (s, Panic)
     | Fail e \<Rightarrow> (s, Fail e)
     | Ret dbEntries \<Rightarrow> (cache_fetched E (zip missingOps dbEntries) s, Ret (fill_in found dbEntries)))"

definition prefetchInputs :: "'k cache_env \<Rightarrow> chain_db \<Rightarrow> msg_block \<Rightarrow> utxoCache \<Rightarrow> utxoCache" where
  "prefetchInputs E db block s =
    (let needed = fold (\<lambda>tx needed. if IsCoinBaseTx tx then needed else
           fold (\<lambda>txIn needed. if in_PreviousOutPoint txIn \<in> set needed then needed else needed @ [in_PreviousOutPoint txIn])
             (tx_TxIn tx) needed) (mb_Transactions block) [] in
     if needed = [] then s else fst (fetchEntries E db needed s))"

section \<open>Connecting\<close>

definition add_delta :: "utxo_delta \<Rightarrow> utxoCache \<Rightarrow> utxoCache" where
  "add_delta d s = (if uc_trackDeltas s then s\<lparr>uc_deltaPoints := uc_deltaPoints s @ [d]\<rparr> else s)"

definition addTxOut :: "'k cache_env \<Rightarrow> out_point \<Rightarrow> tx_out \<Rightarrow> bool \<Rightarrow> i32 \<Rightarrow> utxoCache \<Rightarrow> utxoCache" where
  "addTxOut E outpoint txOut isCoinBase blockHeight s =
    (if IsUnspendable (out_PkScript txOut) then s
     else
       let entry = fresh_entry txOut isCoinBase blockHeight in
       add_delta \<lparr>ud_op = outpoint, ud_tombstone = False, ud_entry = None\<rparr>
         (s\<lparr>uc_cachedEntries := ms_put (env_room E) outpoint (Some entry) (uc_totalEntryMemory s) (uc_cachedEntries s),
            uc_totalEntryMemory := uc_totalEntryMemory s + memoryUsage (Some entry),
            uc_dirtyOps := List.insert outpoint (uc_dirtyOps s)\<rparr>))"

definition addTxOuts :: "'k cache_env \<Rightarrow> msg_tx \<Rightarrow> i32 \<Rightarrow> utxoCache \<Rightarrow> utxoCache" where
  "addTxOuts E tx blockHeight s =
    fold (\<lambda>(i, txOut). addTxOut E \<lparr>op_Hash = env_txHash E tx, op_Index = word_of_nat i\<rparr> txOut (IsCoinBaseTx tx) blockHeight)
      (enumerate 0 (tx_TxOut tx)) s"

text \<open>The list of spent outputs that the caller collects is \<^term>\<open>None\<close> when it asks for none.\<close>

definition addTxIn ::
  "'k cache_env \<Rightarrow> chain_db \<Rightarrow> tx_in \<Rightarrow> spent_tx_out list option \<Rightarrow> spent_tx_out list option cache_op" where
  "addTxIn E db txIn stxos = (let op = in_PreviousOutPoint txIn in
    cbind (fetchEntries E db [op]) (\<lambda>entries s.
      case entries of
        [Some entry] \<Rightarrow>
          (let stxos' = map_option (\<lambda>l. l @ [stxo_of entry]) stxos;
             spent = Spend entry;
             s = s\<lparr>uc_cachedEntries := ms_modify op spent (uc_cachedEntries s)\<rparr>;
             s = add_delta \<lparr>ud_op = op, ud_tombstone = True, ud_entry = None\<rparr> s;
             s = (if isFresh spent then
                s\<lparr>uc_cachedEntries := ms_delete op (uc_cachedEntries s),
                  uc_totalEntryMemory := uc_totalEntryMemory s - memoryUsage (Some spent),
                  uc_dirtyOps := removeAll op (uc_dirtyOps s)\<rparr>
              else s\<lparr>uc_dirtyOps := List.insert op (uc_dirtyOps s)\<rparr>)
           in (s, Ret stxos'))
      | _ \<Rightarrow> (s, Fail AssertError)))"

fun addTxIns_loop ::
  "'k cache_env \<Rightarrow> chain_db \<Rightarrow> tx_in list \<Rightarrow> spent_tx_out list option \<Rightarrow> spent_tx_out list option cache_op" where
  "addTxIns_loop E db [] stxos s = (s, Ret stxos)"
| "addTxIns_loop E db (txIn # ins) stxos s = cbind (addTxIn E db txIn stxos) (addTxIns_loop E db ins) s"

definition addTxIns :: "'k cache_env \<Rightarrow> chain_db \<Rightarrow> msg_tx \<Rightarrow> spent_tx_out list option \<Rightarrow> spent_tx_out list option cache_op" where
  "addTxIns E db tx stxos s = (if IsCoinBaseTx tx then (s, Ret stxos) else addTxIns_loop E db (tx_TxIn tx) stxos s)"

definition connectTransaction ::
  "'k cache_env \<Rightarrow> chain_db \<Rightarrow> msg_tx \<Rightarrow> i32 \<Rightarrow> spent_tx_out list option \<Rightarrow> spent_tx_out list option cache_op" where
  "connectTransaction E db tx blockHeight stxos =
    cbind (addTxIns E db tx stxos) (\<lambda>stxos s. (addTxOuts E tx blockHeight s, Ret stxos))"

fun connectTransactions ::
  "'k cache_env \<Rightarrow> chain_db \<Rightarrow> msg_tx list \<Rightarrow> i32 \<Rightarrow> spent_tx_out list option \<Rightarrow> spent_tx_out list option cache_op" where
  "connectTransactions E db [] blockHeight stxos s = (s, Ret stxos)"
| "connectTransactions E db (tx # txs) blockHeight stxos s =
    cbind (connectTransaction E db tx blockHeight stxos) (connectTransactions E db txs blockHeight) s"

section \<open>Deltas\<close>

definition take_one :: "utxo_delta \<Rightarrow> utxoCache \<Rightarrow> utxo_delta \<times> utxoCache" where
  "take_one d s =
    (let op = ud_op d; tomb = \<lparr>ud_op = op, ud_tombstone = True, ud_entry = None\<rparr> in
     if ud_tombstone d then
       (tomb,
        case ms_get (uc_cachedEntries s) op of
          None \<Rightarrow> s
        | Some entry \<Rightarrow> s\<lparr>uc_cachedEntries := ms_delete op (uc_cachedEntries s),
            uc_totalEntryMemory := uc_totalEntryMemory s - memoryUsage entry\<rparr>)
     else
       (case ms_get (uc_cachedEntries s) op of
          Some (Some entry) \<Rightarrow> \<lparr>ud_op = op, ud_tombstone = False, ud_entry = Some entry\<rparr>
        | _ \<Rightarrow> tomb, s))"

fun take_loop :: "utxo_delta list \<Rightarrow> utxoCache \<Rightarrow> utxo_delta list \<times> utxoCache" where
  "take_loop [] s = ([], s)"
| "take_loop (d # ds) s = (case take_one d s of (d', s') \<Rightarrow> case take_loop ds s' of (r, s'') \<Rightarrow> (d' # r, s''))"

definition takeDelta :: "utxoCache \<Rightarrow> utxo_delta list \<times> utxoCache" where
  "takeDelta s =
    (if \<not> uc_trackDeltas s then ([], s)
     else if uc_deltaPoints s = [] then ([], s\<lparr>uc_dirtyOps := []\<rparr>)
     else case take_loop (uc_deltaPoints s) s of (deltas, s') \<Rightarrow> (deltas, s'\<lparr>uc_deltaPoints := [], uc_dirtyOps := []\<rparr>))"

definition resetDelta :: "utxoCache \<Rightarrow> utxoCache" where
  "resetDelta s = s\<lparr>uc_deltaPoints := []\<rparr>"

section \<open>Flushing\<close>

text \<open>
  The full flush of one map: every entry is written or deleted, and those at or above the hot floor stay in
  the map, with their flags cleared when they were written. The result is the map that is left.
\<close>

fun flush_map :: "'k cache_env \<Rightarrow> i32 \<Rightarrow> entry_map \<Rightarrow> chain_db \<Rightarrow> chain_error + entry_map \<times> chain_db" where
  "flush_map E hotFloor [] db = Inr ([], db)"
| "flush_map E hotFloor ((outpoint, entry) # m) db =
    (case (case entry of
         None \<Rightarrow> Inr (entry, dbDeleteUtxoEntry outpoint db)
       | Some e \<Rightarrow>
          if IsSpent e then Inr (entry, dbDeleteUtxoEntry outpoint db)
          else if \<not> isModified e then Inr (entry, db)
          else case dbPutUtxoEntry (env_parse E) outpoint entry db of
            Inl err \<Rightarrow> Inl err
          | Inr db' \<Rightarrow> Inr (Some (clearModified e), db')) of
       Inl err \<Rightarrow> Inl err
     | Inr (entry', db') \<Rightarrow>
        (case flush_map E hotFloor m db' of
           Inl err \<Rightarrow> Inl err
         | Inr (m', db'') \<Rightarrow>
            Inr (case entry' of
                None \<Rightarrow> m'
              | Some e \<Rightarrow> if \<not> IsSpent e \<and> hotFloor \<le>s en_blockHeight e then (outpoint, entry') # m' else m', db'')))"

fun flush_maps :: "'k cache_env \<Rightarrow> i32 \<Rightarrow> entry_map list \<Rightarrow> chain_db \<Rightarrow> chain_error + entry_map list \<times> chain_db" where
  "flush_maps E hotFloor [] db = Inr ([], db)"
| "flush_maps E hotFloor (m # ms) db =
    (case flush_map E hotFloor m db of
       Inl err \<Rightarrow> Inl err
     | Inr (m', db') \<Rightarrow>
        (case flush_maps E hotFloor ms db' of Inl err \<Rightarrow> Inl err | Inr (ms', db'') \<Rightarrow> Inr (m' # ms', db'')))"

definition reinsert_hot :: "'k cache_env \<Rightarrow> out_point \<Rightarrow> utxoCache \<Rightarrow> utxoCache" where
  "reinsert_hot E op s =
    (let entry = (case ms_get (uc_cachedEntries s) op of Some e \<Rightarrow> e | None \<Rightarrow> None) in
     s\<lparr>uc_cachedEntries := ms_put (env_room E) op entry (uc_totalEntryMemory s) (uc_cachedEntries s),
       uc_totalEntryMemory := uc_totalEntryMemory s + memoryUsage entry\<rparr>)"

definition write_full :: "'k cache_env \<Rightarrow> utxoCache \<Rightarrow> chain_db \<Rightarrow> chain_error + utxoCache \<times> chain_db" where
  "write_full E s db =
    (case flush_maps E (uc_hotFloor s) (ms_maps (uc_cachedEntries s)) db of
       Inl err \<Rightarrow> Inl err
     | Inr (maps, db') \<Rightarrow>
        Inr (fold (reinsert_hot E) (map fst (concat maps))
               (s\<lparr>uc_cachedEntries := deleteMaps ((uc_cachedEntries s)\<lparr>ms_maps := maps\<rparr>), uc_totalEntryMemory := 0,
                  uc_dirtyOps := []\<rparr>), db'))"

fun write_dirty :: "'k cache_env \<Rightarrow> out_point list \<Rightarrow> utxoCache \<Rightarrow> chain_db \<Rightarrow> chain_error + utxoCache \<times> chain_db" where
  "write_dirty E [] s db = Inr (s, db)"
| "write_dirty E (outpoint # ops) s db =
    (case ms_get (uc_cachedEntries s) outpoint of
       None \<Rightarrow> write_dirty E ops s db
     | Some None \<Rightarrow>
        write_dirty E ops (s\<lparr>uc_cachedEntries := ms_delete outpoint (uc_cachedEntries s)\<rparr>) (dbDeleteUtxoEntry outpoint db)
     | Some (Some e) \<Rightarrow>
        if IsSpent e then
          write_dirty E ops
            (s\<lparr>uc_cachedEntries := ms_delete outpoint (uc_cachedEntries s),
               uc_totalEntryMemory := uc_totalEntryMemory s - memoryUsage (Some e)\<rparr>) (dbDeleteUtxoEntry outpoint db)
        else if \<not> isModified e then write_dirty E ops s db
        else case dbPutUtxoEntry (env_parse E) outpoint (Some e) db of
          Inl err \<Rightarrow> Inl err
        | Inr db' \<Rightarrow>
            write_dirty E ops (s\<lparr>uc_cachedEntries := ms_modify outpoint (clearModified e) (uc_cachedEntries s)\<rparr>) db')"

definition bytes_of :: "string \<Rightarrow> bytes" where
  "bytes_of cs = map (word_of_nat \<circ> of_char) cs"

definition utxoStateConsistencyKeyName :: bytes where
  "utxoStateConsistencyKeyName = bytes_of ''utxostateconsistency''"

definition dbPutUtxoStateConsistency :: "hash \<Rightarrow> chain_db \<Rightarrow> chain_db" where
  "dbPutUtxoStateConsistency h db = db\<lparr>cd_meta := RBT.insert utxoStateConsistencyKeyName h (cd_meta db)\<rparr>"

definition dbFetchUtxoStateConsistency :: "chain_db \<Rightarrow> bytes option" where
  "dbFetchUtxoStateConsistency db = RBT.lookup (cd_meta db) utxoStateConsistencyKeyName"

definition writeCache ::
  "'k cache_env \<Rightarrow> int \<Rightarrow> hash \<Rightarrow> bool \<Rightarrow> utxoCache \<Rightarrow> chain_db \<Rightarrow> chain_error + utxoCache \<times> chain_db" where
  "writeCache E now bestHash cleanCache s db =
    (case (if cleanCache then write_full E s db
           else map_sum id (\<lambda>(s', db'). (s'\<lparr>uc_dirtyOps := []\<rparr>, db')) (write_dirty E (uc_dirtyOps s) s db)) of
       Inl err \<Rightarrow> Inl err
     | Inr (s', db') \<Rightarrow> Inr (s'\<lparr>uc_lastFlushHash := bestHash, uc_lastFlushTime := now\<rparr>, dbPutUtxoStateConsistency bestHash db'))"

datatype FlushMode = FlushRequired | FlushPeriodic | FlushIfNeeded

definition utxoFlushPeriodicInterval :: int where
  "utxoFlushPeriodicInterval = 5 * 60 * 10 ^ 9"

definition flush_utxo ::
  "'k cache_env \<Rightarrow> int \<Rightarrow> FlushMode \<Rightarrow> hash \<Rightarrow> utxoCache \<Rightarrow> chain_db \<Rightarrow> chain_error + utxoCache \<times> chain_db" where
  "flush_utxo E now mode bestHash s db =
    (if mode = FlushIfNeeded \<and> bestHash = uc_lastFlushHash s then Inr (s, db)
     else
       let threshold = (case mode of
             FlushRequired \<Rightarrow> 0
           | FlushIfNeeded \<Rightarrow> uc_maxTotalMemoryUsage s
           | FlushPeriodic \<Rightarrow> if now - uc_lastFlushTime s > utxoFlushPeriodicInterval then 0 else uc_maxTotalMemoryUsage s);
         totalUsage = totalMemoryUsage E s;
         cleanCache = (mode = FlushRequired \<or> totalUsage \<ge> uc_maxTotalMemoryUsage s)
       in if totalUsage \<ge> threshold then writeCache E now bestHash cleanCache s db else Inr (s, db))"

section \<open>The set of coins that the cache stands for\<close>

abbreviation (input) stored :: "'k cache_env \<Rightarrow> chain_db \<Rightarrow> out_point \<rightharpoonup> utxo_entry" where
  "stored E db \<equiv> rows (env_parse E) (env_unc E) db"

abbreviation (input) cached :: "utxoCache \<Rightarrow> out_point \<Rightarrow> utxo_entry option option" where
  "cached s \<equiv> ms_get (uc_cachedEntries s)"

definition coins :: "'k cache_env \<Rightarrow> chain_db \<Rightarrow> utxoCache \<Rightarrow> out_point \<rightharpoonup> utxo_entry" where
  "coins E db s op =
    (if \<not> op_ok op then None
     else case cached s op of
       None \<Rightarrow> stored E db op
     | Some None \<Rightarrow> None
     | Some (Some e) \<Rightarrow> if IsSpent e then None else Some (row_of e))"

text \<open>
  The invariant of the cache over the stored rows. A clean entry agrees with its row; a fresh one has no row;
  a nil one has no row; a modified one that is not spent can be written.
\<close>

definition entry_ok :: "utxo_entry option \<Rightarrow> utxo_entry \<Rightarrow> bool" where
  "entry_ok r e \<longleftrightarrow>
    (isModified e \<and> \<not> IsSpent e \<longrightarrow> storable e)
    \<and> (\<not> isModified e \<longrightarrow> \<not> IsSpent e \<and> r = Some (row_of e))
    \<and> (isFresh e \<longrightarrow> r = None \<and> isModified e \<and> \<not> IsSpent e)"

definition cache_ok :: "'k cache_env \<Rightarrow> chain_db \<Rightarrow> utxoCache \<Rightarrow> bool" where
  "cache_ok E db s \<longleftrightarrow>
    ms_ok (uc_cachedEntries s) \<and> rows_ok (env_parse E) (env_unc E) db
    \<and> (\<forall>op e. cached s op = Some (Some e) \<longrightarrow> op_ok op \<and> entry_ok (stored E db op) e)
    \<and> (\<forall>op. cached s op = Some None \<longrightarrow> op_ok op \<and> stored E db op = None)"

definition tracked :: "utxoCache \<Rightarrow> bool" where
  "tracked s \<longleftrightarrow> (\<forall>op e. cached s op = Some (Some e) \<longrightarrow> isModified e \<longrightarrow> op \<in> set (uc_dirtyOps s))"

definition env_ok :: "'k cache_env \<Rightarrow> bool" where
  "env_ok E \<longleftrightarrow> pubkey_lib (env_parse E) (env_unc E) \<and> (\<forall>tx. is_hash (env_txHash E tx))"

lemma flags_coinbase: "en_packedFlags e = tfCoinBase \<or> en_packedFlags e = 0 \<Longrightarrow>
    row_of e = e \<and> \<not> isModified e \<and> \<not> IsSpent e \<and> \<not> isFresh e"
  by (auto simp: row_of_def flag_bits bit_tf)

lemma stored_row:
  "rows parse unc db op = Some e \<Longrightarrow> row_of e = e \<and> \<not> isModified e \<and> \<not> IsSpent e \<and> \<not> isFresh e"
  by (rule flags_coinbase)
    (auto simp: rows_def dbFetchUtxoEntry_def deserializeUtxoEntry_def split: option.splits outcome.splits if_splits prod.splits)

lemma stored_entry_ok: "rows parse unc db op = Some e \<Longrightarrow> entry_ok (rows parse unc db op) e"
  using stored_row [of parse unc db op e] by (simp add: entry_ok_def)

lemma row_of_row_of [simp]: "row_of (row_of e) = row_of e"
  by (simp add: row_of_def and.assoc)

lemma stxo_of_row_of [simp]: "stxo_of (row_of e) = stxo_of e"
  by (simp add: stxo_of_def)

lemma row_of_clearModified [simp]: "row_of (clearModified e) = row_of e"
proof -
  have "(en_packedFlags e AND NOT (tfModified OR tfFresh)) AND tfCoinBase = en_packedFlags e AND tfCoinBase"
    by (rule bit_word_eqI) (auto simp: bit_and_iff bit_or_iff bit_not_iff bit_tf)
  then show ?thesis by (simp add: row_of_def clearModified_def)
qed

lemma coins_row_of: "coins E db s op = Some r \<Longrightarrow> row_of r = r"
  using stored_row [of "env_parse E" "env_unc E" db op r]
  by (auto simp: coins_def split: if_splits option.splits)

section \<open>Reading\<close>

lemma fetch_one:
  assumes ok: "cache_ok E db s" and op: "op_ok op"
  obtains s' where "fetchEntries E db [op] s = (s', Ret [the (cached s' op)])"
    "cached s' = (cached s)(op \<mapsto> case cached s op of Some e \<Rightarrow> e | None \<Rightarrow> stored E db op)"
    "ms_ok (uc_cachedEntries s')" "uc_dirtyOps s' = uc_dirtyOps s"
    "uc_trackDeltas s' = uc_trackDeltas s" "uc_deltaPoints s' = uc_deltaPoints s"
proof (cases "cached s op")
  case (Some e)
  have "ms_ok (uc_cachedEntries s)" using ok by (simp add: cache_ok_def)
  then show ?thesis using Some by (intro that [of s]) (auto simp: fetchEntries_def fun_upd_idem)
next
  case None
  define s' where "s' = s\<lparr>uc_cachedEntries := ms_put (env_room E) op (stored E db op) (uc_totalEntryMemory s) (uc_cachedEntries s),
      uc_totalEntryMemory := uc_totalEntryMemory s + memoryUsage (stored E db op)\<rparr>"
  have m: "ms_ok (uc_cachedEntries s)" and r: "rows_ok (env_parse E) (env_unc E) db" using ok by (simp_all add: cache_ok_def)
  have g: "cached s' = (cached s)(op \<mapsto> stored E db op)" using entries.get_put [OF m] by (simp add: s'_def)
  have "fetchEntries E db [op] s = (s', Ret [stored E db op])"
    using None rows_fetch [OF r op] by (simp add: fetchEntries_def s'_def)
  then show ?thesis using g None entries.put_ok [OF m] by (intro that [of s']) (auto simp: s'_def)
qed

lemma cache_ok_fetched:
  assumes "cache_ok E db s" "op_ok op" "ms_ok (uc_cachedEntries s')"
    "cached s' = (cached s)(op \<mapsto> case cached s op of Some e \<Rightarrow> e | None \<Rightarrow> stored E db op)"
  shows "cache_ok E db s'" "coins E db s' = coins E db s"
proof -
  show "cache_ok E db s'"
    using assms stored_entry_ok [of "env_parse E" "env_unc E" db]
    by (auto simp: cache_ok_def split: option.splits if_splits)
  show "coins E db s' = coins E db s"
    using assms stored_row [of "env_parse E" "env_unc E" db]
    by (auto simp: coins_def fun_eq_iff split: option.splits if_splits)
qed

section \<open>Connecting blocks refines spending and adding coins\<close>

text \<open>The specification: inputs take coins out of the set, outputs that can be spent put coins in.\<close>

fun spend_coins :: "tx_in list \<Rightarrow> (out_point \<rightharpoonup> utxo_entry) \<Rightarrow> ((out_point \<rightharpoonup> utxo_entry) \<times> spent_tx_out list) option" where
  "spend_coins [] C = Some (C, [])"
| "spend_coins (txIn # ins) C =
    (case C (in_PreviousOutPoint txIn) of
       None \<Rightarrow> None
     | Some e \<Rightarrow>
        (case spend_coins ins (C(in_PreviousOutPoint txIn := None)) of
           None \<Rightarrow> None | Some (C', ss) \<Rightarrow> Some (C', stxo_of e # ss)))"

definition out_op :: "'k cache_env \<Rightarrow> msg_tx \<Rightarrow> nat \<Rightarrow> out_point" where
  "out_op E tx i = \<lparr>op_Hash = env_txHash E tx, op_Index = word_of_nat i\<rparr>"

definition add_coins :: "'k cache_env \<Rightarrow> msg_tx \<Rightarrow> i32 \<Rightarrow> (out_point \<rightharpoonup> utxo_entry) \<Rightarrow> out_point \<rightharpoonup> utxo_entry" where
  "add_coins E tx h C =
    fold (\<lambda>(i, out) C. if IsUnspendable (out_PkScript out) then C
        else C(out_op E tx i \<mapsto> row_of (fresh_entry out (IsCoinBaseTx tx) h))) (enumerate 0 (tx_TxOut tx)) C"

fun connect_coins ::
  "'k cache_env \<Rightarrow> i32 \<Rightarrow> msg_tx list \<Rightarrow> (out_point \<rightharpoonup> utxo_entry) \<Rightarrow> ((out_point \<rightharpoonup> utxo_entry) \<times> spent_tx_out list) option" where
  "connect_coins E h [] C = Some (C, [])"
| "connect_coins E h (tx # txs) C =
    (case (if IsCoinBaseTx tx then Some (C, []) else spend_coins (tx_TxIn tx) C) of
       None \<Rightarrow> None
     | Some (C', ss) \<Rightarrow>
        (case connect_coins E h txs (add_coins E tx h C') of None \<Rightarrow> None | Some (C'', ss') \<Rightarrow> Some (C'', ss @ ss')))"

text \<open>
  Blocks whose outputs are new to the database: no row exists under their outpoints, and their amounts and
  scripts can be stored. Checking a block before it is connected establishes this.
\<close>

definition out_ok :: "'k cache_env \<Rightarrow> chain_db \<Rightarrow> msg_tx \<Rightarrow> bool" where
  "out_ok E db tx \<longleftrightarrow>
    list_all (\<lambda>(i, out). stored E db (out_op E tx i) = None \<and> amount_fits (out_Value out) \<and> script_fits (out_PkScript out))
      (enumerate 0 (tx_TxOut tx))"

lemma add_delta_simps [simp]:
  "uc_cachedEntries (add_delta d s) = uc_cachedEntries s" "uc_dirtyOps (add_delta d s) = uc_dirtyOps s"
  "uc_trackDeltas (add_delta d s) = uc_trackDeltas s" "uc_totalEntryMemory (add_delta d s) = uc_totalEntryMemory s"
  by (simp_all add: add_delta_def)

lemma addTxIn_refines:
  assumes ok: "cache_ok E db s" and c: "coins E db s (in_PreviousOutPoint txIn) = Some r"
  obtains s' where "addTxIn E db txIn st s = (s', Ret (map_option (\<lambda>l. l @ [stxo_of r]) st))"
    "cache_ok E db s'" "coins E db s' = (coins E db s)(in_PreviousOutPoint txIn := None)" "tracked s \<Longrightarrow> tracked s'"
    "uc_trackDeltas s' = uc_trackDeltas s"
    "uc_deltaPoints s' = uc_deltaPoints s @
      (if uc_trackDeltas s then [\<lparr>ud_op = in_PreviousOutPoint txIn, ud_tombstone = True, ud_entry = None\<rparr>] else [])"
proof -
  define op where "op = in_PreviousOutPoint txIn"
  have op: "op_ok op" using c by (auto simp: coins_def op_def split: if_splits)
  obtain s1 where f: "fetchEntries E db [op] s = (s1, Ret [the (cached s1 op)])"
    and g: "cached s1 = (cached s)(op \<mapsto> case cached s op of Some e \<Rightarrow> e | None \<Rightarrow> stored E db op)"
    and m: "ms_ok (uc_cachedEntries s1)" and d: "uc_dirtyOps s1 = uc_dirtyOps s"
    and dt: "uc_trackDeltas s1 = uc_trackDeltas s" "uc_deltaPoints s1 = uc_deltaPoints s"
    using fetch_one [OF ok op] by metis
  note ok1 = cache_ok_fetched [OF ok op m g]
  have "coins E db s1 op = Some r" using ok1(2) c by (simp add: op_def)
  then obtain e where e: "cached s1 op = Some (Some e)" "\<not> IsSpent e" "r = row_of e"
    using g op by (auto simp: coins_def split: option.splits if_splits)
  have eo: "entry_ok (stored E db op) e" using ok1(1) e(1) by (auto simp: cache_ok_def)
  define ms2 where "ms2 = ms_modify op (Spend e) (uc_cachedEntries s1)"
  have m2: "ms_ok ms2" unfolding ms2_def by (rule entries.modify_ok [OF m])
  have g2: "ms_get ms2 = (cached s1)(op \<mapsto> Some (Spend e))"
    unfolding ms2_def by (rule entries.get_modify [OF m]) (simp add: e(1))
  define s2 where "s2 = add_delta \<lparr>ud_op = op, ud_tombstone = True, ud_entry = None\<rparr> (s1\<lparr>uc_cachedEntries := ms2\<rparr>)"
  define s3 where "s3 = (if isFresh e then
      s2\<lparr>uc_cachedEntries := ms_delete op (uc_cachedEntries s2), uc_totalEntryMemory := uc_totalEntryMemory s2 - memoryUsage (Some (Spend e)),
         uc_dirtyOps := removeAll op (uc_dirtyOps s2)\<rparr> else s2\<lparr>uc_dirtyOps := List.insert op (uc_dirtyOps s2)\<rparr>)"
  have c3: "ms_ok (uc_cachedEntries s3)" "cached s3 = (cached s1)(op := if isFresh e then None else Some (Some (Spend e)))"
    using entries.del_ok [OF m2] entries.get_del [OF m2] m2 g2 by (auto simp: s3_def s2_def)
  have run: "addTxIn E db txIn st s = (s3, Ret (map_option (\<lambda>l. l @ [stxo_of r]) st))"
    using f e by (simp add: addTxIn_def cbind_def op_def [symmetric] ms2_def [symmetric] s2_def [symmetric] s3_def Let_def)
  have ok3: "cache_ok E db s3"
    using ok1(1) c3 op Spend_modified [OF e(2)] by (auto simp: cache_ok_def entry_ok_def split: if_splits)
  have "coins E db s3 = (coins E db s1)(op := None)"
    using c3(2) eo by (auto simp: coins_def fun_eq_iff entry_ok_def split: if_splits)
  moreover have "tracked s3" if "tracked s"
    using that c3(2) g d ok stored_row [of "env_parse E" "env_unc E" db op]
    by (auto simp: tracked_def s3_def s2_def cache_ok_def split: if_splits option.splits)
  moreover have "uc_trackDeltas s3 = uc_trackDeltas s" "uc_deltaPoints s3 = uc_deltaPoints s @
      (if uc_trackDeltas s then [\<lparr>ud_op = op, ud_tombstone = True, ud_entry = None\<rparr>] else [])"
    using dt by (simp_all add: s3_def s2_def add_delta_def)
  ultimately show ?thesis using that [OF run ok3] ok1(2) by (simp add: op_def)
qed

lemma addTxOut_refines:
  fixes cb :: bool and h :: i32
  assumes ok: "cache_ok E db s" and op: "op_ok op" "stored E db op = None"
    and o: "amount_fits (out_Value out)" "script_fits (out_PkScript out)"
  defines "s' \<equiv> addTxOut E op out cb h s"
  shows "cache_ok E db s'"
    "coins E db s' = (if IsUnspendable (out_PkScript out) then coins E db s else (coins E db s)(op \<mapsto> row_of (fresh_entry out cb h)))"
    "tracked s \<Longrightarrow> tracked s'"
proof -
  have m: "ms_ok (uc_cachedEntries s)" using ok by (simp add: cache_ok_def)
  have st: "storable (fresh_entry out cb h)" using o by (simp add: storable_def)
  have g: "\<not> IsUnspendable (out_PkScript out) \<Longrightarrow>
      cached s' = (cached s)(op \<mapsto> Some (fresh_entry out cb h)) \<and> ms_ok (uc_cachedEntries s') \<and> set (uc_dirtyOps s') = insert op (set (uc_dirtyOps s))"
    using entries.get_put [OF m] entries.put_ok [OF m] by (simp add: s'_def addTxOut_def Let_def)
  have u: "IsUnspendable (out_PkScript out) \<Longrightarrow> s' = s" by (simp add: s'_def addTxOut_def)
  show "cache_ok E db s'"
    using ok op st g u by (cases "IsUnspendable (out_PkScript out)") (auto simp: cache_ok_def entry_ok_def)
  show "coins E db s' = (if IsUnspendable (out_PkScript out) then coins E db s else (coins E db s)(op \<mapsto> row_of (fresh_entry out cb h)))"
    using op g u by (auto simp: coins_def fun_eq_iff)
  show "tracked s \<Longrightarrow> tracked s'"
    using g u by (cases "IsUnspendable (out_PkScript out)") (auto simp: tracked_def)
qed

lemma addTxOuts_fold:
  assumes "cache_ok E db s" "\<forall>tx. is_hash (env_txHash E tx)"
    "list_all (\<lambda>(i, out). stored E db (out_op E tx i) = None \<and> amount_fits (out_Value out) \<and> script_fits (out_PkScript out)) os"
  shows "cache_ok E db (fold (\<lambda>(i, out). addTxOut E (out_op E tx i) out cb h) os s)
    \<and> coins E db (fold (\<lambda>(i, out). addTxOut E (out_op E tx i) out cb h) os s)
      = fold (\<lambda>(i, out) C. if IsUnspendable (out_PkScript out) then C
          else C(out_op E tx i \<mapsto> row_of (fresh_entry out cb h))) os (coins E db s)
    \<and> (tracked s \<longrightarrow> tracked (fold (\<lambda>(i, out). addTxOut E (out_op E tx i) out cb h) os s))"
  using assms
proof (induction os arbitrary: s)
  case (Cons x os)
  obtain i out where x: "x = (i, out)" by (cases x)
  have op: "op_ok (out_op E tx i)" using Cons(3) by (simp add: op_ok_def out_op_def)
  note r = addTxOut_refines [OF Cons(2) op, of out cb h]
  show ?case using Cons(1) [OF r(1)] Cons(3,4) r(2,3) by (simp add: x)
qed simp

lemma addTxIns_loop_refines:
  assumes "cache_ok E db s" "spend_coins ins (coins E db s) = Some (C, ss)"
  shows "\<exists>s'. addTxIns_loop E db ins st s = (s', Ret (map_option (\<lambda>l. l @ ss) st)) \<and> cache_ok E db s'
    \<and> coins E db s' = C \<and> (tracked s \<longrightarrow> tracked s')"
  using assms
proof (induction ins arbitrary: s st ss)
  case Nil
  then show ?case by (cases st) auto
next
  case (Cons i ins)
  obtain e where e: "coins E db s (in_PreviousOutPoint i) = Some e" using Cons(3) by (auto split: option.splits)
  obtain ss' where ss: "spend_coins ins ((coins E db s)(in_PreviousOutPoint i := None)) = Some (C, ss')" "ss = stxo_of e # ss'"
    using Cons(3) e by (auto split: option.splits)
  obtain s1 where s1: "addTxIn E db i st s = (s1, Ret (map_option (\<lambda>l. l @ [stxo_of e]) st))"
    "cache_ok E db s1" "coins E db s1 = (coins E db s)(in_PreviousOutPoint i := None)" "tracked s \<Longrightarrow> tracked s1"
    using addTxIn_refines [OF Cons(2) e] by metis
  obtain s2 where s2: "addTxIns_loop E db ins (map_option (\<lambda>l. l @ [stxo_of e]) st) s1
      = (s2, Ret (map_option (\<lambda>l. l @ ss') (map_option (\<lambda>l. l @ [stxo_of e]) st)))"
    "cache_ok E db s2" "coins E db s2 = C" "tracked s1 \<longrightarrow> tracked s2"
    using Cons(1) [OF s1(2) ss(1) [folded s1(3)], of "map_option (\<lambda>l. l @ [stxo_of e]) st"] by blast
  show ?case using s1(1,4) s2 ss(2) by (cases st) (auto simp: cbind_def)
qed

lemma connectTransaction_refines:
  assumes ok: "cache_ok E db s" and E: "env_ok E" and o: "out_ok E db tx"
    and sp: "(if IsCoinBaseTx tx then Some (coins E db s, []) else spend_coins (tx_TxIn tx) (coins E db s)) = Some (C, ss)"
  shows "\<exists>s'. connectTransaction E db tx h st s = (s', Ret (map_option (\<lambda>l. l @ ss) st)) \<and> cache_ok E db s'
    \<and> coins E db s' = add_coins E tx h C \<and> (tracked s \<longrightarrow> tracked s')"
proof -
  obtain s1 where s1: "addTxIns E db tx st s = (s1, Ret (map_option (\<lambda>l. l @ ss) st))" "cache_ok E db s1"
    "coins E db s1 = C" "tracked s \<longrightarrow> tracked s1"
  proof (cases "IsCoinBaseTx tx")
    case True
    then show ?thesis using that [of s] sp ok by (cases st) (auto simp: addTxIns_def)
  next
    case False
    then show ?thesis using that addTxIns_loop_refines [OF ok, of "tx_TxIn tx" C ss st] sp by (auto simp: addTxIns_def)
  qed
  have "\<forall>tx. is_hash (env_txHash E tx)" using E by (simp add: env_ok_def)
  note f = addTxOuts_fold [OF s1(2) this o [unfolded out_ok_def], of "IsCoinBaseTx tx" h]
  have a: "addTxOuts E tx h s1 = fold (\<lambda>(i, out). addTxOut E (out_op E tx i) out (IsCoinBaseTx tx) h) (enumerate 0 (tx_TxOut tx)) s1"
    by (simp add: addTxOuts_def out_op_def)
  show ?thesis using s1 f unfolding connectTransaction_def cbind_def add_coins_def by (auto simp: a)
qed

lemma connectTransactions_refines_spec:
  assumes "cache_ok E db s" "env_ok E" "list_all (out_ok E db) txs" "connect_coins E h txs (coins E db s) = Some (C, ss)"
  shows "\<exists>s'. connectTransactions E db txs h st s = (s', Ret (map_option (\<lambda>l. l @ ss) st)) \<and> cache_ok E db s'
    \<and> coins E db s' = C \<and> (tracked s \<longrightarrow> tracked s')"
  using assms
proof (induction txs arbitrary: s st ss)
  case Nil
  then show ?case by (cases st) auto
next
  case (Cons tx txs)
  obtain C1 s1s where c1: "(if IsCoinBaseTx tx then Some (coins E db s, []) else spend_coins (tx_TxIn tx) (coins E db s)) = Some (C1, s1s)"
    using Cons(5) by (auto split: option.splits if_splits)
  obtain s2s where c2: "connect_coins E h txs (add_coins E tx h C1) = Some (C, s2s)" "ss = s1s @ s2s"
    using Cons(5) c1 by (auto split: option.splits prod.splits)
  have o: "out_ok E db tx" "list_all (out_ok E db) txs" using Cons(4) by simp_all
  obtain s1 where s1: "connectTransaction E db tx h st s = (s1, Ret (map_option (\<lambda>l. l @ s1s) st))" "cache_ok E db s1"
    "coins E db s1 = add_coins E tx h C1" "tracked s \<longrightarrow> tracked s1"
    using connectTransaction_refines [OF Cons(2,3) o(1) c1, of h st] by blast
  obtain s2 where s2: "connectTransactions E db txs h (map_option (\<lambda>l. l @ s1s) st) s1
      = (s2, Ret (map_option (\<lambda>l. l @ s2s) (map_option (\<lambda>l. l @ s1s) st)))" "cache_ok E db s2" "coins E db s2 = C"
    "tracked s1 \<longrightarrow> tracked s2"
    using Cons(1) [OF s1(2) Cons(3) o(2) c2(1) [folded s1(3)], of "map_option (\<lambda>l. l @ s1s) st"] by blast
  show ?case using s1(1,4) s2 c2(2) by (cases st) (auto simp: cbind_def)
qed

section \<open>Flushing\<close>

text \<open>
  One write through the cache: the row and the cached entry of one outpoint change so that the coin they stand
  for does not.
\<close>

lemma cache_step:
  assumes ok: "cache_ok E db s" and op: "op_ok op" and r: "rows_ok (env_parse E) (env_unc E) db'"
    and st: "\<And>op'. op_ok op' \<Longrightarrow> stored E db' op' = (if op' = op then r else stored E db op')"
    and m: "ms_ok (uc_cachedEntries s')" and g: "cached s' = (cached s)(op := x)"
    and x: "case x of None \<Rightarrow> True | Some None \<Rightarrow> r = None | Some (Some e) \<Rightarrow> entry_ok r e"
    and c: "(case x of None \<Rightarrow> r | Some None \<Rightarrow> None | Some (Some e) \<Rightarrow> if IsSpent e then None else Some (row_of e))
        = coins E db s op"
  shows "cache_ok E db' s'" "coins E db' s' = coins E db s"
proof -
  show "cache_ok E db' s'"
    using ok op r st m g x by (auto simp: cache_ok_def split: option.splits if_splits)
  show "coins E db' s' = coins E db s"
  proof
    fix k
    show "coins E db' s' k = coins E db s k"
    proof (cases "k = op")
      case True
      have "coins E db' s' op = (case x of None \<Rightarrow> r | Some None \<Rightarrow> None | Some (Some e) \<Rightarrow> if IsSpent e then None else Some (row_of e))"
        using g st [OF op] op by (auto simp: coins_def split: option.split)
      then show ?thesis using c True by simp
    next
      case False
      then show ?thesis using g st [of k] by (auto simp: coins_def split: option.split)
    qed
  qed
qed

lemma delete_row:
  assumes "rows_ok (env_parse E) (env_unc E) db" "op_ok op"
  shows "rows_ok (env_parse E) (env_unc E) (dbDeleteUtxoEntry op db)"
    "op_ok op' \<Longrightarrow> stored E (dbDeleteUtxoEntry op db) op' = (if op' = op then None else stored E db op')"
  using assms fetch_delete [OF assms(2), of _ "env_parse E" "env_unc E" db] by (auto simp: rows_ok_def rows_def)

lemma put_row:
  assumes r: "rows_ok (env_parse E) (env_unc E) db" and op: "op_ok op" and E: "env_ok E" and e: "storable e" "\<not> IsSpent e"
  obtains db' where "dbPutUtxoEntry (env_parse E) op (Some e) db = Inr db'" "rows_ok (env_parse E) (env_unc E) db'"
    "\<And>op'. op_ok op' \<Longrightarrow> stored E db' op' = (if op' = op then Some (row_of e) else stored E db op')"
proof -
  have lib: "pubkey_lib (env_parse E) (env_unc E)" using E by (simp add: env_ok_def)
  obtain db' where d: "dbPutUtxoEntry (env_parse E) op (Some e) db = Inr db'"
    and f: "\<forall>op'. op_ok op' \<longrightarrow> dbFetchUtxoEntry (env_parse E) (env_unc E) db' op' =
      (if op' = op then Ret (Some (row_of e)) else dbFetchUtxoEntry (env_parse E) (env_unc E) db op')"
    using fetch_put [OF lib e, of op db] op by blast
  show ?thesis
  proof (rule that [OF d])
    show "rows_ok (env_parse E) (env_unc E) db'" using r f by (auto simp: rows_ok_def)
    show "stored E db' op' = (if op' = op then Some (row_of e) else stored E db op')" if "op_ok op'" for op'
      using f that by (simp add: rows_def)
  qed
qed

text \<open>The incremental flush: every outpoint of the list ends clean, and nothing else changes.\<close>

lemma write_dirty_ok:
  assumes "cache_ok E db s" "env_ok E"
  shows "\<exists>s' db'. write_dirty E ops s db = Inr (s', db') \<and> cache_ok E db' s' \<and> coins E db' s' = coins E db s
    \<and> (\<forall>op e. cached s' op = Some (Some e) \<longrightarrow> isModified e \<longrightarrow> op \<notin> set ops \<and> cached s op = Some (Some e))"
  using assms
proof (induction ops arbitrary: s db)
  case (Cons op ops)
  note ok = Cons(2)
  have m: "ms_ok (uc_cachedEntries s)" and r: "rows_ok (env_parse E) (env_unc E) db" using ok by (simp_all add: cache_ok_def)
  have *: ?case if one: "write_dirty E (op # ops) s db = write_dirty E ops s1 db1" and ok1: "cache_ok E db1 s1"
      and c1: "coins E db1 s1 = coins E db s"
      and k: "\<And>k e. cached s1 k = Some (Some e) \<Longrightarrow> isModified e \<Longrightarrow> k \<noteq> op \<and> cached s k = Some (Some e)" for s1 db1
  proof -
    obtain s' db' where "write_dirty E ops s1 db1 = Inr (s', db')" "cache_ok E db' s'" "coins E db' s' = coins E db1 s1"
      "\<forall>op e. cached s' op = Some (Some e) \<longrightarrow> isModified e \<longrightarrow> op \<notin> set ops \<and> cached s1 op = Some (Some e)"
      using Cons(1) [OF ok1 Cons(3)] by blast
    then show ?thesis unfolding one using c1 k by (intro exI [of _ s'] exI [of _ db']) auto
  qed
  show ?case
  proof (cases "cached s op")
    case None
    then show ?thesis by (intro * [of s db]) (use ok in auto)
  next
    case (Some x)
    have op: "op_ok op" using ok Some by (cases x) (auto simp: cache_ok_def)
    show ?thesis
    proof (cases "x = None \<or> IsSpent (the x)")
      case True
      define mem where "mem = (case x of None \<Rightarrow> uc_totalEntryMemory s | Some e \<Rightarrow> uc_totalEntryMemory s - memoryUsage (Some e))"
      define s1 where "s1 = s\<lparr>uc_cachedEntries := ms_delete op (uc_cachedEntries s), uc_totalEntryMemory := mem\<rparr>"
      have g: "cached s1 = (cached s)(op := None)" "ms_ok (uc_cachedEntries s1)"
        using entries.get_del [OF m] entries.del_ok [OF m] by (simp_all add: s1_def)
      have c: "coins E db s op = None" using Some True by (auto simp: coins_def split: option.split)
      have "cache_ok E (dbDeleteUtxoEntry op db) s1" "coins E (dbDeleteUtxoEntry op db) s1 = coins E db s"
        by (rule cache_step [OF ok op delete_row(1) [OF r op] delete_row(2) [OF r op] g(2,1)], simp_all add: c)+
      moreover have "write_dirty E (op # ops) s db = write_dirty E ops s1 (dbDeleteUtxoEntry op db)"
        using Some True by (cases x) (auto simp: s1_def mem_def)
      ultimately show ?thesis using g by (intro * [of s1 "dbDeleteUtxoEntry op db"]) (auto split: if_splits)
    next
      case False
      then obtain e where e: "x = Some e" "\<not> IsSpent e" by auto
      show ?thesis
      proof (cases "isModified e")
        case True
        have eo: "entry_ok (stored E db op) e" using ok Some e by (auto simp: cache_ok_def)
        then have "storable e" using True e by (simp add: entry_ok_def)
        then obtain db1 where d: "dbPutUtxoEntry (env_parse E) op (Some e) db = Inr db1" "rows_ok (env_parse E) (env_unc E) db1"
          "\<And>op'. op_ok op' \<Longrightarrow> stored E db1 op' = (if op' = op then Some (row_of e) else stored E db op')"
          using put_row [OF r op Cons(3) _ e(2)] by metis
        define s1 where "s1 = s\<lparr>uc_cachedEntries := ms_modify op (clearModified e) (uc_cachedEntries s)\<rparr>"
        have g: "cached s1 = (cached s)(op := Some (Some (clearModified e)))" "ms_ok (uc_cachedEntries s1)"
          using entries.get_modify [OF m] entries.modify_ok [OF m] Some by (simp_all add: s1_def)
        have c: "coins E db s op = Some (row_of e)" using Some e op by (simp add: coins_def)
        have "cache_ok E db1 s1" "coins E db1 s1 = coins E db s"
          by (rule cache_step [OF ok op d(2,3) g(2,1)], simp_all add: c e entry_ok_def)+
        moreover have "write_dirty E (op # ops) s db = write_dirty E ops s1 db1" using Some e True d(1) by (simp add: s1_def)
        ultimately show ?thesis using g by (intro * [of s1 db1]) (auto split: if_splits)
      next
        case False
        then show ?thesis by (intro * [of s db]) (use ok Some e in auto)
      qed
    qed
  qed
qed auto

text \<open>The full flush. What stays of an entry in its map, and the row it leaves.\<close>

definition clean :: "utxo_entry \<Rightarrow> utxo_entry" where
  "clean e = (if isModified e then clearModified e else e)"

definition hot :: "i32 \<Rightarrow> utxo_entry option \<Rightarrow> bool" where
  "hot floor x \<longleftrightarrow> (case x of None \<Rightarrow> False | Some e \<Rightarrow> \<not> IsSpent e \<and> floor \<le>s en_blockHeight e)"

definition row_left :: "utxo_entry option \<Rightarrow> utxo_entry option" where
  "row_left x = (case x of None \<Rightarrow> None | Some e \<Rightarrow> if IsSpent e then None else Some (row_of e))"

definition kept_entry :: "i32 \<Rightarrow> utxo_entry option option \<Rightarrow> utxo_entry option option" where
  "kept_entry floor x = (case x of None \<Rightarrow> None | Some y \<Rightarrow> if hot floor y then Some (map_option clean y) else None)"

definition writable :: "utxo_entry option \<Rightarrow> utxo_entry option \<Rightarrow> bool" where
  "writable r x \<longleftrightarrow> (case x of None \<Rightarrow> r = None | Some e \<Rightarrow> entry_ok r e)"

lemma clean_simps [simp]: "IsSpent (clean e) = IsSpent e" "en_blockHeight (clean e) = en_blockHeight e" "row_of (clean e) = row_of e"
  "\<not> isModified (clean e)"
  by (simp_all add: clean_def)

lemma flush_map_Cons:
  assumes r: "rows_ok (env_parse E) (env_unc E) db" and op: "op_ok op" and E: "env_ok E" and w: "writable (stored E db op) x"
  obtains db1 where "flush_map E floor ((op, x) # m) db =
      (case flush_map E floor m db1 of Inl e \<Rightarrow> Inl e
       | Inr (m', db') \<Rightarrow> Inr (if hot floor x then (op, map_option clean x) # m' else m', db'))"
    "rows_ok (env_parse E) (env_unc E) db1" "\<And>op'. op_ok op' \<Longrightarrow> stored E db1 op' = (if op' = op then row_left x else stored E db op')"
proof (cases "x = None \<or> IsSpent (the x)")
  case True
  then have h: "\<not> hot floor x" "row_left x = None" by (auto simp: hot_def row_left_def split: option.split)
  show ?thesis
  proof (rule that [of "dbDeleteUtxoEntry op db"])
    show "flush_map E floor ((op, x) # m) db =
      (case flush_map E floor m (dbDeleteUtxoEntry op db) of Inl e \<Rightarrow> Inl e
       | Inr (m', db') \<Rightarrow> Inr (if hot floor x then (op, map_option clean x) # m' else m', db'))"
      using True h by (cases x) (auto split: sum.split)
  qed (use delete_row [OF r op] h in auto)
next
  case False
  then obtain e where e: "x = Some e" "\<not> IsSpent e" by auto
  have rl: "row_left x = Some (row_of e)" using e by (simp add: row_left_def)
  show ?thesis
  proof (cases "isModified e")
    case True
    then have st: "storable e" using w e by (simp add: writable_def entry_ok_def)
    obtain db1 where d: "dbPutUtxoEntry (env_parse E) op (Some e) db = Inr db1" "rows_ok (env_parse E) (env_unc E) db1"
      "\<And>op'. op_ok op' \<Longrightarrow> stored E db1 op' = (if op' = op then Some (row_of e) else stored E db op')"
      by (rule put_row [OF r op E st e(2)]) (rule that)
    show ?thesis
      by (rule that [of db1]) (use e True d rl in \<open>auto simp: clean_def hot_def split: sum.split\<close>)
  next
    case F: False
    then have "stored E db op = Some (row_of e)" using w e by (simp add: writable_def entry_ok_def)
    then show ?thesis
      by (intro that [of db]) (use e F r rl in \<open>auto simp: clean_def hot_def split: sum.split\<close>)
  qed
qed

lemma flush_map_ok:
  assumes "rows_ok (env_parse E) (env_unc E) db" "env_ok E" "distinct (map fst m)"
    "\<And>op x. (op, x) \<in> set m \<Longrightarrow> op_ok op \<and> writable (stored E db op) x"
  shows "\<exists>m' db'. flush_map E floor m db = Inr (m', db') \<and> rows_ok (env_parse E) (env_unc E) db'
    \<and> (\<forall>op. op_ok op \<longrightarrow> stored E db' op = (case map_of m op of None \<Rightarrow> stored E db op | Some x \<Rightarrow> row_left x))
    \<and> map fst m' = map fst (filter (\<lambda>(op, x). hot floor x) m) \<and> (\<forall>op. map_of m' op = kept_entry floor (map_of m op))"
  using assms
proof (induction m arbitrary: db)
  case Nil
  then show ?case by (simp add: kept_entry_def)
next
  case (Cons a m)
  obtain op x where a: "a = (op, x)" by (cases a)
  have op: "op_ok op" and w: "writable (stored E db op) x" using Cons(5) [of op x] by (simp_all add: a)
  have nin: "map_of m op = None" using Cons(4) a by (simp add: map_of_eq_None_iff)
  obtain db1 where d1: "flush_map E floor ((op, x) # m) db =
      (case flush_map E floor m db1 of Inl e \<Rightarrow> Inl e
       | Inr (m', db') \<Rightarrow> Inr (if hot floor x then (op, map_option clean x) # m' else m', db'))"
    "rows_ok (env_parse E) (env_unc E) db1" "\<And>op'. op_ok op' \<Longrightarrow> stored E db1 op' = (if op' = op then row_left x else stored E db op')"
    by (rule flush_map_Cons [OF Cons(2) op Cons(3) w]) (rule that)
  have "op' \<noteq> op" if "(op', y) \<in> set m" for op' y using Cons(4) a that by (auto simp: image_iff)
  then have "\<And>op' y. (op', y) \<in> set m \<Longrightarrow> op_ok op' \<and> writable (stored E db1 op') y" using Cons(5) d1(3) by fastforce
  from Cons(1) [OF d1(2) Cons(3) _ this] Cons(4) obtain m' db' where i: "flush_map E floor m db1 = Inr (m', db')"
    "rows_ok (env_parse E) (env_unc E) db'"
    "\<And>op. op_ok op \<Longrightarrow> stored E db' op = (case map_of m op of None \<Rightarrow> stored E db1 op | Some x \<Rightarrow> row_left x)"
    "map fst m' = map fst (filter (\<lambda>(op, x). hot floor x) m)" "\<And>op. map_of m' op = kept_entry floor (map_of m op)"
    by auto
  have s: "stored E db' k = (case map_of (a # m) k of None \<Rightarrow> stored E db k | Some x \<Rightarrow> row_left x)" if "op_ok k" for k
    using i(3) [OF that] d1(3) [OF that] nin by (auto simp: a split: option.split)
  have k: "map_of (if hot floor x then (op, map_option clean x) # m' else m') k = kept_entry floor (map_of (a # m) k)" for k
    using i(5) nin by (auto simp: a kept_entry_def)
  show ?case
    by (rule exI [of _ "if hot floor x then (op, map_option clean x) # m' else m'"], rule exI [of _ db'])
      (use d1(1) i(1,2,4) s k in \<open>auto simp: a\<close>)
qed

lemma flush_maps_ok:
  assumes "rows_ok (env_parse E) (env_unc E) db" "env_ok E" "distinct (ms_keys ms)"
    "\<And>op x. maps_get ms op = Some x \<Longrightarrow> op_ok op \<and> writable (stored E db op) x"
  shows "\<exists>ms' db'. flush_maps E floor ms db = Inr (ms', db') \<and> rows_ok (env_parse E) (env_unc E) db'
    \<and> (\<forall>op. op_ok op \<longrightarrow> stored E db' op = (case maps_get ms op of None \<Rightarrow> stored E db op | Some x \<Rightarrow> row_left x))
    \<and> length ms' = length ms \<and> distinct (ms_keys ms') \<and> set (ms_keys ms') \<subseteq> set (ms_keys ms)
    \<and> (\<forall>op. maps_get ms' op = kept_entry floor (maps_get ms op)) \<and> (\<forall>op. ms \<noteq> [] \<longrightarrow> map_of (hd ms') op = kept_entry floor (map_of (hd ms) op))"
  using assms
proof (induction ms arbitrary: db)
  case Nil
  then show ?case by (simp add: kept_entry_def)
next
  case (Cons m ms)
  have dm: "distinct (map fst m)" "distinct (ms_keys ms)" "set (map fst m) \<inter> set (ms_keys ms) = {}" using Cons(4) by simp_all
  have dj: "maps_get ms op = None" if "map_of m op \<noteq> None" for op
    using that dm(3) map_of_keys [of m op] maps_get_keys [of ms op] by auto
  have w: "op_ok op \<and> writable (stored E db op) x" if "(op, x) \<in> set m" for op x
    using Cons(5) [of op x] that dm(1) by simp
  obtain m' db1 where d1: "flush_map E floor m db = Inr (m', db1)" "rows_ok (env_parse E) (env_unc E) db1"
    "\<And>op. op_ok op \<Longrightarrow> stored E db1 op = (case map_of m op of None \<Rightarrow> stored E db op | Some x \<Rightarrow> row_left x)"
    "map fst m' = map fst (filter (\<lambda>(op, x). hot floor x) m)" "\<And>op. map_of m' op = kept_entry floor (map_of m op)"
    using flush_map_ok [OF Cons(2,3) dm(1) w] by blast
  have w1: "op_ok op \<and> writable (stored E db1 op) x" if "maps_get ms op = Some x" for op x
  proof -
    have n: "map_of m op = None" using dj [of op] that by (cases "map_of m op") auto
    then show ?thesis using Cons(5) [of op x] that d1(3) [of op] by simp
  qed
  obtain ms' db' where d2: "flush_maps E floor ms db1 = Inr (ms', db')" "rows_ok (env_parse E) (env_unc E) db'"
    "\<And>op. op_ok op \<Longrightarrow> stored E db' op = (case maps_get ms op of None \<Rightarrow> stored E db1 op | Some x \<Rightarrow> row_left x)"
    "length ms' = length ms" "distinct (ms_keys ms')" "set (ms_keys ms') \<subseteq> set (ms_keys ms)"
    "\<And>op. maps_get ms' op = kept_entry floor (maps_get ms op)"
    using Cons(1) [OF d1(2) Cons(3) dm(2) w1] by blast
  have st: "stored E db' op = (case maps_get (m # ms) op of None \<Rightarrow> stored E db op | Some x \<Rightarrow> row_left x)" if "op_ok op" for op
    using d1(3) [OF that] d2(3) [OF that] dj [of op] by (auto split: option.split)
  have mg: "maps_get (m' # ms') op = kept_entry floor (maps_get (m # ms) op)" for op
    using d1(5) [of op] d2(7) [of op] dj [of op] by (auto simp: kept_entry_def split: option.split)
  have sub: "set (map fst m') \<subseteq> set (map fst m)" unfolding d1(4) by auto
  have "distinct (map fst m')" unfolding d1(4) using dm(1) by (rule distinct_map_filter)
  then have dk: "distinct (ms_keys (m' # ms'))" "set (ms_keys (m' # ms')) \<subseteq> set (ms_keys (m # ms))"
    using sub d2(5,6) dm(3) by auto
  show ?case
    by (rule exI [of _ "m' # ms'"], rule exI [of _ db']) (use d1(1,5) d2(1,2,4) st mg dk in simp)
qed

lemma fold_reinsert:
  assumes "ms_ok (uc_cachedEntries s)"
  shows "ms_ok (uc_cachedEntries (fold (reinsert_hot E) ops s))
    \<and> cached (fold (reinsert_hot E) ops s) k
      = (if k \<in> set ops then Some (case cached s k of Some e \<Rightarrow> e | None \<Rightarrow> None) else cached s k)
    \<and> uc_dirtyOps (fold (reinsert_hot E) ops s) = uc_dirtyOps s"
  using assms
proof (induction ops arbitrary: s)
  case (Cons op ops)
  define s1 where "s1 = reinsert_hot E op s"
  have s1: "ms_ok (uc_cachedEntries s1)" "cached s1 = (cached s)(op \<mapsto> case cached s op of Some e \<Rightarrow> e | None \<Rightarrow> None)"
    "uc_dirtyOps s1 = uc_dirtyOps s"
    using entries.put_ok [OF Cons(2)] entries.get_put [OF Cons(2)] by (simp_all add: s1_def reinsert_hot_def Let_def)
  show ?case using Cons(1) [OF s1(1)] s1(2,3) by (auto simp: s1_def [symmetric])
qed simp

text \<open>What a full flush does: the rows become the coins, and the hot entries that were not in the first map are lost.\<close>

definition flush_loses :: "utxoCache \<Rightarrow> out_point \<Rightarrow> bool" where
  "flush_loses s op \<longleftrightarrow>
    (case maps_get (tl (ms_maps (uc_cachedEntries s))) op of None \<Rightarrow> False | Some x \<Rightarrow> hot (uc_hotFloor s) x)"

lemma cache_ok_writable: "cache_ok E db s \<Longrightarrow> cached s op = Some x \<Longrightarrow> op_ok op \<and> writable (stored E db op) x"
  by (cases x) (auto simp: cache_ok_def writable_def)

lemma write_full_ok:
  assumes ok: "cache_ok E db s" and E: "env_ok E"
  shows "\<exists>s' db'. write_full E s db = Inr (s', db') \<and> ms_ok (uc_cachedEntries s') \<and> rows_ok (env_parse E) (env_unc E) db'
    \<and> uc_dirtyOps s' = []
    \<and> (\<forall>op. op_ok op \<longrightarrow> stored E db' op = coins E db s op)
    \<and> (\<forall>op. cached s' op = (if flush_loses s op then Some None else kept_entry (uc_hotFloor s) (map_of (hd (ms_maps (uc_cachedEntries s))) op)))"
proof -
  define ms where "ms = ms_maps (uc_cachedEntries s)"
  have m: "ms_ok (uc_cachedEntries s)" and r: "rows_ok (env_parse E) (env_unc E) db" using ok by (simp_all add: cache_ok_def)
  have ms: "ms \<noteq> []" "distinct (ms_keys ms)" "length (ms_maxEntries (uc_cachedEntries s)) = length ms"
    using m by (simp_all add: ms_ok_def ms_def)
  have g: "cached s op = maps_get ms op" for op by (simp add: ms_get_def ms_def)
  obtain ms' db' where f: "flush_maps E (uc_hotFloor s) ms db = Inr (ms', db')" "rows_ok (env_parse E) (env_unc E) db'"
    "\<And>op. op_ok op \<Longrightarrow> stored E db' op = (case maps_get ms op of None \<Rightarrow> stored E db op | Some x \<Rightarrow> row_left x)"
    "length ms' = length ms" "distinct (ms_keys ms')" "\<And>op. maps_get ms' op = kept_entry (uc_hotFloor s) (maps_get ms op)"
    "\<And>op. map_of (hd ms') op = kept_entry (uc_hotFloor s) (map_of (hd ms) op)"
    using flush_maps_ok [OF r E ms(2), of "uc_hotFloor s"] cache_ok_writable [OF ok] g ms(1) by metis
  have ms': "ms' \<noteq> []" using f(4) ms(1) by auto
  define s0 where "s0 = s\<lparr>uc_cachedEntries := deleteMaps ((uc_cachedEntries s)\<lparr>ms_maps := ms'\<rparr>), uc_totalEntryMemory := 0, uc_dirtyOps := []\<rparr>"
  have s0: "ms_ok (uc_cachedEntries s0)" "cached s0 op = map_of (hd ms') op" for op
  proof -
    obtain a b where ab: "ms' = a # b" using ms' by (cases ms') auto
    obtain c d where cd: "ms_maxEntries (uc_cachedEntries s) = c # d" using ms(1,3) by (cases "ms_maxEntries (uc_cachedEntries s)") auto
    show "ms_ok (uc_cachedEntries s0)" using f(5) ab cd by (simp add: s0_def deleteMaps_def ms_ok_def)
    show "cached s0 op = map_of (hd ms') op" using ab by (simp add: s0_def deleteMaps_def ms_get_def split: option.split)
  qed
  define s' where "s' = fold (reinsert_hot E) (ms_keys ms') s0"
  note fr = fold_reinsert [OF s0(1), of E "ms_keys ms'"]
  have run: "write_full E s db = Inr (s', db')"
    using f(1) by (simp add: write_full_def ms_def [symmetric] s'_def s0_def ms_keys_def)
  have st: "stored E db' op = coins E db s op" if "op_ok op" for op
    using f(3) [OF that] that g by (auto simp: coins_def row_left_def split: option.split)
  have ca: "cached s' op = (if flush_loses s op then Some None else kept_entry (uc_hotFloor s) (map_of (hd ms) op))" for op
  proof -
    obtain a b where ab: "ms = a # b" using ms(1) by (cases ms) auto
    have dj: "maps_get b op = None" if "map_of a op \<noteq> None"
      using that ms(2) ab map_of_keys [of a op] maps_get_keys [of b op] by auto
    have k: "op \<in> set (ms_keys ms') \<longleftrightarrow> kept_entry (uc_hotFloor s) (maps_get ms op) \<noteq> None"
      using maps_get_keys [of ms' op] f(6) by simp
    have l: "flush_loses s op \<longleftrightarrow> (\<exists>x. maps_get b op = Some x \<and> hot (uc_hotFloor s) x)"
      using ab by (auto simp: flush_loses_def ms_def [symmetric] split: option.split)
    have c: "cached s' op = (if op \<in> set (ms_keys ms') then Some (case kept_entry (uc_hotFloor s) (map_of a op) of Some e \<Rightarrow> e | None \<Rightarrow> None)
        else kept_entry (uc_hotFloor s) (map_of a op))"
      using fr s0(2) f(7) ab by (simp add: s'_def)
    show ?thesis
    proof (cases "map_of a op")
      case None
      then show ?thesis using c k l ab by (auto simp: kept_entry_def split: option.splits if_splits)
    next
      case (Some x)
      then show ?thesis using c k l ab dj by (auto simp: kept_entry_def split: option.splits if_splits)
    qed
  qed
  show ?thesis
    by (rule exI [of _ s'], rule exI [of _ db']) (use run fr f(2) st ca in \<open>simp add: s'_def s0_def ms_def\<close>)
qed

section \<open>Properties\<close>

lemma marker_rows:
  "dbFetchUtxoEntry parse unc (dbPutUtxoStateConsistency h db) op = dbFetchUtxoEntry parse unc db op"
  "dbFetchUtxoStateConsistency (dbPutUtxoStateConsistency h db) = Some h"
  by (simp_all add: dbFetchUtxoEntry_def dbPutUtxoStateConsistency_def dbFetchUtxoStateConsistency_def)

lemma marker_stored [simp]:
  "rows parse unc (dbPutUtxoStateConsistency h db) = rows parse unc db"
  "rows_ok parse unc (dbPutUtxoStateConsistency h db) = rows_ok parse unc db"
  "coins E (dbPutUtxoStateConsistency h db) s = coins E db s"
  "cache_ok E (dbPutUtxoStateConsistency h db) s = cache_ok E db s"
  by (simp_all add: rows_def rows_ok_def coins_def cache_ok_def marker_rows fun_eq_iff cong: option.case_cong)

lemma cache_times [simp]:
  "coins E db (s\<lparr>uc_dirtyOps := d\<rparr>) = coins E db s" "coins E db (s\<lparr>uc_lastFlushHash := h, uc_lastFlushTime := t\<rparr>) = coins E db s"
  "cache_ok E db (s\<lparr>uc_dirtyOps := d\<rparr>) = cache_ok E db s"
  "cache_ok E db (s\<lparr>uc_lastFlushHash := h, uc_lastFlushTime := t\<rparr>) = cache_ok E db s"
  by (simp_all add: coins_def cache_ok_def fun_eq_iff)

lemma clean_cache_stored:
  assumes "cache_ok E db s" "\<And>op e. cached s op = Some (Some e) \<Longrightarrow> \<not> isModified e" "op_ok op"
  shows "stored E db op = coins E db s op"
proof (cases "cached s op")
  case (Some x)
  then show ?thesis using assms by (cases x) (auto simp: coins_def cache_ok_def entry_ok_def)
qed (use assms in \<open>simp add: coins_def\<close>)

lemma full_cache_coins:
  assumes st: "\<And>op. op_ok op \<Longrightarrow> stored E db' op = coins E db s op" and m: "ms_ok (uc_cachedEntries s)"
    and ca: "cached s' = (\<lambda>op. if flush_loses s op then Some None else kept_entry (uc_hotFloor s) (map_of (hd (ms_maps (uc_cachedEntries s))) op))"
    and ok: "cache_ok E db s"
  shows "coins E db' s' op = (if flush_loses s op then None else coins E db s op)"
    "cached s' op = Some (Some e) \<Longrightarrow> op_ok op \<and> \<not> isModified e \<and> \<not> isFresh e \<and> \<not> IsSpent e \<and> stored E db' op = Some (row_of e)"
proof -
  obtain a b where ab: "ms_maps (uc_cachedEntries s) = a # b" using m by (cases "ms_maps (uc_cachedEntries s)") (auto simp: ms_ok_def)
  have k: "op_ok op \<and> coins E db s op = Some (row_of e') \<and> \<not> IsSpent e' \<and> entry_ok (stored E db op) e'"
    if "map_of a op = Some (Some e')" "\<not> IsSpent e'" for e'
  proof -
    have "cached s op = Some (Some e')" using that(1) ab by (simp add: ms_get_def)
    then show ?thesis using ok that(2) by (auto simp: coins_def cache_ok_def)
  qed
  have h: "\<exists>e'. map_of a op = Some (Some e') \<and> \<not> IsSpent e' \<and> e = clean e'" if "kept_entry (uc_hotFloor s) (map_of a op) = Some (Some e)" for e
    using that by (auto simp: kept_entry_def hot_def split: option.splits if_splits)
  have n: "kept_entry (uc_hotFloor s) (map_of a op) \<noteq> Some None" by (auto simp: kept_entry_def hot_def split: option.splits)
  show "coins E db' s' op = (if flush_loses s op then None else coins E db s op)"
  proof (cases "kept_entry (uc_hotFloor s) (map_of a op)")
    case None
    then show ?thesis using ca ab st [of op] by (auto simp: coins_def)
  next
    case (Some x)
    then obtain e where "x = Some e" using n by (cases x) auto
    then show ?thesis using Some h [of e] k ca ab by (auto simp: coins_def)
  qed
  show "op_ok op \<and> \<not> isModified e \<and> \<not> isFresh e \<and> \<not> IsSpent e \<and> stored E db' op = Some (row_of e)"
    if c: "cached s' op = Some (Some e)"
  proof -
    obtain e' where e': "map_of a op = Some (Some e')" "\<not> IsSpent e'" "e = clean e'"
      using c h [of e] ca ab by (auto split: if_splits)
    have "\<not> isFresh (clean e')" using k [OF e'(1,2)] by (auto simp: clean_def entry_ok_def)
    then show ?thesis using k [OF e'(1,2)] st e' by auto
  qed
qed

text \<open>
  C7: flushing the cache makes the stored rows exactly the set of coins, and records the best block as the
  point the rows are consistent with. After an incremental flush the cache stands for the same coins over the
  new rows. A full flush does too, except for the entries at or above the hot floor that were not in the first
  map: the reinsertion finds them gone and caches \<open>nil\<close>, so an unspent coin that is in the database is missing.
\<close>

theorem writeCache_exact:
  assumes ok: "cache_ok E db s" and E: "env_ok E" and t: "cleanCache \<or> tracked s"
  shows "\<exists>s' db'. writeCache E now h cleanCache s db = Inr (s', db')
    \<and> (\<forall>op. op_ok op \<longrightarrow> rows (env_parse E) (env_unc E) db' op = coins E db s op)
    \<and> dbFetchUtxoStateConsistency db' = Some h
    \<and> (\<forall>op. coins E db' s' op = (if cleanCache \<and> flush_loses s op then None else coins E db s op))
    \<and> ((\<forall>op. \<not> (cleanCache \<and> flush_loses s op)) \<longrightarrow> cache_ok E db' s' \<and> tracked s')"
proof (cases cleanCache)
  case True
  obtain s1 db1 where w: "write_full E s db = Inr (s1, db1)" "ms_ok (uc_cachedEntries s1)" "rows_ok (env_parse E) (env_unc E) db1"
    "\<And>op. op_ok op \<Longrightarrow> stored E db1 op = coins E db s op"
    "cached s1 = (\<lambda>op. if flush_loses s op then Some None else kept_entry (uc_hotFloor s) (map_of (hd (ms_maps (uc_cachedEntries s))) op))"
    using write_full_ok [OF ok E] by fastforce
  have m: "ms_ok (uc_cachedEntries s)" using ok by (simp add: cache_ok_def)
  note f = full_cache_coins [OF w(4) m w(5) ok]
  have c: "cache_ok E db1 s1" "tracked s1" if "\<And>op. \<not> flush_loses s op"
  proof -
    have n: "cached s1 op \<noteq> Some None" for op using that w(5) by (auto simp: kept_entry_def hot_def split: option.splits)
    show "cache_ok E db1 s1" using w(2,3) n f(2) by (auto simp: cache_ok_def entry_ok_def)
    show "tracked s1" using f(2) by (auto simp: tracked_def)
  qed
  have tr: "tracked (s1\<lparr>uc_lastFlushHash := h, uc_lastFlushTime := now\<rparr>) = tracked s1" by (simp add: tracked_def)
  show ?thesis
    by (rule exI [of _ "s1\<lparr>uc_lastFlushHash := h, uc_lastFlushTime := now\<rparr>"], rule exI [of _ "dbPutUtxoStateConsistency h db1"])
      (use True w(1,4) f(1) c tr in \<open>simp add: writeCache_def marker_rows\<close>)
next
  case False
  obtain s1 db1 where w: "write_dirty E (uc_dirtyOps s) s db = Inr (s1, db1)" "cache_ok E db1 s1" "coins E db1 s1 = coins E db s"
    "\<And>op e. cached s1 op = Some (Some e) \<Longrightarrow> isModified e \<Longrightarrow> op \<notin> set (uc_dirtyOps s) \<and> cached s op = Some (Some e)"
    using write_dirty_ok [OF ok E, of "uc_dirtyOps s"] by blast
  have n: "\<not> isModified e" if "cached s1 op = Some (Some e)" for op e
    using w(4) [OF that] t False by (auto simp: tracked_def)
  define s2 where "s2 = s1\<lparr>uc_dirtyOps := [], uc_lastFlushHash := h, uc_lastFlushTime := now\<rparr>"
  have "tracked s2" using n by (auto simp: tracked_def s2_def)
  moreover have "writeCache E now h cleanCache s db = Inr (s2, dbPutUtxoStateConsistency h db1)"
    using False w(1) by (simp add: writeCache_def s2_def)
  moreover have "coins E db1 s2 = coins E db s" "cache_ok E db1 s2" using w(2,3) by (simp_all add: s2_def coins_def cache_ok_def fun_eq_iff)
  ultimately show ?thesis
    using False clean_cache_stored [OF w(2) n] w(3)
    by (intro exI [of _ s2] exI [of _ "dbPutUtxoStateConsistency h db1"]) (simp add: marker_rows)
qed

lemma ex_script: "\<not> IsUnspendable [OP_1]"
  by (simp add: IsUnspendable_def checkScriptParses_iff tokens.simps parse_op_def)

definition ex_parse :: "bytes \<Rightarrow> bytes option" where
  "ex_parse k =
    (if length k = 65 \<and> k ! 0 = 4 \<and> drop 33 k = replicate 32 0 then Some (slice 1 33 k)
     else if length k = 33 \<and> k ! 0 \<in> {2, 3} then Some (drop 1 k) else None)"

definition ex_unc :: "bytes \<Rightarrow> bytes" where
  "ex_unc x = 4 # x @ replicate 32 0"

lemma ex_lib: "pubkey_lib ex_parse ex_unc"
  unfolding pubkey_lib_def
proof (intro allI impI)
  fix x y :: bytes
  assume l: "length x = 32" "length y = 32" and p: "ex_parse (0x04 # x @ y) \<noteq> None"
  have "drop 33 (4 # x @ y) = y" using l by simp
  then have y: "y = replicate 32 0" using p l by (auto simp: ex_parse_def split: if_splits)
  have "(y ! 31 AND 0x01) = 0" by (simp add: y)
  then show "\<exists>k. ex_parse ((0x02 OR (y ! 31 AND 0x01)) # x) = Some k \<and> ex_unc k = 0x04 # x @ y"
    using l y by (simp add: ex_parse_def ex_unc_def)
qed

definition ex_env :: "bytes cache_env" where
  "ex_env = \<lparr>env_parse = ex_parse, env_unc = ex_unc, env_room = (\<lambda>_ _. 1), env_mapSize = (\<lambda>_. 400),
    env_txHash = (\<lambda>tx. replicate 32 (ucast (tx_LockTime tx)))\<rparr>"

lemma ex_env_ok: "env_ok ex_env"
  by (simp add: env_ok_def ex_env_def ex_lib is_hash_def)

definition ex_db :: chain_db where
  "ex_db = \<lparr>cd_utxo = RBT.empty, cd_spend = RBT.empty, cd_hashIdx = RBT.empty, cd_heightIdx = RBT.empty,
    cd_blockIdx = RBT.empty, cd_meta = RBT.empty, cd_watermark = None\<rparr>"

definition ex_out :: tx_out where
  "ex_out = \<lparr>out_Value = 50, out_PkScript = [OP_1]\<rparr>"

definition ex_coinbase :: msg_tx where
  "ex_coinbase = \<lparr>tx_Version = 1, tx_TxIn = [\<lparr>in_PreviousOutPoint = \<lparr>op_Hash = zero_hash, op_Index = -1\<rparr>,
      in_SignatureScript = [OP_1, OP_1], in_Witness = [], in_Sequence = -1\<rparr>],
    tx_TxOut = [ex_out, ex_out], tx_LockTime = 1\<rparr>"

definition ex_spend :: msg_tx where
  "ex_spend = \<lparr>tx_Version = 1, tx_TxIn = [\<lparr>in_PreviousOutPoint = \<lparr>op_Hash = replicate 32 1, op_Index = 0\<rparr>,
      in_SignatureScript = [], in_Witness = [], in_Sequence = -1\<rparr>],
    tx_TxOut = [ex_out], tx_LockTime = 2\<rparr>"

text \<open>The cache is made for one entry per map.\<close>

definition ex_cache0 :: utxoCache where
  "ex_cache0 = newUtxoCache (\<lambda>_. 2) 1000"

lemma ex_fetch: "dbFetchUtxoEntry parse unc ex_db op = Ret None"
  by (simp add: dbFetchUtxoEntry_def ex_db_def)

lemma ex_cache0_ok: "cache_ok E ex_db ex_cache0" "tracked ex_cache0" "coins E ex_db ex_cache0 = Map.empty"
  by (simp_all add: cache_ok_def ex_cache0_def newUtxoCache_def ms_ok_def rows_ok_def ex_fetch ms_get_def tracked_def
      coins_def rows_def fun_eq_iff)

text \<open>
  C6: connecting the transactions of a block to the cache refines taking the inputs out of the set of coins and
  putting the outputs in. Whenever the specification spends every input, the code does not fail, it reports the
  spent outputs in the order of the inputs, and the cache, whatever of it is cached, fresh or already spent,
  stands for the specified set afterwards, with its invariant kept.
\<close>

theorem connectTransactions_refines:
  assumes "cache_ok E db s" "env_ok E" "list_all (out_ok E db) txs" "connect_coins E h txs (coins E db s) = Some (C, ss)"
  shows "\<exists>s'. connectTransactions E db txs h (Some stxos) s = (s', Ret (Some (stxos @ ss)))
    \<and> cache_ok E db s' \<and> coins E db s' = C \<and> (tracked s \<longrightarrow> tracked s')"
  using connectTransactions_refines_spec [OF assms, of "Some stxos"] by simp

lemma ex_ops: "out_op ex_env ex_coinbase i = \<lparr>op_Hash = replicate 32 1, op_Index = word_of_nat i\<rparr>"
  "out_op ex_env ex_spend i = \<lparr>op_Hash = replicate 32 2, op_Index = word_of_nat i\<rparr>"
  by (simp_all add: out_op_def ex_env_def ex_coinbase_def ex_spend_def)

lemma ex_is_coinbase: "IsCoinBaseTx ex_coinbase" "\<not> IsCoinBaseTx ex_spend"
  by (simp_all add: IsCoinBaseTx_def ex_coinbase_def ex_spend_def zero_hash_def)

lemma ex_outs_ok: "list_all (out_ok ex_env ex_db) [ex_coinbase, ex_spend]"
  by (simp add: out_ok_def rows_def ex_fetch ex_coinbase_def ex_spend_def ex_out_def amount_fits_def script_fits_def)

abbreviation (input) ex_op :: "byte \<Rightarrow> u32 \<Rightarrow> out_point" where
  "ex_op b i \<equiv> \<lparr>op_Hash = replicate 32 b, op_Index = i\<rparr>"

lemma ex_connect:
  "connect_coins ex_env 1 [ex_coinbase, ex_spend] Map.empty =
    Some ([ex_op 1 1 \<mapsto> row_of (fresh_entry ex_out True 1), ex_op 2 0 \<mapsto> row_of (fresh_entry ex_out False 1)],
      [stxo_of (fresh_entry ex_out True 1)])"
proof -
  have o: "tx_TxOut ex_coinbase = [ex_out, ex_out]" "tx_TxOut ex_spend = [ex_out]" "out_PkScript ex_out = [OP_1]"
    "tx_TxIn ex_spend = [\<lparr>in_PreviousOutPoint = ex_op 1 0, in_SignatureScript = [], in_Witness = [], in_Sequence = -1\<rparr>]"
    by (simp_all add: ex_coinbase_def ex_spend_def ex_out_def)
  show ?thesis
    by (simp add: ex_is_coinbase add_coins_def o ex_ops ex_script fun_eq_iff)
qed

theorem connectTransactions_refines_witness:
  "\<exists>s'. connectTransactions ex_env ex_db [ex_coinbase, ex_spend] 1 (Some []) ex_cache0
      = (s', Ret (Some [stxo_of (fresh_entry ex_out True 1)]))
    \<and> coins ex_env ex_db s' (ex_op 1 0) = None \<and> coins ex_env ex_db s' (ex_op 1 1) \<noteq> None"
  using connectTransactions_refines [OF ex_cache0_ok(1) ex_env_ok ex_outs_ok, of 1 _ _ "[]"] ex_connect
  by (fastforce simp: ex_cache0_ok(3))

definition ex_cache1 :: utxoCache where
  "ex_cache1 = addTxOuts ex_env ex_coinbase 1 ex_cache0"

lemma ex_cache1_maps:
  "ms_maps (uc_cachedEntries ex_cache1) = [[(ex_op 1 0, Some (fresh_entry ex_out True 1))], [(ex_op 1 1, Some (fresh_entry ex_out True 1))]]"
  "uc_hotFloor ex_cache1 = 0"
proof -
  have o: "tx_TxOut ex_coinbase = [ex_out, ex_out]" "out_PkScript ex_out = [OP_1]" by (simp_all add: ex_coinbase_def ex_out_def)
  show "ms_maps (uc_cachedEntries ex_cache1) = [[(ex_op 1 0, Some (fresh_entry ex_out True 1))], [(ex_op 1 1, Some (fresh_entry ex_out True 1))]]"
    "uc_hotFloor ex_cache1 = 0"
    using ex_ops(1) [unfolded out_op_def]
    by (simp_all add: ex_cache1_def addTxOuts_def o ex_is_coinbase addTxOut_def ex_script Let_def add_delta_def ex_cache0_def newUtxoCache_def
      ms_put_def)
qed

lemma ex_cache1_ok: "cache_ok ex_env ex_db ex_cache1"
  "coins ex_env ex_db ex_cache1 (ex_op 1 1) = Some (row_of (fresh_entry ex_out True 1))"
proof -
  have h: "\<forall>tx. is_hash (env_txHash ex_env tx)" using ex_env_ok by (simp add: env_ok_def)
  have o: "out_ok ex_env ex_db ex_coinbase" using ex_outs_ok by simp
  have a: "ex_cache1 = fold (\<lambda>(i, out). addTxOut ex_env (out_op ex_env ex_coinbase i) out True 1) (enumerate 0 (tx_TxOut ex_coinbase)) ex_cache0"
    by (simp add: ex_cache1_def addTxOuts_def out_op_def ex_is_coinbase)
  show "cache_ok ex_env ex_db ex_cache1"
    unfolding a using addTxOuts_fold [OF ex_cache0_ok(1) h o [unfolded out_ok_def]] by blast
  show "coins ex_env ex_db ex_cache1 (ex_op 1 1) = Some (row_of (fresh_entry ex_out True 1))"
    by (simp add: coins_def op_ok_def is_hash_def ms_get_def ex_cache1_maps)
qed

theorem writeCache_exact_witness:
  "\<exists>s' db'. writeCache ex_env 7 (replicate 32 9) True ex_cache1 ex_db = Inr (s', db')
    \<and> coins ex_env ex_db ex_cache1 (ex_op 1 1) = Some (row_of (fresh_entry ex_out True 1))
    \<and> rows ex_parse ex_unc db' (ex_op 1 1) = Some (row_of (fresh_entry ex_out True 1))
    \<and> coins ex_env db' s' (ex_op 1 1) = None"
proof -
  have l: "flush_loses ex_cache1 (ex_op 1 1)" by (simp add: flush_loses_def ex_cache1_maps hot_def word_sle_eq)
  have "op_ok (ex_op 1 1)" by (simp add: op_ok_def is_hash_def)
  moreover have "env_parse ex_env = ex_parse" "env_unc ex_env = ex_unc" by (simp_all add: ex_env_def)
  ultimately show ?thesis
    using writeCache_exact [OF ex_cache1_ok(1) ex_env_ok, of True 7 "replicate 32 9"] l ex_cache1_ok(2) by auto
qed

text \<open>
  C20: with deltas tracked, as the asynchronous writer needs them, a coin whose row is in the database comes back
  after it was spent. Spending it marks the cached entry, \<open>takeDelta\<close> then drops that entry, and until the writer
  has applied the delta the next lookup reads the old row: the coin is in the set again, and spending it a
  second time succeeds.
\<close>

theorem takeDelta_revives:
  assumes ok: "cache_ok E db s" and t: "uc_trackDeltas s" "uc_deltaPoints s = []"
    and op: "in_PreviousOutPoint txIn = op" "coins E db s op = Some r" "rows (env_parse E) (env_unc E) db op = Some r"
  shows "\<exists>s1 s2 s3. addTxIn E db txIn None s = (s1, Ret None) \<and> coins E db s1 op = None
    \<and> takeDelta s1 = ([\<lparr>ud_op = op, ud_tombstone = True, ud_entry = None\<rparr>], s2) \<and> coins E db s2 op = Some r
    \<and> addTxIn E db txIn None s2 = (s3, Ret None)"
proof -
  define d where "d = \<lparr>ud_op = op, ud_tombstone = True, ud_entry = None :: utxo_entry option\<rparr>"
  have c: "coins E db s (in_PreviousOutPoint txIn) = Some r" using op by simp
  obtain s1 where s1: "addTxIn E db txIn None s = (s1, Ret None)" "cache_ok E db s1" "coins E db s1 = (coins E db s)(op := None)"
    "uc_trackDeltas s1" "uc_deltaPoints s1 = [d]"
    by (rule addTxIn_refines [OF ok c, of None]) (rule that, use t op(1) in \<open>simp_all add: d_def\<close>)
  have m: "ms_ok (uc_cachedEntries s1)" using s1(2) by (simp add: cache_ok_def)
  obtain s2 where s2: "takeDelta s1 = ([d], s2)" "cached s2 = (cached s1)(op := None)" "ms_ok (uc_cachedEntries s2)"
    using s1(4,5) m entries.get_del [OF m] entries.del_ok [OF m]
    by (cases "cached s1 op") (auto simp: takeDelta_def take_one_def d_def Let_def fun_upd_idem)
  have ok2: "cache_ok E db s2" using s1(2) s2(2,3) by (auto simp: cache_ok_def split: if_splits)
  have "op_ok op" using op(2) by (auto simp: coins_def split: if_splits)
  then have c2: "coins E db s2 (in_PreviousOutPoint txIn) = Some r" using s2(2) op by (simp add: coins_def)
  obtain s3 where "addTxIn E db txIn None s2 = (s3, Ret None)" using addTxIn_refines [OF ok2 c2, of None] by auto
  then show ?thesis using s1(1,3) s2(1) c2 op(1) by (auto simp: d_def)
qed

text \<open>A coin that a flush has written, and the cache after it: nothing is cached that the row does not say.\<close>

definition ex_db2 :: chain_db where
  "ex_db2 = projr (dbPutUtxoEntry ex_parse (ex_op 1 0) (Some (fresh_entry ex_out True 1)) ex_db)"

definition ex_cache2 :: utxoCache where
  "ex_cache2 = ex_cache0\<lparr>uc_trackDeltas := True\<rparr>"

lemma ex_db2_rows: "rows_ok ex_parse ex_unc ex_db2" "rows ex_parse ex_unc ex_db2 (ex_op 1 0) = Some (row_of (fresh_entry ex_out True 1))"
proof -
  have st: "storable (fresh_entry ex_out True 1)" "\<not> IsSpent (fresh_entry ex_out True 1)"
    by (simp_all add: storable_def amount_fits_def script_fits_def ex_out_def)
  have r: "rows_ok (env_parse ex_env) (env_unc ex_env) ex_db" by (simp add: rows_ok_def ex_fetch)
  have o: "op_ok (ex_op 1 0)" by (simp add: op_ok_def is_hash_def)
  have e: "env_parse ex_env = ex_parse" "env_unc ex_env = ex_unc" by (simp_all add: ex_env_def)
  obtain db' where d: "dbPutUtxoEntry (env_parse ex_env) (ex_op 1 0) (Some (fresh_entry ex_out True 1)) ex_db = Inr db'"
    "rows_ok (env_parse ex_env) (env_unc ex_env) db'"
    "\<And>op'. op_ok op' \<Longrightarrow> stored ex_env db' op' = (if op' = ex_op 1 0 then Some (row_of (fresh_entry ex_out True 1)) else stored ex_env ex_db op')"
    by (rule put_row [OF r o ex_env_ok st]) (rule that)
  have "ex_db2 = db'" using d(1) by (simp add: ex_db2_def e)
  then show "rows_ok ex_parse ex_unc ex_db2" "rows ex_parse ex_unc ex_db2 (ex_op 1 0) = Some (row_of (fresh_entry ex_out True 1))"
    using d(2) d(3) [OF o] by (simp_all add: e)
qed

theorem takeDelta_revives_witness:
  "\<exists>s1 s2 s3. addTxIn ex_env ex_db2 (hd (tx_TxIn ex_spend)) None ex_cache2 = (s1, Ret None)
    \<and> snd (takeDelta s1) = s2 \<and> coins ex_env ex_db2 s1 (ex_op 1 0) = None
    \<and> addTxIn ex_env ex_db2 (hd (tx_TxIn ex_spend)) None s2 = (s3, Ret None)"
proof -
  have e: "env_parse ex_env = ex_parse" "env_unc ex_env = ex_unc" by (simp_all add: ex_env_def)
  have ok: "cache_ok ex_env ex_db2 ex_cache2"
    using ex_db2_rows(1) by (simp add: cache_ok_def ex_cache2_def ex_cache0_def newUtxoCache_def ms_ok_def ms_get_def e)
  have c: "coins ex_env ex_db2 ex_cache2 (ex_op 1 0) = Some (row_of (fresh_entry ex_out True 1))"
    using ex_db2_rows(2) by (simp add: coins_def op_ok_def is_hash_def ex_cache2_def ex_cache0_def newUtxoCache_def ms_get_def e)
  have i: "in_PreviousOutPoint (hd (tx_TxIn ex_spend)) = ex_op 1 0" by (simp add: ex_spend_def)
  have t: "uc_trackDeltas ex_cache2" "uc_deltaPoints ex_cache2 = []" by (simp_all add: ex_cache2_def ex_cache0_def newUtxoCache_def)
  show ?thesis using takeDelta_revives [OF ok t i c] ex_db2_rows(2) by (auto simp: e)
qed

end
