(* ===== verification/Chain_Rows.thy ===== *)
theory Chain_Rows
  imports Utxo_Cache
begin

text \<open>
  The remaining rows of \<open>blockchain/chainio.go\<close>: block headers with their status, the best chain state, the best
  header state, the snapshot of the best tip and the write watermark. The work sum, a \<open>big.Int\<close>, is a natural
  number; its \<open>Bytes\<close> are its big-endian digits.
\<close>

section \<open>Numbers\<close>

function nat_bytes :: "nat \<Rightarrow> bytes" where
  "nat_bytes n = (if n = 0 then [] else nat_bytes (n div 256) @ [word_of_nat (n mod 256)])"
  by pat_completeness auto

termination nat_bytes
  by (relation "measure id") auto

declare nat_bytes.simps [simp del]

definition set_bytes :: "bytes \<Rightarrow> nat" where
  "set_bytes bs = fold (\<lambda>b n. n * 256 + unat b) bs 0"

definition be_bytes4 :: "u32 \<Rightarrow> bytes" where
  "be_bytes4 w = rev (le_bytes 4 w)"

section \<open>Block headers\<close>

type_synonym blockStatus = "8 word"

definition statusDataStored :: blockStatus where
  "statusDataStored = 1"

definition statusValid :: blockStatus where
  "statusValid = 2"

definition statusValidateFailed :: blockStatus where
  "statusValidateFailed = 4"

definition statusInvalidAncestor :: blockStatus where
  "statusInvalidAncestor = 8"

definition statusHeaderStored :: blockStatus where
  "statusHeaderStored = 16"

definition HaveData :: "blockStatus \<Rightarrow> bool" where
  "HaveData status \<longleftrightarrow> status AND statusDataStored \<noteq> 0"

definition HaveHeader :: "blockStatus \<Rightarrow> bool" where
  "HaveHeader status \<longleftrightarrow> status AND statusHeaderStored \<noteq> 0"

definition KnownValid :: "blockStatus \<Rightarrow> bool" where
  "KnownValid status \<longleftrightarrow> status AND statusValid \<noteq> 0"

definition KnownInvalid :: "blockStatus \<Rightarrow> bool" where
  "KnownInvalid status \<longleftrightarrow> status AND (statusValidateFailed OR statusInvalidAncestor) \<noteq> 0"

text \<open>The fields of a node that its rows are made from.\<close>

record node_row =
  nr_hash :: hash
  nr_height :: i32
  nr_version :: i32
  nr_bits :: u32
  nr_nonce :: u32
  nr_timestamp :: int
  nr_merkleRoot :: hash
  nr_parentHash :: hash
  nr_status :: blockStatus
  nr_hashIndex :: bool
  nr_heightIndex :: bool
  nr_heightIndexChain :: bool

definition node_Header :: "node_row \<Rightarrow> block_header" where
  "node_Header node = \<lparr>bh_Version = nr_version node, bh_PrevBlock = nr_parentHash node, bh_MerkleRoot = nr_merkleRoot node,
     bh_Timestamp = nr_timestamp node, bh_Bits = nr_bits node, bh_Nonce = nr_nonce node\<rparr>"

definition blockIndexKey :: "hash \<Rightarrow> u32 \<Rightarrow> bytes" where
  "blockIndexKey blockHash blockHeight = be_bytes4 blockHeight @ blockHash"

definition dbStoreBlockNode :: "node_row \<Rightarrow> chain_db \<Rightarrow> chain_db" where
  "dbStoreBlockNode node db =
    db\<lparr>cd_blockIdx := RBT.insert (blockIndexKey (nr_hash node) (nr_height node))
         (writeBlockHeader (node_Header node) @ [nr_status node]) (cd_blockIdx db)\<rparr>"

definition dbRemoveBlockNode :: "hash \<Rightarrow> i32 \<Rightarrow> chain_db \<Rightarrow> chain_db" where
  "dbRemoveBlockNode h height db = db\<lparr>cd_blockIdx := RBT.delete (blockIndexKey h height) (cd_blockIdx db)\<rparr>"

definition deserializeBlockRow :: "bytes \<Rightarrow> chain_error + block_header \<times> blockStatus" where
  "deserializeBlockRow blockRow =
    (case readBlockHeader blockRow of
       Inl _ \<Rightarrow> Inl ErrDecode
     | Inr (header, r) \<Rightarrow> (case r of [] \<Rightarrow> Inl ErrDecode | status # _ \<Rightarrow> Inr (header, status)))"

definition dbFetchBlockRowByHash ::
  "chain_db \<Rightarrow> hash \<Rightarrow> (chain_error, (block_header \<times> blockStatus \<times> i32) option) outcome" where
  "dbFetchBlockRowByHash db h =
    obind (dbFetchHeightByHash db h) (\<lambda>height.
      case RBT.lookup (cd_blockIdx db) (blockIndexKey h height) of
        None \<Rightarrow> Ret None
      | Some s \<Rightarrow> (case deserializeBlockRow s of Inl e \<Rightarrow> Fail e | Inr (header, status) \<Rightarrow> Ret (Some (header, status, height))))"

definition dbFetchBlockRowByHeight ::
  "chain_db \<Rightarrow> i32 \<Rightarrow> (chain_error, (block_header \<times> blockStatus \<times> i32) option) outcome" where
  "dbFetchBlockRowByHeight db height =
    (case dbFetchHashByHeight db height of Inl e \<Rightarrow> Fail e | Inr h \<Rightarrow> dbFetchBlockRowByHash db h)"

section \<open>The best tip\<close>

record bestChainState =
  bcs_hash :: hash
  bcs_height :: u32
  bcs_totalTxns :: u64
  bcs_workSum :: nat

definition serializeBestChainState :: "bestChainState \<Rightarrow> bytes" where
  "serializeBestChainState state =
    (let workSumBytes = nat_bytes (bcs_workSum state) in
     bcs_hash state @ le_bytes 4 (bcs_height state) @ le_bytes 8 (bcs_totalTxns state)
       @ le_bytes 4 (word_of_nat (length workSumBytes) :: u32) @ workSumBytes)"

definition deserializeBestChainState :: "bytes \<Rightarrow> chain_error + bestChainState" where
  "deserializeBestChainState serializedData =
    (if length serializedData < 32 + 16 then Inl ErrCorruption
     else
       let workSumBytesLen = unat (le_word (slice 44 48 serializedData) :: u32) in
       if length (drop 48 serializedData) < workSumBytesLen then Inl ErrCorruption
       else Inr \<lparr>bcs_hash = take 32 serializedData, bcs_height = le_word (slice 32 36 serializedData),
         bcs_totalTxns = le_word (slice 36 44 serializedData),
         bcs_workSum = set_bytes (take workSumBytesLen (drop 48 serializedData))\<rparr>)"

definition chainStateKeyName :: bytes where
  "chainStateKeyName = bytes_of ''chainstate''"

record best_state =
  bs_Hash :: hash
  bs_Height :: i32
  bs_TotalTxns :: u64

definition dbPutBestState :: "best_state \<Rightarrow> nat \<Rightarrow> chain_db \<Rightarrow> chain_db" where
  "dbPutBestState snapshot workSum db =
    db\<lparr>cd_meta := RBT.insert chainStateKeyName
         (serializeBestChainState \<lparr>bcs_hash = bs_Hash snapshot, bcs_height = bs_Height snapshot,
            bcs_totalTxns = bs_TotalTxns snapshot, bcs_workSum = workSum\<rparr>) (cd_meta db)\<rparr>"

record bestHeaderState =
  bhs_hash :: hash
  bhs_height :: u32

definition serializeBestHeaderState :: "bestHeaderState \<Rightarrow> bytes" where
  "serializeBestHeaderState state = bhs_hash state @ le_bytes 4 (bhs_height state)"

definition deserializeBestHeaderState :: "bytes \<Rightarrow> chain_error + bestHeaderState" where
  "deserializeBestHeaderState serializedData =
    (if length serializedData < 32 + 4 then Inl ErrCorruption
     else Inr \<lparr>bhs_hash = take 32 serializedData, bhs_height = le_word (slice 32 36 serializedData)\<rparr>)"

definition bestHeaderStateKeyName :: bytes where
  "bestHeaderStateKeyName = bytes_of ''headerchainstate''"

definition dbPutBestHeaderState :: "hash \<Rightarrow> i32 \<Rightarrow> chain_db \<Rightarrow> chain_db" where
  "dbPutBestHeaderState h height db =
    db\<lparr>cd_meta := RBT.insert bestHeaderStateKeyName (serializeBestHeaderState \<lparr>bhs_hash = h, bhs_height = height\<rparr>) (cd_meta db)\<rparr>"

definition dbFetchBestHeaderState :: "chain_db \<Rightarrow> chain_error + bestHeaderState option" where
  "dbFetchBestHeaderState db =
    (case RBT.lookup (cd_meta db) bestHeaderStateKeyName of
       None \<Rightarrow> Inr None
     | Some s \<Rightarrow> (case deserializeBestHeaderState s of Inl e \<Rightarrow> Inl e | Inr st \<Rightarrow> Inr (Some st)))"

definition blockDownloadStateKeyName :: bytes where
  "blockDownloadStateKeyName = bytes_of ''blockdownloadstate''"

definition dbPutBestBlockDownloadState :: "hash \<Rightarrow> i32 \<Rightarrow> chain_db \<Rightarrow> chain_db" where
  "dbPutBestBlockDownloadState h height db =
    db\<lparr>cd_meta := RBT.insert blockDownloadStateKeyName (serializeBestHeaderState \<lparr>bhs_hash = h, bhs_height = height\<rparr>) (cd_meta db)\<rparr>"

definition dbFetchBestBlockDownloadState :: "chain_db \<Rightarrow> chain_error + bestHeaderState option" where
  "dbFetchBestBlockDownloadState db =
    (case RBT.lookup (cd_meta db) blockDownloadStateKeyName of
       None \<Rightarrow> Inr None
     | Some s \<Rightarrow> (case deserializeBestHeaderState s of Inl e \<Rightarrow> Inl e | Inr st \<Rightarrow> Inr (Some st)))"

definition bestTipSnapshotKey :: bytes where
  "bestTipSnapshotKey = 0 # bytes_of ''best_tip_snapshot''"

text \<open>
  The work goes to the end of the 68 bytes; a work of more than 32 bytes runs into the fields before it, and one
  of more than 68 bytes makes the slice expression panic.
\<close>

definition dbPutBestTipSnapshot :: "hash \<Rightarrow> i32 \<Rightarrow> nat \<Rightarrow> chain_db \<Rightarrow> (chain_error, chain_db) outcome" where
  "dbPutBestTipSnapshot h height work db =
    (let wb = nat_bytes work; raw = take 32 h @ le_bytes 4 height @ replicate 32 0 in
     if length wb > 68 then Panic
     else Ret (db\<lparr>cd_blockIdx := RBT.insert bestTipSnapshotKey (take (68 - length wb) raw @ wb) (cd_blockIdx db)\<rparr>))"

definition dbFetchBestTipSnapshot :: "chain_db \<Rightarrow> (hash \<times> i32 \<times> nat) option" where
  "dbFetchBestTipSnapshot db =
    (case RBT.lookup (cd_blockIdx db) bestTipSnapshotKey of
       None \<Rightarrow> None
     | Some raw \<Rightarrow>
        if length raw \<noteq> 68 then None
        else Some (take 32 raw, le_word (slice 32 36 raw), set_bytes (slice 36 68 raw)))"

text \<open>The watermark is the one value of its bucket.\<close>

definition dbPutWriteWatermark :: "i32 \<Rightarrow> chain_db \<Rightarrow> chain_db" where
  "dbPutWriteWatermark height db = db\<lparr>cd_watermark := Some height\<rparr>"

definition loadWriteWatermark :: "chain_db \<Rightarrow> i32" where
  "loadWriteWatermark db = (case cd_watermark db of None \<Rightarrow> -1 | Some h \<Rightarrow> h)"

end
