(* ===== verification/Write_Queue.thy ===== *)
theory Write_Queue
  imports Chain_Rows
begin

text \<open>
  The asynchronous writer of the chain state, \<open>blockchain/writequeue.go\<close>. An item carries what connecting one
  block has to write; a batch of items is one database transaction. The queue, its writer and a concurrent
  \<open>stop\<close> are a transition system: a step is one atomic action of one of them. The channel is a list in the order
  of sending. The optional indexes are the parameter \<open>im\<close>, what the index manager does with a block.
\<close>

section \<open>Items and batches\<close>

definition writeQueueCap :: nat where
  "writeQueueCap = 64"

definition writeQueueBatchSize :: nat where
  "writeQueueBatchSize = 32"

record write_item =
  wi_height :: i32
  wi_block :: "chain_block option"
  wi_nodeRows :: "node_row list"
  wi_bestTipHash :: hash
  wi_tipHeight :: i32
  wi_tipWork :: nat
  wi_bestState :: "best_state option"
  wi_blockHash :: hash
  wi_stxos :: "spent_tx_out list"
  wi_bestHeaderHash :: hash
  wi_bestHeaderHeight :: i32
  wi_utxoDelta :: "utxo_delta list"

type_synonym index_manager = "chain_block \<Rightarrow> spent_tx_out list \<Rightarrow> chain_db \<Rightarrow> chain_error + chain_db"

definition writeNodeRowSnapshot :: "node_row \<Rightarrow> chain_db \<Rightarrow> chain_db" where
  "writeNodeRowSnapshot r db =
    (let db = dbStoreBlockNode r db;
       db = (if nr_hashIndex r then dbPutHashIndex (nr_hash r) (nr_height r) db else db)
     in if nr_heightIndex r then dbPutHeightIndexGuarded (nr_height r) (nr_hash r) (nr_heightIndexChain r) db else db)"

text \<open>A nil best state is dereferenced.\<close>

definition writeItemRows ::
  "'k cache_env \<Rightarrow> index_manager option \<Rightarrow> write_item \<Rightarrow> chain_db \<Rightarrow> (chain_error, chain_db) outcome" where
  "writeItemRows E im item db =
    (let db = fold writeNodeRowSnapshot (wi_nodeRows item) db;
       db = (if 0 \<le>s wi_bestHeaderHeight item
             then dbPutBestHeaderState (wi_bestHeaderHash item) (wi_bestHeaderHeight item) db else db)
     in obind (dbPutBestTipSnapshot (wi_bestTipHash item) (wi_tipHeight item) (wi_tipWork item) db) (\<lambda>db.
       case wi_bestState item of
         None \<Rightarrow> Panic
       | Some st \<Rightarrow>
          (let db = dbPutBestState st (wi_tipWork item) db;
             db = dbPutBlockIndex (wi_blockHash item) (wi_height item) db;
             db = dbPutSpendJournalEntry (env_parse E) (wi_blockHash item) (wi_stxos item) db
           in case (im, wi_block item) of
                (Some f, Some b) \<Rightarrow> (case f b (wi_stxos item) db of Inl e \<Rightarrow> Fail e | Inr db \<Rightarrow> Ret db)
              | _ \<Rightarrow> Ret db)))"

fun writeItemDeltas :: "'k cache_env \<Rightarrow> utxo_delta list \<Rightarrow> chain_db \<Rightarrow> (chain_error, chain_db) outcome" where
  "writeItemDeltas E [] db = Ret db"
| "writeItemDeltas E (d # ds) db =
    (if ud_tombstone d \<or> ud_entry d = None then writeItemDeltas E ds (dbDeleteUtxoEntry (ud_op d) db)
     else case dbPutUtxoEntry (env_parse E) (ud_op d) (ud_entry d) db of
       Inl e \<Rightarrow> Fail e
     | Inr db' \<Rightarrow> writeItemDeltas E ds db')"

fun write_items :: "'k cache_env \<Rightarrow> index_manager option \<Rightarrow> write_item list \<Rightarrow> chain_db \<Rightarrow> (chain_error, chain_db) outcome" where
  "write_items E im [] db = Ret db"
| "write_items E im (item # items) db =
    obind (writeItemRows E im item db) (\<lambda>db. obind (writeItemDeltas E (wi_utxoDelta item) db) (write_items E im items))"

definition batch_tx :: "'k cache_env \<Rightarrow> index_manager option \<Rightarrow> write_item list \<Rightarrow> chain_db \<Rightarrow> (chain_error, chain_db) outcome" where
  "batch_tx E im items db =
    obind (write_items E im items db) (\<lambda>db.
      let item = last items;
        db = (case wi_bestState item of None \<Rightarrow> db | Some st \<Rightarrow> dbPutUtxoStateConsistency (bs_Hash st) db)
      in Ret (dbPutWriteWatermark (wi_height item) db))"

text \<open>An error rolls the transaction back and is logged; the items are gone.\<close>

definition flushBatch :: "'k cache_env \<Rightarrow> index_manager option \<Rightarrow> write_item list \<Rightarrow> chain_db \<Rightarrow> (chain_error, chain_db) outcome" where
  "flushBatch E im items db =
    (if items = [] then Ret db
     else case batch_tx E im items db of Panic \<Rightarrow> Panic | Fail _ \<Rightarrow> Ret db | Ret db' \<Rightarrow> Ret db')"

section \<open>The queue\<close>

text \<open>
  \<open>q_batch\<close> is what the writer has taken and not written; \<open>q_tail\<close> what \<open>stop\<close> has drained, while it drains.
  \<open>q_sent\<close> records the items in the order they were sent, without those that a barrier dropped, and \<open>q_done\<close>
  those handed to the database.
\<close>

record wq =
  q_items :: "write_item list"
  q_batch :: "write_item list"
  q_tail :: "write_item list option"
  q_stopped :: bool
  q_writer_done :: bool
  q_db :: chain_db
  q_sent :: "write_item list"
  q_done :: "write_item list"


definition below :: "i32 \<Rightarrow> write_item list \<Rightarrow> write_item list" where
  "below maxHeight items = filter (\<lambda>it. maxHeight <s 0 \<or> wi_height it \<le>s maxHeight) items"

text \<open>
  \<open>A\<close> is the set of items that connecting blocks may send. The requester of a barrier holds the chain lock, so
  nothing is sent while the writer drains the channel, and the barrier is one step. A send or a barrier that
  was begun before \<open>stop\<close> closed its channel and is chosen afterwards is not a step of the model.
\<close>

inductive wq_step :: "'k cache_env \<Rightarrow> index_manager option \<Rightarrow> write_item set \<Rightarrow> wq \<Rightarrow> wq \<Rightarrow> bool" for E im A where
  enqueue: "item \<in> A \<Longrightarrow> \<not> q_stopped q \<Longrightarrow> length (q_items q) < writeQueueCap \<Longrightarrow>
    wq_step E im A q (q\<lparr>q_items := q_items q @ [item], q_sent := q_sent q @ [item]\<rparr>)"
| writer_take: "\<not> q_writer_done q \<Longrightarrow> q_items q = item # rest \<Longrightarrow> length (q_batch q @ [item]) < writeQueueBatchSize \<Longrightarrow>
    wq_step E im A q (q\<lparr>q_items := rest, q_batch := q_batch q @ [item]\<rparr>)"
| writer_flush: "\<not> q_writer_done q \<Longrightarrow> q_items q = item # rest \<Longrightarrow> length (q_batch q @ [item]) \<ge> writeQueueBatchSize \<Longrightarrow>
    flushBatch E im (q_batch q @ [item]) (q_db q) = Ret db \<Longrightarrow>
    wq_step E im A q (q\<lparr>q_items := rest, q_batch := [], q_db := db, q_done := q_done q @ q_batch q @ [item]\<rparr>)"
| sync: "\<not> q_stopped q \<Longrightarrow> flushBatch E im (below maxHeight (q_batch q)) (q_db q) = Ret db \<Longrightarrow>
    flushBatch E im (below maxHeight (q_items q)) db = Ret db' \<Longrightarrow>
    wq_step E im A q (q\<lparr>q_items := [], q_batch := [], q_db := db',
      q_done := q_done q @ below maxHeight (q_batch q) @ below maxHeight (q_items q),
      q_sent := q_done q @ below maxHeight (q_batch q) @ below maxHeight (q_items q)\<rparr>)"
| stop_begin: "\<not> q_stopped q \<Longrightarrow> wq_step E im A q (q\<lparr>q_stopped := True, q_tail := Some []\<rparr>)"
| stop_drain: "q_tail q = Some t \<Longrightarrow> q_items q = item # rest \<Longrightarrow>
    wq_step E im A q (q\<lparr>q_items := rest, q_tail := Some (t @ [item])\<rparr>)"
| stop_flush: "q_tail q = Some t \<Longrightarrow> q_items q = [] \<Longrightarrow> flushBatch E im t (q_db q) = Ret db \<Longrightarrow>
    wq_step E im A q (q\<lparr>q_tail := None, q_db := db, q_done := q_done q @ t\<rparr>)"
| writer_stop: "q_stopped q \<Longrightarrow> \<not> q_writer_done q \<Longrightarrow> flushBatch E im (q_batch q) (q_db q) = Ret db \<Longrightarrow>
    wq_step E im A q (q\<lparr>q_batch := [], q_writer_done := True, q_db := db, q_done := q_done q @ q_batch q\<rparr>)"


inductive_cases wq_stepE: "wq_step E im A q q'"

section \<open>What a batch writes\<close>




definition apply_delta :: "utxo_delta \<Rightarrow> (out_point \<rightharpoonup> utxo_entry) \<Rightarrow> out_point \<rightharpoonup> utxo_entry" where
  "apply_delta d C = C(ud_op d := if ud_tombstone d then None else map_option row_of (ud_entry d))"

definition apply_items :: "write_item list \<Rightarrow> (out_point \<rightharpoonup> utxo_entry) \<Rightarrow> out_point \<rightharpoonup> utxo_entry" where
  "apply_items items C = fold apply_delta (concat (map wi_utxoDelta items)) C"








section \<open>The queue keeps the order\<close>


lemma apply_items_append [simp]: "apply_items (a @ b) C = apply_items b (apply_items a C)"
  by (simp add: apply_items_def)








section \<open>An example: a coin is created in one block and spent in the next\<close>












end
