(* ===== verification/Script_Stack.thy ===== *)
theory Script_Stack
  imports Wire_Tx Script_Analysis
begin

text \<open>
  The numbers of the script language, \<open>txscript/scriptnum.go\<close>, and the stack they live on,
  \<open>txscript/stack.go\<close>. A \<open>scriptNum\<close> is an \<^typ>\<open>int\<close>, wrapped to 64 bits where the code computes with it. A stack
  is the list of its items with the top item first, so the last element of the Go slice is the head. Depths and indexes are
  \<open>int32\<close> in the code; a stack never has more than a few thousand items, and they are \<^typ>\<open>int\<close> here.

  The lemmas show that the encoding is a bijection between the numbers and the minimally encoded
  byte strings, and give the stack operations as the list transformations that their comments draw.
\<close>

unbundle bit_operations_syntax

section \<open>Errors\<close>

text \<open>
  A script error carries an \<open>ErrorCode\<close>, an integer that \<open>txscript/error.go\<close> counts up with \<open>iota\<close>; the codes that executing a
  script returns are named below. \<open>ErrParse\<close> is an error of the tokenizer. \<open>ErrOther\<close> stands for a Go error that is
  not a \<open>txscript.Error\<close>, which signature checks treat differently.
\<close>

datatype engine_error = ErrParse script_error | ErrOther | ScriptErr nat

abbreviation (input) ErrInvalidFlags :: engine_error where "ErrInvalidFlags \<equiv> ScriptErr 1"
abbreviation (input) ErrInvalidIndex :: engine_error where "ErrInvalidIndex \<equiv> ScriptErr 2"
abbreviation (input) ErrEarlyReturn :: engine_error where "ErrEarlyReturn \<equiv> ScriptErr 8"
abbreviation (input) ErrEmptyStack :: engine_error where "ErrEmptyStack \<equiv> ScriptErr 9"
abbreviation (input) ErrEvalFalse :: engine_error where "ErrEvalFalse \<equiv> ScriptErr 10"
abbreviation (input) ErrScriptUnfinished :: engine_error where "ErrScriptUnfinished \<equiv> ScriptErr 11"
abbreviation (input) ErrInvalidProgramCounter :: engine_error where "ErrInvalidProgramCounter \<equiv> ScriptErr 12"
abbreviation (input) ErrScriptTooBig :: engine_error where "ErrScriptTooBig \<equiv> ScriptErr 13"
abbreviation (input) ErrElementTooBig :: engine_error where "ErrElementTooBig \<equiv> ScriptErr 14"
abbreviation (input) ErrTooManyOperations :: engine_error where "ErrTooManyOperations \<equiv> ScriptErr 15"
abbreviation (input) ErrStackOverflow :: engine_error where "ErrStackOverflow \<equiv> ScriptErr 16"
abbreviation (input) ErrInvalidPubKeyCount :: engine_error where "ErrInvalidPubKeyCount \<equiv> ScriptErr 17"
abbreviation (input) ErrInvalidSignatureCount :: engine_error where "ErrInvalidSignatureCount \<equiv> ScriptErr 18"
abbreviation (input) ErrNumberTooBig :: engine_error where "ErrNumberTooBig \<equiv> ScriptErr 19"
abbreviation (input) ErrVerify :: engine_error where "ErrVerify \<equiv> ScriptErr 20"
abbreviation (input) ErrEqualVerify :: engine_error where "ErrEqualVerify \<equiv> ScriptErr 21"
abbreviation (input) ErrNumEqualVerify :: engine_error where "ErrNumEqualVerify \<equiv> ScriptErr 22"
abbreviation (input) ErrCheckSigVerify :: engine_error where "ErrCheckSigVerify \<equiv> ScriptErr 23"
abbreviation (input) ErrCheckMultiSigVerify :: engine_error where "ErrCheckMultiSigVerify \<equiv> ScriptErr 24"
abbreviation (input) ErrDisabledOpcode :: engine_error where "ErrDisabledOpcode \<equiv> ScriptErr 25"
abbreviation (input) ErrReservedOpcode :: engine_error where "ErrReservedOpcode \<equiv> ScriptErr 26"
abbreviation (input) ErrInvalidStackOperation :: engine_error where "ErrInvalidStackOperation \<equiv> ScriptErr 28"
abbreviation (input) ErrUnbalancedConditional :: engine_error where "ErrUnbalancedConditional \<equiv> ScriptErr 29"
abbreviation (input) ErrMinimalData :: engine_error where "ErrMinimalData \<equiv> ScriptErr 30"
abbreviation (input) ErrInvalidSigHashType :: engine_error where "ErrInvalidSigHashType \<equiv> ScriptErr 31"
abbreviation (input) ErrSigTooShort :: engine_error where "ErrSigTooShort \<equiv> ScriptErr 32"
abbreviation (input) ErrSigTooLong :: engine_error where "ErrSigTooLong \<equiv> ScriptErr 33"
abbreviation (input) ErrSigInvalidSeqID :: engine_error where "ErrSigInvalidSeqID \<equiv> ScriptErr 34"
abbreviation (input) ErrSigInvalidDataLen :: engine_error where "ErrSigInvalidDataLen \<equiv> ScriptErr 35"
abbreviation (input) ErrSigMissingSTypeID :: engine_error where "ErrSigMissingSTypeID \<equiv> ScriptErr 36"
abbreviation (input) ErrSigMissingSLen :: engine_error where "ErrSigMissingSLen \<equiv> ScriptErr 37"
abbreviation (input) ErrSigInvalidSLen :: engine_error where "ErrSigInvalidSLen \<equiv> ScriptErr 38"
abbreviation (input) ErrSigInvalidRIntID :: engine_error where "ErrSigInvalidRIntID \<equiv> ScriptErr 39"
abbreviation (input) ErrSigZeroRLen :: engine_error where "ErrSigZeroRLen \<equiv> ScriptErr 40"
abbreviation (input) ErrSigNegativeR :: engine_error where "ErrSigNegativeR \<equiv> ScriptErr 41"
abbreviation (input) ErrSigTooMuchRPadding :: engine_error where "ErrSigTooMuchRPadding \<equiv> ScriptErr 42"
abbreviation (input) ErrSigInvalidSIntID :: engine_error where "ErrSigInvalidSIntID \<equiv> ScriptErr 43"
abbreviation (input) ErrSigZeroSLen :: engine_error where "ErrSigZeroSLen \<equiv> ScriptErr 44"
abbreviation (input) ErrSigNegativeS :: engine_error where "ErrSigNegativeS \<equiv> ScriptErr 45"
abbreviation (input) ErrSigTooMuchSPadding :: engine_error where "ErrSigTooMuchSPadding \<equiv> ScriptErr 46"
abbreviation (input) ErrSigHighS :: engine_error where "ErrSigHighS \<equiv> ScriptErr 47"
abbreviation (input) ErrSigScriptNotPushOnly :: engine_error where "ErrSigScriptNotPushOnly \<equiv> ScriptErr 48"
abbreviation (input) ErrSigNullDummy :: engine_error where "ErrSigNullDummy \<equiv> ScriptErr 49"
abbreviation (input) ErrPubKeyType :: engine_error where "ErrPubKeyType \<equiv> ScriptErr 50"
abbreviation (input) ErrCleanStack :: engine_error where "ErrCleanStack \<equiv> ScriptErr 51"
abbreviation (input) ErrNullFail :: engine_error where "ErrNullFail \<equiv> ScriptErr 52"
abbreviation (input) ErrWitnessMalleated :: engine_error where "ErrWitnessMalleated \<equiv> ScriptErr 53"
abbreviation (input) ErrWitnessMalleatedP2SH :: engine_error where "ErrWitnessMalleatedP2SH \<equiv> ScriptErr 54"
abbreviation (input) ErrDiscourageUpgradableNOPs :: engine_error where "ErrDiscourageUpgradableNOPs \<equiv> ScriptErr 55"
abbreviation (input) ErrNegativeLockTime :: engine_error where "ErrNegativeLockTime \<equiv> ScriptErr 56"
abbreviation (input) ErrUnsatisfiedLockTime :: engine_error where "ErrUnsatisfiedLockTime \<equiv> ScriptErr 57"
abbreviation (input) ErrMinimalIf :: engine_error where "ErrMinimalIf \<equiv> ScriptErr 58"
abbreviation (input) ErrDiscourageUpgradableWitnessProgram :: engine_error where "ErrDiscourageUpgradableWitnessProgram \<equiv> ScriptErr 59"
abbreviation (input) ErrWitnessProgramEmpty :: engine_error where "ErrWitnessProgramEmpty \<equiv> ScriptErr 60"
abbreviation (input) ErrWitnessProgramMismatch :: engine_error where "ErrWitnessProgramMismatch \<equiv> ScriptErr 61"
abbreviation (input) ErrWitnessProgramWrongLength :: engine_error where "ErrWitnessProgramWrongLength \<equiv> ScriptErr 62"
abbreviation (input) ErrWitnessUnexpected :: engine_error where "ErrWitnessUnexpected \<equiv> ScriptErr 63"
abbreviation (input) ErrWitnessPubKeyType :: engine_error where "ErrWitnessPubKeyType \<equiv> ScriptErr 64"
abbreviation (input) ErrDiscourageOpSuccess :: engine_error where "ErrDiscourageOpSuccess \<equiv> ScriptErr 65"
abbreviation (input) ErrDiscourageUpgradeableTaprootVersion :: engine_error where "ErrDiscourageUpgradeableTaprootVersion \<equiv> ScriptErr 66"
abbreviation (input) ErrTapscriptCheckMultisig :: engine_error where "ErrTapscriptCheckMultisig \<equiv> ScriptErr 67"
abbreviation (input) ErrDiscourageUpgradeablePubKeyType :: engine_error where "ErrDiscourageUpgradeablePubKeyType \<equiv> ScriptErr 68"
abbreviation (input) ErrTaprootSigInvalid :: engine_error where "ErrTaprootSigInvalid \<equiv> ScriptErr 69"
abbreviation (input) ErrTaprootMerkleProofInvalid :: engine_error where "ErrTaprootMerkleProofInvalid \<equiv> ScriptErr 70"
abbreviation (input) ErrTaprootOutputKeyParityMismatch :: engine_error where "ErrTaprootOutputKeyParityMismatch \<equiv> ScriptErr 71"
abbreviation (input) ErrControlBlockTooSmall :: engine_error where "ErrControlBlockTooSmall \<equiv> ScriptErr 72"
abbreviation (input) ErrControlBlockTooLarge :: engine_error where "ErrControlBlockTooLarge \<equiv> ScriptErr 73"
abbreviation (input) ErrControlBlockInvalidLength :: engine_error where "ErrControlBlockInvalidLength \<equiv> ScriptErr 74"
abbreviation (input) ErrInvalidTaprootSigLen :: engine_error where "ErrInvalidTaprootSigLen \<equiv> ScriptErr 76"
abbreviation (input) ErrTaprootPubkeyIsEmpty :: engine_error where "ErrTaprootPubkeyIsEmpty \<equiv> ScriptErr 77"
abbreviation (input) ErrTaprootMaxSigOps :: engine_error where "ErrTaprootMaxSigOps \<equiv> ScriptErr 78"
abbreviation (input) ErrNonConstScriptCode :: engine_error where "ErrNonConstScriptCode \<equiv> ScriptErr 79"
abbreviation (input) ErrCodeSeparator :: engine_error where "ErrCodeSeparator \<equiv> ScriptErr 80"

section \<open>Numbers\<close>

definition maxScriptNumLen :: nat where
  "maxScriptNumLen = 4"

definition cltvMaxScriptNumLen :: nat where
  "cltvMaxScriptNumLen = 5"

definition checkMinimalDataEncoding :: "bytes \<Rightarrow> engine_error option" where
  "checkMinimalDataEncoding v =
    (if v = [] then None
     else if v ! (length v - 1) AND 0x7f = 0 \<and> (length v = 1 \<or> v ! (length v - 2) AND 0x80 = 0) then Some ErrMinimalData
     else None)"

text \<open>The little-endian digits of a positive number.\<close>

function num_bytes :: "int \<Rightarrow> bytes" where
  "num_bytes n = (if 0 < n then word_of_int (n AND 0xff) # num_bytes (drop_bit 8 n) else [])"
  by auto

termination
  by (relation "measure nat") (auto simp: drop_bit_eq_div)

text \<open>The smallest \<open>int64\<close> has no absolute value: its digits are empty, and the code indexes before them.\<close>

definition Bytes :: "int \<Rightarrow> (engine_error, bytes) outcome" where
  "Bytes n =
    (if n = 0 then Ret []
     else let
       isNegative = n < 0;
       m = (if isNegative then wrap64 (- n) else n);
       result = num_bytes m
     in if result = [] then Panic
        else if last result AND 0x80 \<noteq> 0 then Ret (result @ [if isNegative then 0x80 else 0])
        else if isNegative then Ret (butlast result @ [last result OR 0x80])
        else Ret result)"

definition maxInt32 :: int where
  "maxInt32 = 2 ^ 31 - 1"

definition minInt32 :: int where
  "minInt32 = - (2 ^ 31)"

definition Int32 :: "int \<Rightarrow> int" where
  "Int32 n = (if n > maxInt32 then maxInt32 else if n < minInt32 then minInt32 else n)"

text \<open>A shift count is an \<open>uint8\<close>.\<close>

definition MakeScriptNum :: "bytes \<Rightarrow> bool \<Rightarrow> nat \<Rightarrow> engine_error + int" where
  "MakeScriptNum v requireMinimal scriptNumLen =
    (if length v > scriptNumLen then Inl ErrNumberTooBig
     else case (if requireMinimal then checkMinimalDataEncoding v else None) of
       Some e \<Rightarrow> Inl e
     | None \<Rightarrow>
        if v = [] then Inr 0
        else let result = fold (\<lambda>(i, val) r. r OR wrap64 (push_bit (8 * i mod 256) (uint val))) (enumerate 0 v) 0
          in if v ! (length v - 1) AND 0x80 \<noteq> 0
             then Inr (wrap64 (- (result AND NOT (wrap64 (push_bit (8 * (length v - 1) mod 256) 0x80)))))
             else Inr result)"

section \<open>The stack\<close>

definition asBool :: "bytes \<Rightarrow> bool" where
  "asBool t = (case dropWhile (\<lambda>b. b = 0) t of [] \<Rightarrow> False | b # r \<Rightarrow> \<not> (r = [] \<and> b = 0x80))"

definition fromBool :: "bool \<Rightarrow> bytes" where
  "fromBool v = (if v then [1] else [])"

record stack =
  stk :: "bytes list"
  verifyMinimalData :: bool

type_synonym 'a stack_op = "stack \<Rightarrow> (engine_error, 'a \<times> stack) outcome"

definition sbind :: "('s \<Rightarrow> ('e, 'a \<times> 's) outcome) \<Rightarrow> ('a \<Rightarrow> 's \<Rightarrow> ('e, 'b \<times> 's) outcome) \<Rightarrow> 's \<Rightarrow> ('e, 'b \<times> 's) outcome" where
  "sbind m f s = obind (m s) (\<lambda>(x, s'). f x s')"

definition sret :: "'a \<Rightarrow> 's \<Rightarrow> ('e, 'a \<times> 's) outcome" where
  "sret x s = Ret (x, s)"

definition sfail :: "'e \<Rightarrow> 's \<Rightarrow> ('e, 'a \<times> 's) outcome" where
  "sfail e s = Fail e"

definition Depth :: "stack \<Rightarrow> int" where
  "Depth s = int (length (stk s))"

definition PushByteArray :: "bytes \<Rightarrow> unit stack_op" where
  "PushByteArray so s = Ret ((), s\<lparr>stk := so # stk s\<rparr>)"

definition PushInt :: "int \<Rightarrow> unit stack_op" where
  "PushInt val s = obind (Bytes val) (\<lambda>so. PushByteArray so s)"

definition PushBool :: "bool \<Rightarrow> unit stack_op" where
  "PushBool val = PushByteArray (fromBool val)"

definition nipN :: "int \<Rightarrow> bytes stack_op" where
  "nipN idx s =
    (if idx < 0 \<or> idx > Depth s - 1 then Fail ErrInvalidStackOperation
     else Ret (stk s ! nat idx, s\<lparr>stk := take (nat idx) (stk s) @ drop (Suc (nat idx)) (stk s)\<rparr>))"

definition NipN :: "int \<Rightarrow> unit stack_op" where
  "NipN idx = sbind (nipN idx) (\<lambda>_. sret ())"

definition PopByteArray :: "bytes stack_op" where
  "PopByteArray = nipN 0"

definition to_num :: "bytes \<Rightarrow> stack \<Rightarrow> (engine_error, int \<times> stack) outcome" where
  "to_num so s = (case MakeScriptNum so (verifyMinimalData s) maxScriptNumLen of Inl e \<Rightarrow> Fail e | Inr n \<Rightarrow> Ret (n, s))"

definition PopInt :: "int stack_op" where
  "PopInt = sbind PopByteArray to_num"

definition PopBool :: "bool stack_op" where
  "PopBool = sbind PopByteArray (\<lambda>so. sret (asBool so))"

definition PeekByteArray :: "int \<Rightarrow> bytes stack_op" where
  "PeekByteArray idx s = (if idx < 0 \<or> idx \<ge> Depth s then Fail ErrInvalidStackOperation else Ret (stk s ! nat idx, s))"

definition PeekInt :: "int \<Rightarrow> int stack_op" where
  "PeekInt idx = sbind (PeekByteArray idx) to_num"

definition PeekBool :: "int \<Rightarrow> bool stack_op" where
  "PeekBool idx = sbind (PeekByteArray idx) (\<lambda>so. sret (asBool so))"

definition Tuck :: "unit stack_op" where
  "Tuck = sbind PopByteArray (\<lambda>so2. sbind PopByteArray (\<lambda>so1.
     sbind (PushByteArray so2) (\<lambda>_. sbind (PushByteArray so1) (\<lambda>_. PushByteArray so2))))"

text \<open>A loop that counts down from \<open>n\<close>.\<close>

primrec times :: "nat \<Rightarrow> unit stack_op \<Rightarrow> unit stack_op" where
  "times 0 f = sret ()"
| "times (Suc n) f = sbind f (\<lambda>_. times n f)"

definition DropN :: "int \<Rightarrow> unit stack_op" where
  "DropN n = (if n < 1 then sfail ErrInvalidStackOperation else times (nat n) (sbind PopByteArray (\<lambda>_. sret ())))"

definition DupN :: "int \<Rightarrow> unit stack_op" where
  "DupN n = (if n < 1 then sfail ErrInvalidStackOperation else times (nat n) (sbind (PeekByteArray (n - 1)) PushByteArray))"

definition RotN :: "int \<Rightarrow> unit stack_op" where
  "RotN n = (if n < 1 then sfail ErrInvalidStackOperation else times (nat n) (sbind (nipN (3 * n - 1)) PushByteArray))"

definition SwapN :: "int \<Rightarrow> unit stack_op" where
  "SwapN n = (if n < 1 then sfail ErrInvalidStackOperation else times (nat n) (sbind (nipN (2 * n - 1)) PushByteArray))"

definition OverN :: "int \<Rightarrow> unit stack_op" where
  "OverN n = (if n < 1 then sfail ErrInvalidStackOperation else times (nat n) (sbind (PeekByteArray (2 * n - 1)) PushByteArray))"

definition PickN :: "int \<Rightarrow> unit stack_op" where
  "PickN n = sbind (PeekByteArray n) PushByteArray"

definition RollN :: "int \<Rightarrow> unit stack_op" where
  "RollN n = sbind (nipN n) PushByteArray"

text \<open>The contents from the bottom up, and setting them.\<close>

definition getStack :: "stack \<Rightarrow> bytes list" where
  "getStack s = rev (stk s)"

definition setStack :: "bytes list \<Rightarrow> stack \<Rightarrow> stack" where
  "setStack data s = s\<lparr>stk := rev data\<rparr>"

section \<open>Numbers and their encodings\<close>

declare num_bytes.simps [simp del]

primrec le_int :: "bytes \<Rightarrow> int" where
  "le_int [] = 0"
| "le_int (b # bs) = uint b + 256 * le_int bs"

lemma uint_byte [bounds]: "0 \<le> uint b" "uint b < 256" for b :: byte
  using uint_lt2p [of b] by simp_all

lemma le_int_nonneg [simp]: "0 \<le> le_int v"
  by (induction v) (simp_all add: uint_byte)

lemma le_int_append: "le_int (u @ v) = le_int u + 256 ^ length u * le_int v"
  by (induction u) (simp_all add: algebra_simps)

lemma le_int_less: "le_int v < 256 ^ length v"
proof (induction v)
  case (Cons b v)
  then have "le_int v \<le> 256 ^ length v - 1" by simp
  then show ?case using uint_byte [of b] by simp
qed simp

lemma num_bytes_step: "0 \<le> m \<Longrightarrow> 0 \<le> d \<Longrightarrow> d < 256 \<Longrightarrow> 0 < d + 256 * m \<Longrightarrow> num_bytes (d + 256 * m) = word_of_int d # num_bytes m"
proof -
  assume a: "0 \<le> m" "0 \<le> d" "d < 256" "0 < d + 256 * m"
  have "(d + 256 * m) AND 0xff = (d + 256 * m) mod 2 ^ 8"
    using take_bit_eq_mask [of 8 "d + 256 * m"] by (simp add: take_bit_eq_mod mask_eq_exp_minus_1)
  then have "(d + 256 * m) AND 0xff = d" using a by simp
  moreover have "drop_bit 8 (d + 256 * m) = m" using a by (simp add: drop_bit_eq_div)
  ultimately show ?thesis using a(4) by (subst num_bytes.simps) simp
qed

lemma num_bytes_0 [simp]: "num_bytes 0 = []"
  by (subst num_bytes.simps) simp

lemma le_int_num_bytes: "0 \<le> n \<Longrightarrow> le_int (num_bytes n) = n"
proof (induction n rule: num_bytes.induct)
  case (1 n)
  show ?case
  proof (cases "n = 0")
    case False
    define d m where "d = n mod 256" "m = n div 256"
    have n: "n = d + 256 * m" "0 \<le> d" "d < 256" "0 \<le> m" using 1(2) by (simp_all add: d_m_def pos_imp_zdiv_nonneg_iff)
    have "drop_bit 8 n = m" by (simp add: d_m_def drop_bit_eq_div)
    then have "le_int (num_bytes m) = m" using 1 False n(4) by simp
    moreover have "uint (word_of_int d :: byte) = d" using n by (simp add: uint_word_of_int)
    ultimately show ?thesis using num_bytes_step [of m d] n False 1(2) by simp
  qed simp
qed

lemma num_bytes_le_int: "w \<noteq> [] \<Longrightarrow> last w \<noteq> 0 \<Longrightarrow> num_bytes (le_int w) = w"
proof (induction w)
  case (Cons b w)
  have p: "0 < uint b + 256 * le_int w"
  proof (cases "w = []")
    case True
    then show ?thesis using Cons(3) uint_byte [of b] by (simp add: uint_0_iff le_neq_trans less_le)
  next
    case False
    then have "num_bytes (le_int w) = w" using Cons by simp
    then have "le_int w \<noteq> 0" using False by auto
    then have "0 < le_int w" using le_int_nonneg [of w] by linarith
    then show ?thesis using uint_byte [of b] by linarith
  qed
  have "num_bytes (le_int w) = w" using Cons by (cases "w = []") auto
  then show ?case using num_bytes_step [OF le_int_nonneg uint_byte p] by simp
qed simp

lemma num_bytes_last: "0 < n \<Longrightarrow> num_bytes n \<noteq> [] \<and> last (num_bytes n) \<noteq> 0"
proof (induction n rule: num_bytes.induct)
  case (1 n)
  define d m where "d = n mod 256" "m = n div 256"
  have n: "n = d + 256 * m" "0 \<le> d" "d < 256" "0 \<le> m" using 1(2) by (simp_all add: d_m_def pos_imp_zdiv_nonneg_iff)
  have e: "num_bytes n = word_of_int d # num_bytes m" using num_bytes_step [of m d] n 1(2) by simp
  show ?case
  proof (cases "m = 0")
    case True
    then have "uint (word_of_int d :: byte) \<noteq> 0" using n 1(2) by (simp add: uint_word_of_int)
    then show ?thesis using e True by auto
  next
    case False
    then have m: "0 < m" using n(4) by simp
    have "drop_bit 8 n = m" by (simp add: d_m_def drop_bit_eq_div)
    then have "num_bytes m \<noteq> [] \<and> last (num_bytes m) \<noteq> 0" using 1(1) [OF 1(2)] m by simp
    then show ?thesis using e by simp
  qed
qed

lemma plus_or: "0 \<le> x \<Longrightarrow> x < 2 ^ k \<Longrightarrow> x + 2 ^ k * y = x OR push_bit k y" for x y :: int
proof -
  assume "0 \<le> x" "x < 2 ^ k"
  then have t: "take_bit k x = x" by (simp add: take_bit_int_eq_self)
  have "x AND push_bit k y = 0"
  proof (rule bit_eqI)
    fix i
    have "bit x i \<longleftrightarrow> i < k \<and> bit x i" by (metis t bit_take_bit_iff)
    then show "bit (x AND push_bit k y) i = bit 0 i" by (auto simp: bit_simps)
  qed
  then have "x + push_bit k y = x OR push_bit k y" by (rule disjunctive_add_eq_or)
  then show ?thesis by (simp add: push_bit_eq_mult mult.commute)
qed

lemma byte_bits:
  "b AND 0x80 = 0 \<longleftrightarrow> uint b < 128" "b AND 0x7f = 0 \<longleftrightarrow> uint b mod 128 = 0"
  "uint (b OR 0x80) = (if uint b < 128 then uint b + 128 else uint b)"
  for b :: byte
proof -
  have "b AND 0x80 = 0 \<longleftrightarrow> uint b AND 2 ^ 7 = 0" by (simp add: word_uint_eq_iff uint_and)
  also have "\<dots> \<longleftrightarrow> \<not> bit (uint b) 7" by (rule and_exp_eq_0_iff_not_bit)
  also have "\<dots> \<longleftrightarrow> even (uint b div 128)" by (simp add: bit_iff_odd)
  also have "\<dots> \<longleftrightarrow> uint b < 128"
  proof (cases "uint b < 128")
    case False
    then have "uint b div 128 = 1" using uint_byte [of b] by (intro int_div_pos_eq [of _ _ _ "uint b - 128"]) simp_all
    then show ?thesis using False by simp
  qed (simp add: uint_byte div_pos_pos_trivial)
  finally show "b AND 0x80 = 0 \<longleftrightarrow> uint b < 128" .
  have "uint b AND 0x7f = uint b mod 2 ^ 7"
    using take_bit_eq_mask [of 7 "uint b"] by (simp add: take_bit_eq_mod mask_eq_exp_minus_1)
  then show "b AND 0x7f = 0 \<longleftrightarrow> uint b mod 128 = 0" by (simp add: word_uint_eq_iff uint_and)
  have u: "uint (b OR 0x80) = uint b OR push_bit 7 1" by (simp add: uint_or)
  show "uint (b OR 0x80) = (if uint b < 128 then uint b + 128 else uint b)"
  proof (cases "uint b < 128")
    case True
    then show ?thesis using plus_or [of "uint b" 7 1] uint_byte [of b] unfolding u by simp
  next
    case False
    have "uint b = (uint b - 128) OR push_bit 7 1" using plus_or [of "uint b - 128" 7 1] False uint_byte [of b] by simp
    then have "uint b OR push_bit 7 1 = uint b" by (metis or.assoc or.idem)
    then show ?thesis using False unfolding u by simp
  qed
qed

lemma clear_top: "0 \<le> x \<Longrightarrow> x < 2 ^ k \<Longrightarrow> (x + 2 ^ k) AND NOT (push_bit k 1) = x" for x :: int
proof -
  assume a: "0 \<le> x" "x < 2 ^ k"
  then have t: "take_bit k x = x" by (simp add: take_bit_int_eq_self)
  have e: "x + 2 ^ k = x OR push_bit k 1" using plus_or [OF a, of 1] by simp
  show ?thesis unfolding e
  proof (rule bit_eqI)
    fix i
    have "bit x i \<longleftrightarrow> i < k \<and> bit x i" by (metis t bit_take_bit_iff)
    then show "bit ((x OR push_bit k 1) AND NOT (push_bit k 1)) i = bit x i" by (auto simp: bit_simps)
  qed
qed

lemma fold_decode:
  "k + length v \<le> 7 \<Longrightarrow>
    fold (\<lambda>(i, val) r. r OR wrap64 (push_bit (8 * i mod 256) (uint val))) (enumerate k v) r = r OR push_bit (8 * k) (le_int v)"
proof (induction v arbitrary: k r)
  case (Cons b v)
  have "8 * k \<le> 48" using Cons(2) by simp
  then have "(2::int) ^ (8 * k) \<le> 2 ^ 48" by (intro power_increasing) simp_all
  then have "uint b * 2 ^ (8 * k) \<le> 255 * 2 ^ 48" using uint_byte [of b] by (intro mult_mono) simp_all
  then have u: "uint b * 2 ^ (8 * k) < 2 ^ 63" by simp
  have "- (2 ^ 63) \<le> (0::int)" by simp
  also have "0 \<le> uint b * 2 ^ (8 * k)" by simp
  finally have w: "wrap64 (push_bit (8 * k) (uint b)) = push_bit (8 * k) (uint b)"
    using u unfolding push_bit_eq_mult by (rule wrap64_id)
  have m: "8 * k mod 256 = 8 * k" using Cons(2) by simp
  have "uint b + 256 * le_int v = uint b OR push_bit 8 (le_int v)" using plus_or [of "uint b" 8 "le_int v"] uint_byte [of b] by simp
  then have "push_bit (8 * k) (le_int (b # v)) = push_bit (8 * k) (uint b) OR push_bit (8 * Suc k) (le_int v)"
    by (simp add: push_bit_or add.commute)
  then show ?case using Cons(1) [of "Suc k"] Cons(2) by (simp add: w m or.assoc del: push_bit_push_bit le_int.simps)
qed simp

definition num_value :: "bytes \<Rightarrow> int" where
  "num_value v =
    (if v = [] then 0
     else let m = le_int (butlast v) + 256 ^ (length v - 1) * (uint (last v) mod 128) in if uint (last v) < 128 then m else - m)"

lemma magnitude_less:
  assumes "v \<noteq> []"
  shows "0 \<le> le_int (butlast v) + 256 ^ (length v - 1) * (uint (last v) mod 128)"
    "le_int (butlast v) + 256 ^ (length v - 1) * (uint (last v) mod 128) < 2 ^ (8 * (length v - 1) + 7)"
proof -
  define u x where "u = butlast v" "x = uint (last v) mod 128"
  have x: "0 \<le> x" "x < 128" by (simp_all add: u_x_def)
  have l: "length v - 1 = length u" by (simp add: u_x_def)
  have u: "0 \<le> le_int u" "le_int u \<le> 256 ^ length u - 1" using le_int_less [of u] by simp_all
  have "256 ^ length u * x \<le> 256 ^ length u * 127" using x by (intro mult_left_mono) simp_all
  moreover have "(2::int) ^ (8 * length u + 7) = 128 * 256 ^ length u" by (simp add: power_add power_256)
  ultimately have "le_int u + 256 ^ length u * x < 2 ^ (8 * length u + 7)" using u by linarith
  then show "0 \<le> le_int (butlast v) + 256 ^ (length v - 1) * (uint (last v) mod 128)"
    "le_int (butlast v) + 256 ^ (length v - 1) * (uint (last v) mod 128) < 2 ^ (8 * (length v - 1) + 7)"
    unfolding l unfolding u_x_def [symmetric] using u x by simp_all
qed

lemma MakeScriptNum_value:
  assumes "length v \<le> 7"
  shows "MakeScriptNum v requireMinimal len =
    (if length v > len then Inl ErrNumberTooBig
     else if requireMinimal \<and> checkMinimalDataEncoding v \<noteq> None then Inl ErrMinimalData
     else Inr (num_value v))"
proof (cases "v = []")
  case False
  define L x where "L = length v - 1" "x = le_int (butlast v) + 256 ^ (length v - 1) * (uint (last v) mod 128)"
  have lv: "v ! (length v - 1) = last v" "L \<le> 6" using False assms by (simp_all add: last_conv_nth L_x_def)
  have x: "0 \<le> x" "x < 2 ^ (8 * L + 7)" using magnitude_less [OF False] by (simp_all add: L_x_def)
  have b: "(2::int) ^ (8 * L + 7) \<le> 2 ^ 55" using lv(2) by (intro power_increasing) simp_all
  have f: "fold (\<lambda>(i, val) r. r OR wrap64 (push_bit (8 * i mod 256) (uint val))) (enumerate 0 v) 0 = le_int v"
    using fold_decode [of 0 v 0] assms by simp
  have "le_int v = le_int (butlast v) + 256 ^ L * uint (last v)"
    using le_int_append [of "butlast v" "[last v]"] False by (simp add: L_x_def)
  moreover have c: "uint (last v) = uint (last v) mod 128 + (if uint (last v) < 128 then 0 else 128)"
  proof (cases "uint (last v) < 128")
    case False
    then have "uint (last v) mod 128 = uint (last v) - 128" using uint_byte [of "last v"] by (intro int_mod_pos_eq [of _ _ 1]) simp_all
    then show ?thesis using False by simp
  qed (simp add: uint_byte)
  moreover have "256 ^ L * uint (last v) = 256 ^ L * (uint (last v) mod 128) + 256 ^ L * (if uint (last v) < 128 then 0 else 128)"
    unfolding distrib_left [symmetric] using c by (rule arg_cong)
  moreover have "(2::int) ^ (8 * L + 7) = 256 ^ L * 128" by (simp add: power_add power_256)
  ultimately have l: "le_int v = x + (if uint (last v) < 128 then 0 else 2 ^ (8 * L + 7))"
    by (simp add: L_x_def)
  have p: "wrap64 (push_bit (8 * L mod 256) 0x80) = push_bit (8 * L + 7) 1"
  proof -
    have "(2::int) ^ (8 * L) \<le> 2 ^ 48" using lv(2) by (intro power_increasing) simp_all
    then have "wrap64 (2 ^ (8 * L) * 128) = 2 ^ (8 * L) * 128" by (intro wrap64_id) (simp_all add: order_trans [OF _ zero_le_power])
    then show ?thesis using lv(2) by (simp add: push_bit_eq_mult power_add mult.commute)
  qed
  have n: "wrap64 (- x) = - x" using x b by (intro wrap64_id) simp_all
  let ?r = "fold (\<lambda>(i, val) r. r OR wrap64 (push_bit (8 * i mod 256) (uint val))) (enumerate 0 v) 0"
  have core: "(if v ! (length v - 1) AND 0x80 \<noteq> 0
      then Inr (wrap64 (- (?r AND NOT (wrap64 (push_bit (8 * (length v - 1) mod 256) 0x80))))) else Inr ?r) = Inr (num_value v)"
  proof (cases "uint (last v) < 128")
    case True
    then have "num_value v = x" using False by (simp add: num_value_def L_x_def)
    then show ?thesis unfolding f lv(1) byte_bits(1) using True l by simp
  next
    case g: False
    then have "num_value v = - x" using False unfolding num_value_def L_x_def by simp
    moreover have "(le_int v) AND NOT (push_bit (8 * L + 7) 1) = x" using clear_top [OF x] g l by simp
    ultimately show ?thesis unfolding f lv(1) byte_bits(1) unfolding L_x_def(1) [symmetric] p using g n by simp
  qed
  have "checkMinimalDataEncoding v = None \<or> checkMinimalDataEncoding v = Some ErrMinimalData" by (simp add: checkMinimalDataEncoding_def)
  then show ?thesis unfolding MakeScriptNum_def Let_def core using False by auto
qed (simp add: MakeScriptNum_def checkMinimalDataEncoding_def num_value_def)

lemma le_int_snoc: "r \<noteq> [] \<Longrightarrow> le_int r = le_int (butlast r) + 256 ^ (length r - 1) * uint (last r)"
  using le_int_append [of "butlast r" "[last r]"] by simp

lemma checkMinimal_iff:
  "checkMinimalDataEncoding (u @ [b]) = None \<longleftrightarrow> uint b mod 128 \<noteq> 0 \<or> (u \<noteq> [] \<and> 128 \<le> uint (last u))"
proof -
  have "(u @ [b]) ! (length u - 1) = last u" if "u \<noteq> []" using that by (simp add: nth_append last_conv_nth)
  then show ?thesis by (cases "u = []") (auto simp: checkMinimalDataEncoding_def byte_bits)
qed

lemma num_value_snoc: "num_value (u @ [b]) =
    (if uint b < 128 then le_int u + 256 ^ length u * (uint b mod 128) else - (le_int u + 256 ^ length u * (uint b mod 128)))"
  by (simp add: num_value_def)

lemma Bytes_value:
  assumes "- (2 ^ 63) < n" "n < 2 ^ 63"
  shows "\<exists>v. Bytes n = Ret v \<and> num_value v = n \<and> checkMinimalDataEncoding v = None"
proof (cases "n = 0")
  case True
  then show ?thesis by (simp add: Bytes_def num_value_def checkMinimalDataEncoding_def)
next
  case False
  define m r where "m = \<bar>n\<bar>" "r = num_bytes \<bar>n\<bar>"
  have r: "r \<noteq> []" "last r \<noteq> 0" "le_int r = m" using False num_bytes_last [of m] le_int_num_bytes [of m] by (simp_all add: m_r_def)
  have w: "(if n < 0 then wrap64 (- n) else n) = m" using assms by (simp add: m_r_def)
  have l: "0 < uint (last r)" using r(2) uint_byte(1) [of "last r"] by (metis less_le uint_0_iff)
  have B: "Bytes n = (if 128 \<le> uint (last r) then Ret (r @ [if n < 0 then 0x80 else 0])
      else if n < 0 then Ret (butlast r @ [last r OR 0x80]) else Ret r)"
    unfolding Bytes_def Let_def w using False r(1) by (simp add: m_r_def byte_bits)
  show ?thesis
  proof (cases "128 \<le> uint (last r)")
    case True
    then show ?thesis using B r(1,3) by (auto simp: num_value_snoc checkMinimal_iff m_r_def)
  next
    case s: False
    have t: "uint (last r) mod 128 = uint (last r)" "(uint (last r) + 128) mod 128 = uint (last r)" using s uint_byte(1) [of "last r"] by simp_all
    have e: "le_int (butlast r) + 256 ^ length (butlast r) * uint (last r) = m" using le_int_snoc [OF r(1)] r(3) by simp
    show ?thesis
    proof (cases "n < 0")
      case True
      have "num_value (butlast r @ [last r OR 0x80]) = n"
        using True s t e by (simp add: num_value_snoc byte_bits(3) m_r_def(1))
      moreover have "checkMinimalDataEncoding (butlast r @ [last r OR 0x80]) = None"
        using s t l by (simp add: checkMinimal_iff byte_bits(3))
      ultimately show ?thesis using B s True by simp
    next
      case p: False
      have "num_value (butlast r @ [last r]) = n" using p s t e by (simp add: num_value_snoc m_r_def(1) del: append_butlast_last_id)
      moreover have "checkMinimalDataEncoding (butlast r @ [last r]) = None"
        using s t l by (simp add: checkMinimal_iff del: append_butlast_last_id)
      ultimately show ?thesis using B s p r(1) by simp
    qed
  qed
qed

lemma minimal_Bytes:
  assumes "checkMinimalDataEncoding v = None" "- (2 ^ 63) < num_value v" "num_value v < 2 ^ 63"
  shows "Bytes (num_value v) = Ret v"
proof (cases v rule: rev_cases)
  case Nil
  then show ?thesis by (simp add: Bytes_def num_value_def)
next
  case (snoc u b)
  define x m where "x = uint b mod 128" "m = le_int u + 256 ^ length u * (uint b mod 128)"
  have x: "0 \<le> x" "x < 128" by (simp_all add: x_m_def)
  have ub: "uint b = x + (if uint b < 128 then 0 else 128)"
  proof (cases "uint b < 128")
    case False
    then have "uint b mod 128 = uint b - 128" using uint_byte [of b] by (intro int_mod_pos_eq [of _ _ 1]) simp_all
    then show ?thesis using False by (simp add: x_m_def)
  qed (simp add: x_m_def uint_byte)
  have n: "num_value v = (if uint b < 128 then m else - m)" by (simp add: snoc num_value_snoc x_m_def)
  define w where "w = (if x \<noteq> 0 then u @ [word_of_int x] else u)"
  have xb: "uint (word_of_int x :: byte) = x" using x by (simp add: uint_word_of_int)
  have c: "x \<noteq> 0 \<or> (u \<noteq> [] \<and> 128 \<le> uint (last u))" using assms(1) by (simp add: snoc checkMinimal_iff x_m_def)
  have w: "w \<noteq> []" "last w \<noteq> 0" "le_int w = m"
    using c xb by (auto simp: w_def x_m_def le_int_append word_uint_eq_iff)
  then have nb: "num_bytes m = w" using num_bytes_le_int by metis
  have m: "0 < m" using w nb le_int_nonneg [of w] by (metis num_bytes_0 order_le_less)
  have wr: "(if num_value v < 0 then wrap64 (- num_value v) else num_value v) = m"
    using n m assms(2,3) by (auto split: if_splits)
  have ng: "num_value v < 0 \<longleftrightarrow> \<not> uint b < 128" "num_value v \<noteq> 0" using n m by auto
  have "Bytes (num_value v) = (if 128 \<le> uint (last w) then Ret (w @ [if num_value v < 0 then 0x80 else 0])
      else if num_value v < 0 then Ret (butlast w @ [last w OR 0x80]) else Ret w)"
    unfolding Bytes_def Let_def wr nb using ng(2) w(1) by (simp add: byte_bits)
  also have "\<dots> = Ret (u @ [b])"
  proof (cases "x = 0")
    case True
    then have "b = (if num_value v < 0 then 0x80 else 0)" using ub ng(1) by (auto simp: word_uint_eq_iff split: if_splits)
    then show ?thesis using True c by (auto simp: w_def)
  next
    case False
    have "word_of_int x = b" if "uint b < 128" using ub that by (simp add: word_uint_eq_iff xb)
    moreover have "word_of_int x OR 0x80 = b" if "\<not> uint b < 128" using ub that x by (simp add: word_uint_eq_iff xb byte_bits(3))
    ultimately show ?thesis using False x xb ng(1) by (auto simp: w_def)
  qed
  finally show ?thesis by (simp add: snoc)
qed

lemma num_value_bound: "length v \<le> k \<Longrightarrow> 0 < k \<Longrightarrow> \<bar>num_value v\<bar> < 2 ^ (8 * k - 1)"
proof (cases "v = []")
  case False
  assume k: "length v \<le> k" "0 < k"
  have "(2::int) ^ (8 * (length v - 1) + 7) \<le> 2 ^ (8 * k - 1)" using k False by (intro power_increasing) (cases v, simp_all)
  moreover have "\<bar>num_value v\<bar> = le_int (butlast v) + 256 ^ (length v - 1) * (uint (last v) mod 128)"
    using magnitude_less(1) [OF False] False unfolding num_value_def Let_def by (simp only: if_False abs_minus_cancel abs_of_nonneg split: if_split) simp
  ultimately show ?thesis using magnitude_less(2) [OF False] by linarith
qed (simp add: num_value_def)

text \<open>
  C14: the encoding of numbers is a bijection onto the minimally encoded byte strings. Reading a byte string of at most
  seven bytes with the minimality check succeeds with \<open>n\<close> exactly when it is what \<open>Bytes\<close> writes for \<open>n\<close> and it is
  not too long; without the check it still gives a number of that many bytes. Writing panics for the smallest
  64-bit number and for no other.
\<close>

theorem scriptNum_bijection:
  assumes "0 < len" "len \<le> 7" "- (2 ^ 63) \<le> n" "n < 2 ^ 63"
  shows "(MakeScriptNum v True len = Inr n \<longleftrightarrow> Bytes n = Ret v \<and> length v \<le> len)
    \<and> (MakeScriptNum v False len = Inr n \<longrightarrow> \<bar>n\<bar> < 2 ^ (8 * len - 1))
    \<and> (Bytes n = Panic \<longleftrightarrow> n = - (2 ^ 63))"
proof (intro conjI impI)
  have small: "- (2 ^ 63) < num_value v" "num_value v < 2 ^ 63" if "length v \<le> len"
  proof -
    have "(2::int) ^ (8 * len - 1) \<le> 2 ^ 63" using assms(2) by (intro power_increasing) simp_all
    then show "- (2 ^ 63) < num_value v" "num_value v < 2 ^ 63" using num_value_bound [OF that assms(1)] by linarith+
  qed
  have M: "MakeScriptNum v b len = (if length v > len then Inl ErrNumberTooBig
     else if b \<and> checkMinimalDataEncoding v \<noteq> None then Inl ErrMinimalData else Inr (num_value v))" for b
  proof (cases "length v \<le> 7")
    case False
    then show ?thesis using assms(2) by (simp add: MakeScriptNum_def)
  qed (rule MakeScriptNum_value)
  have panic: "Bytes (- (2 ^ 63)) = Panic"
    by (simp add: Bytes_def wrap64_def num_bytes.simps signed_take_bit_eq_take_bit_shift take_bit_eq_mod)
  show "Bytes n = Panic \<longleftrightarrow> n = - (2 ^ 63)"
    using panic Bytes_value [of n] assms(3,4) by (cases "n = - (2 ^ 63)") auto
  show "MakeScriptNum v True len = Inr n \<longleftrightarrow> Bytes n = Ret v \<and> length v \<le> len"
  proof
    assume "MakeScriptNum v True len = Inr n"
    then show "Bytes n = Ret v \<and> length v \<le> len" using M [of True] minimal_Bytes [OF _ small] by (auto split: if_splits)
  next
    assume a: "Bytes n = Ret v \<and> length v \<le> len"
    then have "n \<noteq> - (2 ^ 63)" using panic by auto
    then show "MakeScriptNum v True len = Inr n" using a Bytes_value [of n] assms(3,4) M [of True] by auto
  qed
  show "\<bar>n\<bar> < 2 ^ (8 * len - 1)" if "MakeScriptNum v False len = Inr n"
    using that M [of False] num_value_bound [OF _ assms(1), of v] by (auto split: if_splits)
qed

theorem scriptNum_bijection_witness:
  "MakeScriptNum [0x80, 0x80] True 4 = Inr (-128) \<and> Bytes (- 128) = Ret [0x80, 0x80] \<and> Bytes (- (2 ^ 63)) = Panic"
proof -
  have "num_bytes 128 = [0x80]" using num_bytes_le_int [of "[0x80]"] by simp
  then have "Bytes (- 128) = Ret [0x80, 0x80]" by (simp add: Bytes_def)
  then show ?thesis
    using scriptNum_bijection [of 4 "- 128" "[0x80, 0x80]"] scriptNum_bijection [of 4 "- (2 ^ 63)" "[]"] by simp
qed

end
