(* ===== verification/Sig_Hash.thy ===== *)
theory Sig_Hash
  imports Script_Stack
begin

text \<open>
  What a signature commits to, \<open>txscript/sighash.go\<close> and \<open>txscript/hashcache.go\<close>: the digest of the original rules, that of
  witness version 0 over the precomputed midstate, and that of taproot. SHA-256 is the parameter \<open>sha\<close>; the digests of
  \<open>chainhash\<close> are built from it. The index of the input is a natural number, because the engine checks it
  against the inputs first. A previous output that the fetcher does not know is a nil pointer, and dereferencing it
  panics.
\<close>

unbundle bit_operations_syntax

section \<open>Digests of chainhash\<close>

definition DoubleHash :: "(bytes \<Rightarrow> bytes) \<Rightarrow> bytes \<Rightarrow> bytes" where
  "DoubleHash sha b = sha (sha b)"

definition TaggedHash :: "(bytes \<Rightarrow> bytes) \<Rightarrow> bytes \<Rightarrow> bytes list \<Rightarrow> bytes" where
  "TaggedHash sha tag msgs = sha (sha tag @ sha tag @ concat msgs)"

definition TagTapSighash :: bytes where
  "TagTapSighash = map of_char ''TapSighash''"

definition TagTapLeaf :: bytes where
  "TagTapLeaf = map of_char ''TapLeaf''"

definition TagTapBranch :: bytes where
  "TagTapBranch = map of_char ''TapBranch''"

definition TagTapTweak :: bytes where
  "TagTapTweak = map of_char ''TapTweak''"

section \<open>Hash types\<close>

type_synonym SigHashType = u32

definition SigHashAll :: SigHashType where
  "SigHashAll = 1"

definition SigHashNone :: SigHashType where
  "SigHashNone = 2"

definition SigHashSingle :: SigHashType where
  "SigHashSingle = 3"

definition SigHashAnyOneCanPay :: SigHashType where
  "SigHashAnyOneCanPay = 0x80"

definition sigHashMask :: SigHashType where
  "sigHashMask = 0x1f"

definition blankCodeSepValue :: u32 where
  "blankCodeSepValue = - 1"

abbreviation (input) OP_CODESEPARATOR :: byte where "OP_CODESEPARATOR \<equiv> 0xab"

section \<open>The original digest\<close>

text \<open>The copy of the transaction that is hashed; the slice of the inputs panics out of range.\<close>

definition sighash_ins :: "bytes \<Rightarrow> SigHashType \<Rightarrow> nat \<Rightarrow> tx_in list \<Rightarrow> tx_in list" where
  "sighash_ins sigScript hashType idx ins =
    map (\<lambda>(i, ti).
        let ti = ti\<lparr>in_SignatureScript := (if i = idx then sigScript else [])\<rparr>
        in if (hashType AND sigHashMask = SigHashNone \<or> hashType AND sigHashMask = SigHashSingle) \<and> i \<noteq> idx
           then ti\<lparr>in_Sequence := 0\<rparr> else ti)
      (enumerate 0 ins)"

definition sighash_outs :: "SigHashType \<Rightarrow> nat \<Rightarrow> tx_out list \<Rightarrow> tx_out list" where
  "sighash_outs hashType idx outs =
    (if hashType AND sigHashMask = SigHashNone then []
     else if hashType AND sigHashMask = SigHashSingle
     then map (\<lambda>(i, to). if i < idx then \<lparr>out_Value = - 1, out_PkScript = []\<rparr> else to) (enumerate 0 (take (idx + 1) outs))
     else outs)"

definition calcSignatureHash ::
  "(bytes \<Rightarrow> bytes) \<Rightarrow> bytes \<Rightarrow> SigHashType \<Rightarrow> msg_tx \<Rightarrow> nat \<Rightarrow> ('e, bytes) outcome" where
  "calcSignatureHash sha sigScript hashType tx idx =
    (if hashType AND sigHashMask = SigHashSingle \<and> idx \<ge> length (tx_TxOut tx) then Ret (1 # replicate 31 0)
     else let
       sigScript = removeOpcodeRaw sigScript OP_CODESEPARATOR;
       ins = sighash_ins sigScript hashType idx (tx_TxIn tx);
       outs = sighash_outs hashType idx (tx_TxOut tx)
     in if hashType AND SigHashAnyOneCanPay \<noteq> 0 \<and> length ins < idx + 1 then Panic
        else let
          ins = (if hashType AND SigHashAnyOneCanPay \<noteq> 0 then slice idx (idx + 1) ins else ins);
          txCopy = \<lparr>tx_Version = tx_Version tx, tx_TxIn = ins, tx_TxOut = outs, tx_LockTime = tx_LockTime tx\<rparr>
        in Ret (DoubleHash sha (SerializeNoWitness txCopy @ le_bytes 4 hashType)))"

definition CalcSignatureHash ::
  "(bytes \<Rightarrow> bytes) \<Rightarrow> bytes \<Rightarrow> SigHashType \<Rightarrow> msg_tx \<Rightarrow> nat \<Rightarrow> (engine_error, bytes) outcome" where
  "CalcSignatureHash sha script hashType tx idx =
    (case checkScriptParses 0 script of Some e \<Rightarrow> Fail (ErrParse e) | None \<Rightarrow> calcSignatureHash sha script hashType tx idx)"

section \<open>The midstate\<close>

type_synonym prev_out_fetcher = "out_point \<Rightarrow> tx_out option"

definition calcHashPrevOuts :: "(bytes \<Rightarrow> bytes) \<Rightarrow> msg_tx \<Rightarrow> hash" where
  "calcHashPrevOuts sha tx =
    sha (concat (map (\<lambda>ti. op_Hash (in_PreviousOutPoint ti) @ le_bytes 4 (op_Index (in_PreviousOutPoint ti))) (tx_TxIn tx)))"

definition calcHashSequence :: "(bytes \<Rightarrow> bytes) \<Rightarrow> msg_tx \<Rightarrow> hash" where
  "calcHashSequence sha tx = sha (concat (map (\<lambda>ti. le_bytes 4 (in_Sequence ti)) (tx_TxIn tx)))"

definition calcHashOutputs :: "(bytes \<Rightarrow> bytes) \<Rightarrow> msg_tx \<Rightarrow> hash" where
  "calcHashOutputs sha tx = sha (concat (map WriteTxOut (tx_TxOut tx)))"

text \<open>What is written for the previous outputs of the inputs.\<close>

fun fetch_concat :: "prev_out_fetcher \<Rightarrow> (tx_out \<Rightarrow> bytes) \<Rightarrow> tx_in list \<Rightarrow> ('e, bytes) outcome" where
  "fetch_concat fetch f [] = Ret []"
| "fetch_concat fetch f (ti # ins) =
    (case fetch (in_PreviousOutPoint ti) of
       None \<Rightarrow> Panic
     | Some prevOut \<Rightarrow> obind (fetch_concat fetch f ins) (\<lambda>b. Ret (f prevOut @ b)))"

definition calcHashInputAmounts :: "(bytes \<Rightarrow> bytes) \<Rightarrow> msg_tx \<Rightarrow> prev_out_fetcher \<Rightarrow> ('e, hash) outcome" where
  "calcHashInputAmounts sha tx fetch = obind (fetch_concat fetch (\<lambda>o'. le_bytes 8 (out_Value o')) (tx_TxIn tx)) (\<lambda>b. Ret (sha b))"

definition calcHashInputScripts :: "(bytes \<Rightarrow> bytes) \<Rightarrow> msg_tx \<Rightarrow> prev_out_fetcher \<Rightarrow> ('e, hash) outcome" where
  "calcHashInputScripts sha tx fetch = obind (fetch_concat fetch (\<lambda>o'. WriteVarBytes (out_PkScript o')) (tx_TxIn tx)) (\<lambda>b. Ret (sha b))"

record TxSigHashes =
  HashPrevOutsV0 :: hash
  HashSequenceV0 :: hash
  HashOutputsV0 :: hash
  HashPrevOutsV1 :: hash
  HashSequenceV1 :: hash
  HashOutputsV1 :: hash
  HashInputScriptsV1 :: hash
  HashInputAmountsV1 :: hash

text \<open>Which of the two kinds of input a transaction has; the loop ends when both are found.\<close>

fun input_kinds :: "prev_out_fetcher \<Rightarrow> tx_in list \<Rightarrow> bool \<times> bool \<Rightarrow> ('e, bool \<times> bool) outcome" where
  "input_kinds fetch [] kinds = Ret kinds"
| "input_kinds fetch (ti # ins) (hasV0Inputs, hasV1Inputs) =
    (let outpoint = in_PreviousOutPoint ti in
     if op_Index outpoint = - 1 \<and> op_Hash outpoint = zero_hash then input_kinds fetch ins (True, hasV1Inputs)
     else case fetch outpoint of
       None \<Rightarrow> Panic
     | Some prevOut \<Rightarrow>
        let kinds = (if isWitnessTaprootScript (out_PkScript prevOut) then (hasV0Inputs, True) else (True, hasV1Inputs))
        in if fst kinds \<and> snd kinds then Ret kinds else input_kinds fetch ins kinds)"

definition NewTxSigHashes :: "(bytes \<Rightarrow> bytes) \<Rightarrow> msg_tx \<Rightarrow> prev_out_fetcher \<Rightarrow> ('e, TxSigHashes) outcome" where
  "NewTxSigHashes sha tx fetch =
    obind (input_kinds fetch (tx_TxIn tx) (False, False)) (\<lambda>(hasV0Inputs, hasV1Inputs).
      let
        h1 = calcHashPrevOuts sha tx; h2 = calcHashSequence sha tx; h3 = calcHashOutputs sha tx;
        sigHashes = \<lparr>HashPrevOutsV0 = (if hasV0Inputs then sha h1 else zero_hash),
          HashSequenceV0 = (if hasV0Inputs then sha h2 else zero_hash),
          HashOutputsV0 = (if hasV0Inputs then sha h3 else zero_hash),
          HashPrevOutsV1 = h1, HashSequenceV1 = h2, HashOutputsV1 = h3,
          HashInputScriptsV1 = zero_hash, HashInputAmountsV1 = zero_hash\<rparr>
      in if hasV1Inputs then
           obind (calcHashInputAmounts sha tx fetch) (\<lambda>a.
             obind (calcHashInputScripts sha tx fetch) (\<lambda>s.
               Ret (sigHashes\<lparr>HashInputAmountsV1 := a, HashInputScriptsV1 := s\<rparr>)))
         else Ret sigHashes)"

section \<open>Witness version 0\<close>

definition calcWitnessSignatureHashRaw ::
  "(bytes \<Rightarrow> bytes) \<Rightarrow> bytes \<Rightarrow> TxSigHashes \<Rightarrow> SigHashType \<Rightarrow> msg_tx \<Rightarrow> nat \<Rightarrow> i64 \<Rightarrow> engine_error + bytes" where
  "calcWitnessSignatureHashRaw sha subScript sigHashes hashType tx idx amt =
    (if idx \<ge> length (tx_TxIn tx) then Inl ErrOther
     else let
       txIn = tx_TxIn tx ! idx;
       anyone = hashType AND SigHashAnyOneCanPay \<noteq> 0;
       single = (hashType AND sigHashMask = SigHashSingle);
       none = (hashType AND sigHashMask = SigHashNone)
     in Inr (DoubleHash sha
       (le_bytes 4 (tx_Version tx)
        @ (if \<not> anyone then HashPrevOutsV0 sigHashes else zero_hash)
        @ (if \<not> anyone \<and> \<not> single \<and> \<not> none then HashSequenceV0 sigHashes else zero_hash)
        @ op_Hash (in_PreviousOutPoint txIn) @ le_bytes 4 (op_Index (in_PreviousOutPoint txIn))
        @ (case extractWitnessPubKeyHash subScript of
             Some h \<Rightarrow> [0x19, OP_DUP, OP_HASH160, OP_DATA_20] @ h @ [OP_EQUALVERIFY, OP_CHECKSIG]
           | None \<Rightarrow> WriteVarBytes subScript)
        @ le_bytes 8 amt @ le_bytes 4 (in_Sequence txIn)
        @ (if \<not> single \<and> \<not> none then HashOutputsV0 sigHashes
           else if single \<and> idx < length (tx_TxOut tx) then DoubleHash sha (WriteTxOut (tx_TxOut tx ! idx))
           else zero_hash)
        @ le_bytes 4 (tx_LockTime tx) @ le_bytes 4 hashType)))"

definition CalcWitnessSigHash ::
  "(bytes \<Rightarrow> bytes) \<Rightarrow> bytes \<Rightarrow> TxSigHashes \<Rightarrow> SigHashType \<Rightarrow> msg_tx \<Rightarrow> nat \<Rightarrow> i64 \<Rightarrow> engine_error + bytes" where
  "CalcWitnessSigHash sha script sigHashes hType tx idx amt =
    (case checkScriptParses 0 script of
       Some e \<Rightarrow> Inl (ErrParse e)
     | None \<Rightarrow> calcWitnessSignatureHashRaw sha script sigHashes hType tx idx amt)"

section \<open>Taproot\<close>

record taprootSigHashOptions =
  extFlag :: byte
  annexHash :: "bytes option"
  tapLeafHash :: bytes
  keyVersion :: byte
  codeSepPos :: u32

definition defaultTaprootSighashOptions :: taprootSigHashOptions where
  "defaultTaprootSighashOptions = \<lparr>extFlag = 0, annexHash = None, tapLeafHash = [], keyVersion = 0, codeSepPos = 0\<rparr>"

definition writeDigestExtensions :: "taprootSigHashOptions \<Rightarrow> bytes" where
  "writeDigestExtensions t = (if extFlag t = 1 then tapLeafHash t @ [keyVersion t] @ le_bytes 4 (codeSepPos t) else [])"

definition WithAnnex :: "(bytes \<Rightarrow> bytes) \<Rightarrow> bytes \<Rightarrow> taprootSigHashOptions \<Rightarrow> taprootSigHashOptions" where
  "WithAnnex sha annex opts = opts\<lparr>annexHash := Some (sha (WriteVarBytes annex))\<rparr>"

definition WithBaseTapscriptVersion :: "u32 \<Rightarrow> bytes \<Rightarrow> taprootSigHashOptions \<Rightarrow> taprootSigHashOptions" where
  "WithBaseTapscriptVersion pos leafHash opts = opts\<lparr>extFlag := 1, tapLeafHash := leafHash, keyVersion := 0, codeSepPos := pos\<rparr>"

definition isValidTaprootSigHash :: "SigHashType \<Rightarrow> bool" where
  "isValidTaprootSigHash hashType \<longleftrightarrow> hashType \<in> {0, 1, 2, 3, 0x81, 0x82, 0x83}"

text \<open>A missing midstate is a nil pointer; it is read unless the hash type avoids it.\<close>

definition midstate :: "TxSigHashes option \<Rightarrow> bool \<Rightarrow> (TxSigHashes \<Rightarrow> bytes) \<Rightarrow> ('e, bytes) outcome" where
  "midstate sigHashes needed f = (if \<not> needed then Ret [] else case sigHashes of None \<Rightarrow> Panic | Some h \<Rightarrow> Ret (f h))"

definition taproot_input :: "SigHashType \<Rightarrow> msg_tx \<Rightarrow> nat \<Rightarrow> prev_out_fetcher \<Rightarrow> ('e, bytes) outcome" where
  "taproot_input hType tx idx fetch =
    (if hType AND SigHashAnyOneCanPay = SigHashAnyOneCanPay then
       let input = tx_TxIn tx ! idx in
       case fetch (in_PreviousOutPoint input) of
         None \<Rightarrow> Panic
       | Some prevOut \<Rightarrow> Ret (writeOutPoint (in_PreviousOutPoint input) @ WriteTxOut prevOut @ le_bytes 4 (in_Sequence input))
     else Ret (le_bytes 4 (word_of_nat idx :: u32)))"

definition calcTaprootSignatureHashRaw ::
  "(bytes \<Rightarrow> bytes) \<Rightarrow> TxSigHashes option \<Rightarrow> SigHashType \<Rightarrow> msg_tx \<Rightarrow> nat \<Rightarrow> prev_out_fetcher \<Rightarrow>
   (taprootSigHashOptions \<Rightarrow> taprootSigHashOptions) list \<Rightarrow> (engine_error, bytes) outcome" where
  "calcTaprootSignatureHashRaw sha sigHashes hType tx idx fetch sigHashOpts =
    (let opts = fold (\<lambda>f. f) sigHashOpts defaultTaprootSighashOptions in
     if \<not> isValidTaprootSigHash hType then Fail ErrOther
     else if idx \<ge> length (tx_TxIn tx) then Fail ErrOther
     else obind (midstate sigHashes (hType AND SigHashAnyOneCanPay \<noteq> SigHashAnyOneCanPay)
         (\<lambda>h. HashPrevOutsV1 h @ HashInputAmountsV1 h @ HashInputScriptsV1 h @ HashSequenceV1 h)) (\<lambda>m1.
       obind (midstate sigHashes (hType AND SigHashSingle \<noteq> SigHashSingle \<and> hType AND SigHashSingle \<noteq> SigHashNone) HashOutputsV1) (\<lambda>m2.
       obind (taproot_input hType tx idx fetch) (\<lambda>inp.
         let
           spendType = extFlag opts * 2 + (if annexHash opts \<noteq> None then 1 else 0);
           single = (hType AND sigHashMask = SigHashSingle)
         in if single \<and> idx \<ge> length (tx_TxOut tx) then Fail ErrOther
            else Ret (TaggedHash sha TagTapSighash
              [[0x00, ucast hType] @ le_bytes 4 (tx_Version tx) @ le_bytes 4 (tx_LockTime tx) @ m1 @ m2 @ [spendType] @ inp
               @ (case annexHash opts of Some h \<Rightarrow> h | None \<Rightarrow> [])
               @ (if single then sha (WriteTxOut (tx_TxOut tx ! idx)) else [])
               @ writeDigestExtensions opts])))))"

definition CalcTaprootSignatureHash ::
  "(bytes \<Rightarrow> bytes) \<Rightarrow> TxSigHashes option \<Rightarrow> SigHashType \<Rightarrow> msg_tx \<Rightarrow> nat \<Rightarrow> prev_out_fetcher \<Rightarrow> (engine_error, bytes) outcome" where
  "CalcTaprootSignatureHash sha sigHashes hType tx idx fetch = calcTaprootSignatureHashRaw sha sigHashes hType tx idx fetch []"

end
