(* ===== verification/Sig_Check.thy ===== *)
theory Sig_Check
  imports Sig_Hash
begin

text \<open>
  The state of the script engine, the encodings it demands of signatures and keys (\<open>txscript/engine.go\<close>), the
  signature verifiers (\<open>txscript/sigvalidate.go\<close>), the signature cache (\<open>txscript/sigcache.go\<close>) and the parts of
  \<open>txscript/taproot.go\<close> that executing a script uses.

  Parsing of keys and signatures, the curve and the hash functions come from libraries: they are the fields of the
  record \<open>crypto\<close>. A function that reads and changes the engine takes it and returns it; on an error the engine is not
  used any more, and is not returned.
\<close>

unbundle bit_operations_syntax

section \<open>Libraries\<close>

text \<open>\<open>'k\<close> are public keys, \<open>'s\<close> ECDSA signatures, \<open>'t\<close> Schnorr signatures. \<open>c_tweak\<close> adds the multiple of the generator
  by the number that 32 bytes encode to a point, \<open>c_evict\<close> is the entry that an iteration over a map of so many entries meets first.\<close>

record ('k, 's, 't) crypto =
  c_sha256 :: "bytes \<Rightarrow> bytes"
  c_sha1 :: "bytes \<Rightarrow> bytes"
  c_ripemd160 :: "bytes \<Rightarrow> bytes"
  c_ParsePubKey :: "bytes \<Rightarrow> 'k option"
  c_ParseDERSignature :: "bytes \<Rightarrow> 's option"
  c_ParseSignature :: "bytes \<Rightarrow> 's option"
  c_Verify :: "'s \<Rightarrow> bytes \<Rightarrow> 'k \<Rightarrow> bool"
  c_halfOrder :: nat
  c_schnorr_ParsePubKey :: "bytes \<Rightarrow> 'k option"
  c_schnorr_SerializePubKey :: "'k \<Rightarrow> bytes"
  c_schnorr_ParseSignature :: "bytes \<Rightarrow> 't option"
  c_schnorr_Verify :: "'t \<Rightarrow> bytes \<Rightarrow> 'k \<Rightarrow> bool"
  c_SerializeCompressed :: "'k \<Rightarrow> bytes"
  c_tweak :: "'k \<Rightarrow> bytes \<Rightarrow> 'k"
  c_evict :: "nat \<Rightarrow> nat"

section \<open>The signature cache\<close>

record sig_cache =
  sc_validSigs :: "(hash \<times> bytes \<times> bytes) list"
  sc_maxEntries :: nat

definition NewSigCache :: "nat \<Rightarrow> sig_cache" where
  "NewSigCache maxEntries = \<lparr>sc_validSigs = [], sc_maxEntries = maxEntries\<rparr>"

definition Exists :: "sig_cache \<Rightarrow> hash \<Rightarrow> bytes \<Rightarrow> bytes \<Rightarrow> bool" where
  "Exists s sigHash sig pubKey = (case map_of (sc_validSigs s) sigHash of None \<Rightarrow> False | Some (sig', pubKey') \<Rightarrow> pubKey' = pubKey \<and> sig' = sig)"

definition Add_sig :: "(nat \<Rightarrow> nat) \<Rightarrow> hash \<Rightarrow> bytes \<Rightarrow> bytes \<Rightarrow> sig_cache \<Rightarrow> sig_cache" where
  "Add_sig evict sigHash sig pubKey s =
    (if sc_maxEntries s = 0 then s
     else let
       m = sc_validSigs s;
       i = evict (length m) mod length m;
       m = (if length m + 1 > sc_maxEntries s \<and> m \<noteq> [] then take i m @ drop (Suc i) m else m)
     in s\<lparr>sc_validSigs := (sigHash, sig, pubKey) # filter (\<lambda>(h, _). h \<noteq> sigHash) m\<rparr>)"

section \<open>The engine\<close>

record taproot_ctx =
  tc_annex :: "bytes option"
  tc_codeSepPos :: u32
  tc_tapLeafHash :: bytes
  tc_sigOpsBudget :: int
  tc_mustSucceed :: bool

definition sigOpsDelta :: int where
  "sigOpsDelta = 50"

definition tallysigOp :: "taproot_ctx \<Rightarrow> engine_error + taproot_ctx" where
  "tallysigOp t =
    (let t = t\<lparr>tc_sigOpsBudget := wrap32 (tc_sigOpsBudget t - sigOpsDelta)\<rparr>
     in if tc_sigOpsBudget t < 0 then Inl ErrTaprootMaxSigOps else Inr t)"

definition newTaprootExecutionCtx :: "int \<Rightarrow> taproot_ctx" where
  "newTaprootExecutionCtx inputWitnessSize =
    \<lparr>tc_annex = None, tc_codeSepPos = blankCodeSepValue, tc_tapLeafHash = zero_hash,
     tc_sigOpsBudget = wrap32 (sigOpsDelta + inputWitnessSize), tc_mustSucceed = False\<rparr>"

datatype op_cond = OpCondFalse | OpCondTrue | OpCondSkip

text \<open>The last element of the slice \<open>condStack\<close> is the head of the list.\<close>

record engine =
  vm_flags :: u32
  vm_tx :: msg_tx
  vm_txIdx :: nat
  vm_version :: u16
  vm_bip16 :: bool
  vm_sigCache :: "sig_cache option"
  vm_hashCache :: "TxSigHashes option"
  vm_prevOutFetcher :: prev_out_fetcher
  vm_scripts :: "bytes list"
  vm_scriptIdx :: nat
  vm_opcodeIdx :: nat
  vm_lastCodeSep :: nat
  vm_tokenizer :: tokenizer
  vm_savedFirstStack :: "bytes list"
  vm_dstack :: stack
  vm_astack :: stack
  vm_condStack :: "op_cond list"
  vm_numOps :: int
  vm_witnessVersion :: nat
  vm_witnessProgram :: "bytes option"
  vm_inputAmount :: i64
  vm_taprootCtx :: "taproot_ctx option"

section \<open>Flags\<close>

definition ScriptBip16 :: u32 where "ScriptBip16 = 0x1"
definition ScriptStrictMultiSig :: u32 where "ScriptStrictMultiSig = 0x2"
definition ScriptDiscourageUpgradableNops :: u32 where "ScriptDiscourageUpgradableNops = 0x4"
definition ScriptVerifyCheckLockTimeVerify :: u32 where "ScriptVerifyCheckLockTimeVerify = 0x8"
definition ScriptVerifyCheckSequenceVerify :: u32 where "ScriptVerifyCheckSequenceVerify = 0x10"
definition ScriptVerifyCleanStack :: u32 where "ScriptVerifyCleanStack = 0x20"
definition ScriptVerifyDERSignatures :: u32 where "ScriptVerifyDERSignatures = 0x40"
definition ScriptVerifyLowS :: u32 where "ScriptVerifyLowS = 0x80"
definition ScriptVerifyMinimalData :: u32 where "ScriptVerifyMinimalData = 0x100"
definition ScriptVerifyNullFail :: u32 where "ScriptVerifyNullFail = 0x200"
definition ScriptVerifySigPushOnly :: u32 where "ScriptVerifySigPushOnly = 0x400"
definition ScriptVerifyStrictEncoding :: u32 where "ScriptVerifyStrictEncoding = 0x800"
definition ScriptVerifyWitness :: u32 where "ScriptVerifyWitness = 0x1000"
definition ScriptVerifyDiscourageUpgradeableWitnessProgram :: u32 where "ScriptVerifyDiscourageUpgradeableWitnessProgram = 0x2000"
definition ScriptVerifyMinimalIf :: u32 where "ScriptVerifyMinimalIf = 0x4000"
definition ScriptVerifyWitnessPubKeyType :: u32 where "ScriptVerifyWitnessPubKeyType = 0x8000"
definition ScriptVerifyTaproot :: u32 where "ScriptVerifyTaproot = 0x10000"
definition ScriptVerifyDiscourageUpgradeableTaprootVersion :: u32 where "ScriptVerifyDiscourageUpgradeableTaprootVersion = 0x20000"
definition ScriptVerifyDiscourageOpSuccess :: u32 where "ScriptVerifyDiscourageOpSuccess = 0x40000"
definition ScriptVerifyDiscourageUpgradeablePubkeyType :: u32 where "ScriptVerifyDiscourageUpgradeablePubkeyType = 0x80000"
definition ScriptVerifyConstScriptCode :: u32 where "ScriptVerifyConstScriptCode = 0x100000"

definition hasFlag :: "engine \<Rightarrow> u32 \<Rightarrow> bool" where
  "hasFlag vm flag \<longleftrightarrow> vm_flags vm AND flag = flag"

definition isWitnessVersionActive :: "engine \<Rightarrow> nat \<Rightarrow> bool" where
  "isWitnessVersionActive vm version \<longleftrightarrow> vm_witnessProgram vm \<noteq> None \<and> vm_witnessVersion vm = version"

definition BaseSegwitWitnessVersion :: nat where
  "BaseSegwitWitnessVersion = 0"

definition TaprootWitnessVersion :: nat where
  "TaprootWitnessVersion = 1"

text \<open>Indexing and slicing out of range panic.\<close>

definition go_nth :: "'a list \<Rightarrow> nat \<Rightarrow> ('e, 'a) outcome" where
  "go_nth xs i = (if i < length xs then Ret (xs ! i) else Panic)"

definition subScript :: "engine \<Rightarrow> ('e, bytes) outcome" where
  "subScript vm =
    obind (go_nth (vm_scripts vm) (vm_scriptIdx vm)) (\<lambda>script.
      if vm_lastCodeSep vm > length script then Panic else Ret (drop (vm_lastCodeSep vm) script))"

section \<open>Encodings\<close>

definition checkHashTypeEncoding :: "SigHashType \<Rightarrow> engine \<Rightarrow> engine_error option" where
  "checkHashTypeEncoding hashType vm =
    (if \<not> hasFlag vm ScriptVerifyStrictEncoding then None
     else let sigHashType = hashType AND NOT SigHashAnyOneCanPay
       in if sigHashType < SigHashAll \<or> sigHashType > SigHashSingle then Some ErrInvalidSigHashType else None)"

definition IsCompressedPubKey :: "bytes \<Rightarrow> bool" where
  "IsCompressedPubKey pubKey \<longleftrightarrow> length pubKey = 33 \<and> pubKey ! 0 AND NOT 1 = 2"

definition checkPubKeyEncoding :: "bytes \<Rightarrow> engine \<Rightarrow> engine_error option" where
  "checkPubKeyEncoding pubKey vm =
    (if hasFlag vm ScriptVerifyWitnessPubKeyType \<and> isWitnessVersionActive vm BaseSegwitWitnessVersion \<and> \<not> IsCompressedPubKey pubKey
     then Some ErrWitnessPubKeyType
     else if \<not> hasFlag vm ScriptVerifyStrictEncoding then None
     else if length pubKey = 33 \<and> (pubKey ! 0 = 0x02 \<or> pubKey ! 0 = 0x03) then None
     else if length pubKey = 65 \<and> pubKey ! 0 = 0x04 then None
     else Some ErrPubKeyType)"

text \<open>\<open>big.Int.SetBytes\<close>: big-endian.\<close>

definition be_nat :: "bytes \<Rightarrow> nat" where
  "be_nat bs = fold (\<lambda>b n. 256 * n + unat b) bs 0"

definition checkSignatureEncoding :: "('k, 's, 't) crypto \<Rightarrow> bytes \<Rightarrow> engine \<Rightarrow> (engine_error, unit) outcome" where
  "checkSignatureEncoding C sig vm =
    (if \<not> hasFlag vm ScriptVerifyDERSignatures \<and> \<not> hasFlag vm ScriptVerifyLowS \<and> \<not> hasFlag vm ScriptVerifyStrictEncoding then Ret ()
     else let sigLen = length sig in
     if sigLen < 8 then Fail ErrSigTooShort
     else if sigLen > 72 then Fail ErrSigTooLong
     else obind (go_nth sig 0) (\<lambda>seqID.
     if seqID \<noteq> 0x30 then Fail ErrSigInvalidSeqID
     else obind (go_nth sig 1) (\<lambda>dataLen.
     if unat dataLen \<noteq> sigLen - 2 then Fail ErrSigInvalidDataLen
     else obind (go_nth sig 3) (\<lambda>rLenByte.
     let rLen = unat rLenByte; sTypeOffset = 4 + rLen; sLenOffset = sTypeOffset + 1 in
     if sTypeOffset \<ge> sigLen then Fail ErrSigMissingSTypeID
     else if sLenOffset \<ge> sigLen then Fail ErrSigMissingSLen
     else obind (go_nth sig sLenOffset) (\<lambda>sLenByte.
     let sOffset = sLenOffset + 1; sLen = unat sLenByte in
     if sOffset + sLen \<noteq> sigLen then Fail ErrSigInvalidSLen
     else obind (go_nth sig 2) (\<lambda>rType.
     if rType \<noteq> 0x02 then Fail ErrSigInvalidRIntID
     else if rLen = 0 then Fail ErrSigZeroRLen
     else obind (go_nth sig 4) (\<lambda>r0.
     if r0 AND 0x80 \<noteq> 0 then Fail ErrSigNegativeR
     else obind (if rLen > 1 \<and> r0 = 0 then obind (go_nth sig 5) (\<lambda>r1. Ret (r1 AND 0x80 = 0)) else Ret False) (\<lambda>rPadded.
     if rPadded then Fail ErrSigTooMuchRPadding
     else obind (go_nth sig sTypeOffset) (\<lambda>sType.
     if sType \<noteq> 0x02 then Fail ErrSigInvalidSIntID
     else if sLen = 0 then Fail ErrSigZeroSLen
     else obind (go_nth sig sOffset) (\<lambda>s0.
     if s0 AND 0x80 \<noteq> 0 then Fail ErrSigNegativeS
     else obind (if sLen > 1 \<and> s0 = 0 then obind (go_nth sig (sOffset + 1)) (\<lambda>s1. Ret (s1 AND 0x80 = 0)) else Ret False) (\<lambda>sPadded.
     if sPadded then Fail ErrSigTooMuchSPadding
     else if hasFlag vm ScriptVerifyLowS \<and> be_nat (slice sOffset (sOffset + sLen) sig) > c_halfOrder C then Fail ErrSigHighS
     else Ret ())))))))))))"

section \<open>Verifiers of ECDSA signatures\<close>

record ('k, 's) baseSigVerifier =
  bv_pubKey :: 'k
  bv_sig :: 's
  bv_fullSigBytes :: bytes
  bv_sigBytes :: bytes
  bv_pkBytes :: bytes
  bv_subScript :: bytes
  bv_hashType :: SigHashType

definition or_fail :: "engine_error option \<Rightarrow> (engine_error, unit) outcome" where
  "or_fail e = (case e of None \<Rightarrow> Ret () | Some e \<Rightarrow> Fail e)"

definition parsed :: "'a option \<Rightarrow> (engine_error, 'a) outcome" where
  "parsed x = (case x of None \<Rightarrow> Fail ErrOther | Some x \<Rightarrow> Ret x)"

definition parseBaseSigAndPubkey ::
  "('k, 's, 't) crypto \<Rightarrow> bytes \<Rightarrow> bytes \<Rightarrow> engine \<Rightarrow> (engine_error, 'k \<times> 's \<times> SigHashType) outcome" where
  "parseBaseSigAndPubkey C pkBytes fullSigBytes vm =
    (if fullSigBytes = [] then Panic
     else let
       strictEncoding = hasFlag vm ScriptVerifyStrictEncoding \<or> hasFlag vm ScriptVerifyDERSignatures;
       hashType = ucast (last fullSigBytes);
       sigBytes = butlast fullSigBytes
     in obind (or_fail (checkHashTypeEncoding hashType vm)) (\<lambda>_.
        obind (checkSignatureEncoding C sigBytes vm) (\<lambda>_.
        obind (or_fail (checkPubKeyEncoding pkBytes vm)) (\<lambda>_.
        obind (parsed (c_ParsePubKey C pkBytes)) (\<lambda>pubKey.
        obind (parsed (if strictEncoding then c_ParseDERSignature C sigBytes else c_ParseSignature C sigBytes)) (\<lambda>signature.
          Ret (pubKey, signature, hashType)))))))"

definition newBaseSigVerifier ::
  "('k, 's, 't) crypto \<Rightarrow> bytes \<Rightarrow> bytes \<Rightarrow> engine \<Rightarrow> (engine_error, ('k, 's) baseSigVerifier) outcome" where
  "newBaseSigVerifier C pkBytes fullSigBytes vm =
    obind (parseBaseSigAndPubkey C pkBytes fullSigBytes vm) (\<lambda>(pubKey, sig, hashType).
      obind (subScript vm) (\<lambda>sub.
        Ret \<lparr>bv_pubKey = pubKey, bv_sig = sig, bv_fullSigBytes = fullSigBytes, bv_sigBytes = butlast fullSigBytes,
          bv_pkBytes = pkBytes, bv_subScript = sub, bv_hashType = hashType\<rparr>))"

text \<open>Go's \<open>copy\<close> into an array of 32 bytes.\<close>

definition to_hash :: "bytes \<Rightarrow> hash" where
  "to_hash b = take 32 (b @ replicate 32 0)"

definition cached_verify :: "('k, 's, 't) crypto \<Rightarrow> hash \<Rightarrow> bytes \<Rightarrow> bytes \<Rightarrow> bool \<Rightarrow> engine \<Rightarrow> bool \<times> engine" where
  "cached_verify C sigHash sigBytes pkBytes valid vm =
    (case vm_sigCache vm of
       None \<Rightarrow> (valid, vm)
     | Some c \<Rightarrow>
        if Exists c sigHash sigBytes pkBytes then (True, vm)
        else if valid then (True, vm\<lparr>vm_sigCache := Some (Add_sig (c_evict C) sigHash sigBytes pkBytes c)\<rparr>)
        else (False, vm))"

definition verifySig :: "('k, 's, 't) crypto \<Rightarrow> ('k, 's) baseSigVerifier \<Rightarrow> bytes \<Rightarrow> engine \<Rightarrow> bool \<times> engine" where
  "verifySig C b sigHash vm =
    cached_verify C (to_hash sigHash) (bv_sigBytes b) (bv_pkBytes b) (c_Verify C (bv_sig b) sigHash (bv_pubKey b)) vm"

text \<open>The two flags of a \<open>verifyResult\<close>, valid and match, and the engine.\<close>

type_synonym verify_op = "engine \<Rightarrow> (engine_error, (bool \<times> bool) \<times> engine) outcome"

definition base_Verify :: "('k, 's, 't) crypto \<Rightarrow> ('k, 's) baseSigVerifier \<Rightarrow> verify_op" where
  "base_Verify C b vm =
    (case removeOpcodeByData (bv_subScript b) (bv_fullSigBytes b) of (sub, match) \<Rightarrow>
      obind (calcSignatureHash (c_sha256 C) sub (bv_hashType b) (vm_tx vm) (vm_txIdx vm)) (\<lambda>sigHash.
        case verifySig C b sigHash vm of (valid, vm) \<Rightarrow> Ret ((valid, match), vm)))"

definition sig_hashes :: "('k, 's, 't) crypto \<Rightarrow> engine \<Rightarrow> (engine_error, TxSigHashes) outcome" where
  "sig_hashes C vm = (case vm_hashCache vm of Some h \<Rightarrow> Ret h | None \<Rightarrow> NewTxSigHashes (c_sha256 C) (vm_tx vm) (vm_prevOutFetcher vm))"

definition segwit_Verify :: "('k, 's, 't) crypto \<Rightarrow> ('k, 's) baseSigVerifier \<Rightarrow> verify_op" where
  "segwit_Verify C s vm =
    obind (sig_hashes C vm) (\<lambda>sigHashes.
      case calcWitnessSignatureHashRaw (c_sha256 C) (bv_subScript s) sigHashes (bv_hashType s) (vm_tx vm) (vm_txIdx vm) (vm_inputAmount vm) of
        Inl _ \<Rightarrow> Ret ((False, False), vm)
      | Inr sigHash \<Rightarrow> (case verifySig C s sigHash vm of (valid, vm) \<Rightarrow> Ret ((valid, False), vm)))"

section \<open>Verifiers of Schnorr signatures\<close>

record ('k, 't) taprootSigVerifier =
  tv_pubKey :: 'k
  tv_pkBytes :: bytes
  tv_fullSigBytes :: bytes
  tv_sig :: 't
  tv_hashType :: SigHashType
  tv_annex :: "bytes option"

definition parseTaprootSigAndPubKey ::
  "('k, 's, 't) crypto \<Rightarrow> bytes \<Rightarrow> bytes \<Rightarrow> (engine_error, 'k \<times> 't \<times> SigHashType) outcome" where
  "parseTaprootSigAndPubKey C pkBytes rawSig =
    obind (parsed (c_schnorr_ParsePubKey C pkBytes)) (\<lambda>pubKey.
      if length rawSig = 64 then obind (parsed (c_schnorr_ParseSignature C rawSig)) (\<lambda>sig. Ret (pubKey, sig, 0))
      else if length rawSig = 65 \<and> rawSig ! 64 \<noteq> 0 then
        obind (parsed (c_schnorr_ParseSignature C (take 64 rawSig))) (\<lambda>sig. Ret (pubKey, sig, ucast (rawSig ! 64)))
      else Fail ErrInvalidTaprootSigLen)"

definition newTaprootSigVerifier ::
  "('k, 's, 't) crypto \<Rightarrow> bytes \<Rightarrow> bytes \<Rightarrow> bytes option \<Rightarrow> (engine_error, ('k, 't) taprootSigVerifier) outcome" where
  "newTaprootSigVerifier C pkBytes fullSigBytes annex =
    obind (parseTaprootSigAndPubKey C pkBytes fullSigBytes) (\<lambda>(pubKey, sig, sigHashType).
      Ret \<lparr>tv_pubKey = pubKey, tv_pkBytes = pkBytes, tv_fullSigBytes = fullSigBytes, tv_sig = sig, tv_hashType = sigHashType,
        tv_annex = annex\<rparr>)"

definition taproot_verifySig :: "('k, 's, 't) crypto \<Rightarrow> ('k, 't) taprootSigVerifier \<Rightarrow> bytes \<Rightarrow> engine \<Rightarrow> bool \<times> engine" where
  "taproot_verifySig C t sigHash vm =
    cached_verify C sigHash (tv_fullSigBytes t) (tv_pkBytes t) (c_schnorr_Verify C (tv_sig t) sigHash (tv_pubKey t)) vm"

definition taproot_check ::
  "('k, 's, 't) crypto \<Rightarrow> ('k, 't) taprootSigVerifier \<Rightarrow> (taprootSigHashOptions \<Rightarrow> taprootSigHashOptions) list \<Rightarrow> verify_op" where
  "taproot_check C t opts vm =
    (case calcTaprootSignatureHashRaw (c_sha256 C) (vm_hashCache vm) (tv_hashType t) (vm_tx vm) (vm_txIdx vm) (vm_prevOutFetcher vm) opts of
       Panic \<Rightarrow> Panic
     | Fail _ \<Rightarrow> Ret ((False, False), vm)
     | Ret sigHash \<Rightarrow> (case taproot_verifySig C t sigHash vm of (valid, vm) \<Rightarrow> Ret ((valid, False), vm)))"

definition with_annex :: "('k, 's, 't) crypto \<Rightarrow> bytes option \<Rightarrow> (taprootSigHashOptions \<Rightarrow> taprootSigHashOptions) list" where
  "with_annex C annex = (case annex of None \<Rightarrow> [] | Some a \<Rightarrow> [WithAnnex (c_sha256 C) a])"

definition taproot_Verify :: "('k, 's, 't) crypto \<Rightarrow> ('k, 't) taprootSigVerifier \<Rightarrow> verify_op" where
  "taproot_Verify C t = taproot_check C t (with_annex C (tv_annex t))"

text \<open>\<^const>\<open>None\<close> is the verifier without a public key, for keys of an unknown kind.\<close>

definition newBaseTapscriptSigVerifier ::
  "('k, 's, 't) crypto \<Rightarrow> bytes \<Rightarrow> bytes \<Rightarrow> taproot_ctx \<Rightarrow> engine \<Rightarrow> (engine_error, ('k, 't) taprootSigVerifier option) outcome" where
  "newBaseTapscriptSigVerifier C pkBytes rawSig ctx vm =
    (if length pkBytes = 0 then Fail ErrTaprootPubkeyIsEmpty
     else if length pkBytes = 32 then obind (newTaprootSigVerifier C pkBytes rawSig (tc_annex ctx)) (\<lambda>t. Ret (Some t))
     else if hasFlag vm ScriptVerifyDiscourageUpgradeablePubkeyType then Fail ErrDiscourageUpgradeablePubKeyType
     else Ret None)"

definition tapscript_Verify :: "('k, 's, 't) crypto \<Rightarrow> ('k, 't) taprootSigVerifier option \<Rightarrow> taproot_ctx \<Rightarrow> verify_op" where
  "tapscript_Verify C b ctx vm =
    (case b of
       None \<Rightarrow> Ret ((True, False), vm)
     | Some t \<Rightarrow>
        taproot_check C t (WithBaseTapscriptVersion (tc_codeSepPos ctx) (tc_tapLeafHash ctx) # with_annex C (tc_annex ctx)) vm)"

section \<open>Taproot commitments\<close>

definition BaseLeafVersion :: byte where
  "BaseLeafVersion = 0xc0"

definition TapLeaf_TapHash :: "('k, 's, 't) crypto \<Rightarrow> byte \<Rightarrow> bytes \<Rightarrow> hash" where
  "TapLeaf_TapHash C leafVersion script = TaggedHash (c_sha256 C) TagTapLeaf [leafVersion # WriteVarBytes script]"

text \<open>\<open>bytes.Compare\<close>\<close>

fun bytes_less :: "bytes \<Rightarrow> bytes \<Rightarrow> bool" where
  "bytes_less _ [] = False"
| "bytes_less [] (_ # _) = True"
| "bytes_less (a # as) (b # bs) = (if a < b then True else if b < a then False else bytes_less as bs)"

definition tapBranchHash :: "('k, 's, 't) crypto \<Rightarrow> bytes \<Rightarrow> bytes \<Rightarrow> hash" where
  "tapBranchHash C l r =
    (case (if bytes_less r l then (r, l) else (l, r)) of (l, r) \<Rightarrow> TaggedHash (c_sha256 C) TagTapBranch [l, r])"

record 'k ControlBlock =
  cb_InternalKey :: 'k
  cb_OutputKeyYIsOdd :: bool
  cb_LeafVersion :: byte
  cb_InclusionProof :: bytes

definition ToBytes :: "('k, 's, 't) crypto \<Rightarrow> 'k ControlBlock \<Rightarrow> bytes" where
  "ToBytes C c =
    (cb_LeafVersion c OR (if cb_OutputKeyYIsOdd c then 1 else 0)) # c_schnorr_SerializePubKey C (cb_InternalKey c) @ cb_InclusionProof c"

definition RootHash :: "('k, 's, 't) crypto \<Rightarrow> 'k ControlBlock \<Rightarrow> bytes \<Rightarrow> bytes" where
  "RootHash C c revealedScript =
    fold (\<lambda>i acc. tapBranchHash C acc (slice (32 * i) (32 * i + 32) (cb_InclusionProof c)))
      [0..<length (cb_InclusionProof c) div 32] (TapLeaf_TapHash C (cb_LeafVersion c) revealedScript)"

definition ControlBlockMaxSize :: nat where
  "ControlBlockMaxSize = 33 + 32 * 128"

definition ParseControlBlock :: "('k, 's, 't) crypto \<Rightarrow> bytes \<Rightarrow> (engine_error, 'k ControlBlock) outcome" where
  "ParseControlBlock C ctrlBlock =
    (if length ctrlBlock < 33 then Fail ErrControlBlockTooSmall
     else if length ctrlBlock > ControlBlockMaxSize then Fail ErrControlBlockTooLarge
     else if (length ctrlBlock - 33) mod 32 \<noteq> 0 then Fail ErrControlBlockInvalidLength
     else obind (parsed (c_schnorr_ParsePubKey C (slice 1 33 ctrlBlock))) (\<lambda>pubKey.
       Ret \<lparr>cb_InternalKey = pubKey, cb_OutputKeyYIsOdd = (ctrlBlock ! 0 AND 1 = 1), cb_LeafVersion = ctrlBlock ! 0 AND 0xfe,
         cb_InclusionProof = drop 33 ctrlBlock\<rparr>))"

text \<open>Reparsing a serialized key ignores the error; a nil key would be dereferenced.\<close>

definition ComputeTaprootOutputKey :: "('k, 's, 't) crypto \<Rightarrow> 'k \<Rightarrow> bytes \<Rightarrow> (engine_error, 'k) outcome" where
  "ComputeTaprootOutputKey C pubKey scriptRoot =
    (case c_schnorr_ParsePubKey C (c_schnorr_SerializePubKey C pubKey) of
       None \<Rightarrow> Panic
     | Some internalKey \<Rightarrow>
        Ret (c_tweak C internalKey (TaggedHash (c_sha256 C) TagTapTweak [c_schnorr_SerializePubKey C internalKey, scriptRoot])))"

definition VerifyTaprootLeafCommitment ::
  "('k, 's, 't) crypto \<Rightarrow> 'k ControlBlock \<Rightarrow> bytes \<Rightarrow> bytes \<Rightarrow> (engine_error, unit) outcome" where
  "VerifyTaprootLeafCommitment C controlBlock taprootWitnessProgram revealedScript =
    obind (ComputeTaprootOutputKey C (cb_InternalKey controlBlock) (RootHash C controlBlock revealedScript)) (\<lambda>taprootKey.
      if c_schnorr_SerializePubKey C taprootKey \<noteq> taprootWitnessProgram then Fail ErrTaprootMerkleProofInvalid
      else obind (go_nth (c_SerializeCompressed C taprootKey) 0) (\<lambda>b0.
        if cb_OutputKeyYIsOdd controlBlock \<noteq> (b0 = 0x03) then Fail ErrTaprootOutputKeyParityMismatch else Ret ()))"

definition VerifyTaprootKeySpend :: "('k, 's, 't) crypto \<Rightarrow> bytes \<Rightarrow> bytes \<Rightarrow> engine \<Rightarrow> (engine_error, engine) outcome" where
  "VerifyTaprootKeySpend C witnessProgram rawSig vm =
    obind (go_nth (tx_TxIn (vm_tx vm)) (vm_txIdx vm)) (\<lambda>txIn.
      obind (newTaprootSigVerifier C witnessProgram rawSig (extractAnnex (in_Witness txIn))) (\<lambda>t.
        obind (taproot_Verify C t vm) (\<lambda>((valid, _), vm). if valid then Ret vm else Fail ErrTaprootSigInvalid)))"

end
