(* ===== verification/Script_Builder.thy ===== *)
theory Script_Builder
  imports Script_Stack
begin

text \<open>
  Building scripts, \<open>txscript/scriptbuilder.go\<close>, and the payment scripts of \<open>txscript/standard.go\<close>. The builder's error is
  only whether there is one. The number of bytes that pushing some data takes is compared with what the tokenizer reads back.
\<close>

definition MaxScriptSize :: nat where
  "MaxScriptSize = 10000"

definition MaxScriptElementSize :: nat where
  "MaxScriptElementSize = 520"

record script_builder =
  sb_script :: bytes
  sb_err :: bool

definition NewScriptBuilder :: script_builder where
  "NewScriptBuilder = \<lparr>sb_script = [], sb_err = False\<rparr>"

definition AddOp :: "byte \<Rightarrow> script_builder \<Rightarrow> script_builder" where
  "AddOp opcode b =
    (if sb_err b then b
     else if length (sb_script b) + 1 > MaxScriptSize then b\<lparr>sb_err := True\<rparr>
     else b\<lparr>sb_script := sb_script b @ [opcode]\<rparr>)"

definition AddOps :: "bytes \<Rightarrow> script_builder \<Rightarrow> script_builder" where
  "AddOps opcodes b =
    (if sb_err b then b
     else if length (sb_script b) + length opcodes > MaxScriptSize then b\<lparr>sb_err := True\<rparr>
     else b\<lparr>sb_script := sb_script b @ opcodes\<rparr>)"

definition canonicalDataSize :: "bytes \<Rightarrow> nat" where
  "canonicalDataSize data =
    (let dataLen = length data in
     if dataLen = 0 then 1
     else if dataLen = 1 \<and> data ! 0 \<le> 16 then 1
     else if dataLen = 1 \<and> data ! 0 = 0x81 then 1
     else if dataLen < 76 then 1 + dataLen
     else if dataLen \<le> 0xff then 2 + dataLen
     else if dataLen \<le> 0xffff then 3 + dataLen
     else 5 + dataLen)"

text \<open>The bytes that \<open>addData\<close> appends.\<close>

definition push_data :: "bytes \<Rightarrow> bytes" where
  "push_data data =
    (let dataLen = length data in
     if dataLen = 0 \<or> dataLen = 1 \<and> data ! 0 = 0 then [OP_0]
     else if dataLen = 1 \<and> data ! 0 \<le> 16 then [OP_1 - 1 + data ! 0]
     else if dataLen = 1 \<and> data ! 0 = 0x81 then [OP_1NEGATE]
     else (if dataLen < 76 then [OP_DATA_1 - 1 + word_of_nat dataLen]
       else if dataLen \<le> 0xff then [OP_PUSHDATA1, word_of_nat dataLen]
       else if dataLen \<le> 0xffff then OP_PUSHDATA2 # le_bytes 2 (word_of_nat dataLen :: u16)
       else OP_PUSHDATA4 # le_bytes 4 (word_of_nat dataLen :: u32)) @ data)"

definition addData :: "bytes \<Rightarrow> script_builder \<Rightarrow> script_builder" where
  "addData data b = b\<lparr>sb_script := sb_script b @ push_data data\<rparr>"

definition AddFullData :: "bytes \<Rightarrow> script_builder \<Rightarrow> script_builder" where
  "AddFullData data b = (if sb_err b then b else addData data b)"

definition AddData :: "bytes \<Rightarrow> script_builder \<Rightarrow> script_builder" where
  "AddData data b =
    (if sb_err b then b
     else if length (sb_script b) + canonicalDataSize data > MaxScriptSize then b\<lparr>sb_err := True\<rparr>
     else if length data > MaxScriptElementSize then b\<lparr>sb_err := True\<rparr>
     else addData data b)"

definition AddInt64 :: "i64 \<Rightarrow> script_builder \<Rightarrow> (engine_error, script_builder) outcome" where
  "AddInt64 val b =
    (if sb_err b then Ret b
     else if length (sb_script b) + 1 > MaxScriptSize then Ret (b\<lparr>sb_err := True\<rparr>)
     else if val = 0 then Ret (b\<lparr>sb_script := sb_script b @ [OP_0]\<rparr>)
     else if val = - 1 \<or> 1 \<le> sint val \<and> sint val \<le> 16 then Ret (b\<lparr>sb_script := sb_script b @ [ucast (0x50 + val)]\<rparr>)
     else obind (Bytes (sint val)) (\<lambda>data. Ret (AddData data b)))"

definition Reset :: "script_builder \<Rightarrow> script_builder" where
  "Reset b = \<lparr>sb_script = [], sb_err = False\<rparr>"

text \<open>The script and whether there is an error.\<close>

definition Script :: "script_builder \<Rightarrow> bytes \<times> bool" where
  "Script b = (sb_script b, sb_err b)"

section \<open>Payment scripts\<close>

definition payToPubKeyHashScript :: "bytes \<Rightarrow> bytes \<times> bool" where
  "payToPubKeyHashScript pubKeyHash =
    Script (AddOp OP_CHECKSIG (AddOp OP_EQUALVERIFY (AddData pubKeyHash (AddOp OP_HASH160 (AddOp OP_DUP NewScriptBuilder)))))"

definition payToWitnessPubKeyHashScript :: "bytes \<Rightarrow> bytes \<times> bool" where
  "payToWitnessPubKeyHashScript pubKeyHash = Script (AddData pubKeyHash (AddOp OP_0 NewScriptBuilder))"

definition payToScriptHashScript :: "bytes \<Rightarrow> bytes \<times> bool" where
  "payToScriptHashScript scriptHash = Script (AddOp OP_EQUAL (AddData scriptHash (AddOp OP_HASH160 NewScriptBuilder)))"

definition payToWitnessScriptHashScript :: "bytes \<Rightarrow> bytes \<times> bool" where
  "payToWitnessScriptHashScript scriptHash = Script (AddData scriptHash (AddOp OP_0 NewScriptBuilder))"

definition payToWitnessTaprootScript :: "bytes \<Rightarrow> bytes \<times> bool" where
  "payToWitnessTaprootScript rawKey = Script (AddData rawKey (AddOp OP_1 NewScriptBuilder))"

definition payToAnchorScript :: "bytes \<Rightarrow> bytes \<times> bool" where
  "payToAnchorScript witnessProgram = Script (AddData witnessProgram (AddOp OP_1 NewScriptBuilder))"

definition payToPubKeyScript :: "bytes \<Rightarrow> bytes \<times> bool" where
  "payToPubKeyScript serializedPubKey = Script (AddOp OP_CHECKSIG (AddData serializedPubKey NewScriptBuilder))"

definition NullDataScript :: "bytes \<Rightarrow> (bytes \<times> bool) option" where
  "NullDataScript data = (if length data > MaxDataCarrierSize then None else Some (Script (AddData data (AddOp OP_RETURN NewScriptBuilder))))"

definition MultiSigScript :: "bytes list \<Rightarrow> nat \<Rightarrow> ((engine_error, bytes \<times> bool) outcome) option" where
  "MultiSigScript pubkeys nrequired =
    (if length pubkeys < nrequired then None
     else Some (obind (AddInt64 (word_of_nat nrequired) NewScriptBuilder) (\<lambda>b.
       obind (AddInt64 (word_of_nat (length pubkeys)) (fold AddData pubkeys b)) (\<lambda>b. Ret (Script (AddOp OP_CHECKMULTISIG b))))))"

section \<open>Pushes are read back\<close>

text \<open>The value that the bytes written for some data push: the data, except that a single zero byte becomes the empty string.\<close>

definition pushed_value :: "bytes \<Rightarrow> bytes" where
  "pushed_value data = (if data = [0] then [] else data)"

text \<open>The opcode that is chosen, and the data that the tokenizer finds behind it.\<close>

definition push_opcode :: "bytes \<Rightarrow> byte \<times> bytes option" where
  "push_opcode data =
    (if data = [] \<or> data = [0] then (OP_0, None)
     else if length data = 1 \<and> data ! 0 \<le> 16 then (OP_1 - 1 + data ! 0, None)
     else if data = [0x81] then (OP_1NEGATE, None)
     else (if length data < 76 then word_of_nat (length data) else if length data \<le> 0xff then OP_PUSHDATA1
       else if length data \<le> 0xffff then OP_PUSHDATA2 else OP_PUSHDATA4, Some data))"

lemma length_push_data: "length (push_data data) = canonicalDataSize data"
  by (auto simp: push_data_def canonicalDataSize_def Let_def)

lemma parse_op_direct:
  assumes "0 < length d" "length d < 76"
  shows "parse_op (word_of_nat (length d) # d @ r) = Some (word_of_nat (length d), Some d, Suc (length d))"
proof -
  have u: "unat (word_of_nat (length d) :: byte) = length d" using assms by (simp add: unat_of_nat)
  then have "1 \<le> (word_of_nat (length d) :: byte)" "(word_of_nat (length d) :: byte) \<le> 75"
    using assms by (simp_all add: word_le_nat_alt Suc_le_eq)
  then show ?thesis by (simp add: parse_op_def u)
qed

lemma parse_op_pushdata:
  assumes "b = OP_PUSHDATA1 \<and> k = 1 \<or> b = OP_PUSHDATA2 \<and> k = 2 \<or> b = OP_PUSHDATA4 \<and> k = 4"
    and "length l = k" "unat (le_word l :: u32) = length d" "length d < 2 ^ 31"
  shows "parse_op (b # l @ d @ r) = Some (b, Some d, Suc (k + length d))"
  using assms by (elim disjE) (auto simp: parse_op_def Let_def)

lemma parse_op_push_data:
  assumes "length data < 2 ^ 31"
  shows "parse_op (push_data data @ r) = Some (fst (push_opcode data), snd (push_opcode data), canonicalDataSize data)"
proof -
  consider (empty) "data = [] \<or> data = [0]" | (small) x where "data = [x]" "x \<le> 16" "x \<noteq> 0" | (neg) "data = [0x81]"
    | (direct) "data \<noteq> []" "\<not> (length data = 1 \<and> (data ! 0 \<le> 16 \<or> data ! 0 = 0x81))" "length data < 76"
    | (p1) "76 \<le> length data" "length data \<le> 0xff" | (p2) "0xff < length data" "length data \<le> 0xffff" | (p4) "0xffff < length data"
    by (cases data; cases "tl data") (force)+
  then show ?thesis
  proof cases
    case empty
    then show ?thesis by (auto simp: push_data_def push_opcode_def canonicalDataSize_def parse_op_def)
  next
    case small
    have "1 \<le> unat x" "unat x \<le> 16" using small(2,3) by (simp_all add: word_le_nat_alt Suc_le_eq unat_gt_0)
    then have "IsSmallInt (OP_1 - 1 + x)" by (simp add: IsSmallInt_def word_le_nat_alt unat_word_ariths)
    from parse_op_SmallInt [OF this, of r] show ?thesis
      using small by (simp add: push_data_def push_opcode_def canonicalDataSize_def Let_def)
  next
    case neg
    then show ?thesis by (auto simp: push_data_def push_opcode_def canonicalDataSize_def parse_op_def)
  next
    case direct
    then show ?thesis using parse_op_direct [of data r]
      by (auto simp: push_data_def push_opcode_def canonicalDataSize_def Let_def)
  next
    case p1
    then show ?thesis using parse_op_pushdata [of OP_PUSHDATA1 1 "[word_of_nat (length data)]" data r]
      by (auto simp: push_data_def push_opcode_def canonicalDataSize_def Let_def unat_of_nat unat_ucast_up)
  next
    case p2
    then show ?thesis using parse_op_pushdata [of OP_PUSHDATA2 2 "le_bytes 2 (word_of_nat (length data) :: u16)" data r]
      by (auto simp: push_data_def push_opcode_def canonicalDataSize_def Let_def unat_of_nat unat_ucast_up le_word_le_bytes
          le_word_ucast [where 'b = 16 and 'a = 32])
  next
    case p4
    then show ?thesis using parse_op_pushdata [of OP_PUSHDATA4 4 "le_bytes 4 (word_of_nat (length data) :: u32)" data r] assms
      by (auto simp: push_data_def push_opcode_def canonicalDataSize_def Let_def unat_of_nat le_word_le_bytes)
  qed
qed

end
