(* ===== verification/Opcodes.thy ===== *)
theory Opcodes
  imports Sig_Check Script_Builder
begin

text \<open>
  The functions that execute one opcode, \<open>txscript/opcode.go\<close>, and the table that assigns them to opcodes. Each is a
  function of the engine to the changed engine or an error. The table has one entry per opcode from \<open>OP_NOP\<close>
  on that is not invalid; the pushes and the small integers below it are ranges.
\<close>

unbundle bit_operations_syntax

section \<open>Operations of the engine\<close>

type_synonym 'a vm_op = "engine \<Rightarrow> (engine_error, 'a \<times> engine) outcome"

definition on_dstack :: "'a stack_op \<Rightarrow> 'a vm_op" where
  "on_dstack m vm = obind (m (vm_dstack vm)) (\<lambda>(x, s). Ret (x, vm\<lparr>vm_dstack := s\<rparr>))"

definition on_astack :: "'a stack_op \<Rightarrow> 'a vm_op" where
  "on_astack m vm = obind (m (vm_astack vm)) (\<lambda>(x, s). Ret (x, vm\<lparr>vm_astack := s\<rparr>))"

definition lift_outcome :: "(engine \<Rightarrow> (engine_error, 'a) outcome) \<Rightarrow> 'a vm_op" where
  "lift_outcome m vm = obind (m vm) (\<lambda>x. Ret (x, vm))"

abbreviation (input) popBytes :: "bytes vm_op" where "popBytes \<equiv> on_dstack PopByteArray"
abbreviation (input) popInt :: "int vm_op" where "popInt \<equiv> on_dstack PopInt"
abbreviation (input) pushBytes :: "bytes \<Rightarrow> unit vm_op" where "pushBytes b \<equiv> on_dstack (PushByteArray b)"
abbreviation (input) pushInt :: "int \<Rightarrow> unit vm_op" where "pushInt n \<equiv> on_dstack (PushInt n)"
abbreviation (input) pushBool :: "bool \<Rightarrow> unit vm_op" where "pushBool b \<equiv> on_dstack (PushBool b)"

definition isBranchExecuting :: "engine \<Rightarrow> bool" where
  "isBranchExecuting vm = (case vm_condStack vm of [] \<Rightarrow> True | c # _ \<Rightarrow> c = OpCondTrue)"

definition MaxOpsPerScript :: int where
  "MaxOpsPerScript = 201"

definition MaxPubKeysPerMultiSig :: int where
  "MaxPubKeysPerMultiSig = 20"

section \<open>Pushes and flow\<close>

definition opcodeDisabled :: "unit vm_op" where
  "opcodeDisabled = sfail ErrDisabledOpcode"

definition opcodeReserved :: "unit vm_op" where
  "opcodeReserved = sfail ErrReservedOpcode"

definition opcodeInvalid :: "unit vm_op" where
  "opcodeInvalid = sfail ErrReservedOpcode"

definition opcodeFalse :: "unit vm_op" where
  "opcodeFalse = pushBytes []"

definition opcodePushData :: "bytes \<Rightarrow> unit vm_op" where
  "opcodePushData data = pushBytes data"

definition opcode1Negate :: "unit vm_op" where
  "opcode1Negate = pushInt (- 1)"

definition opcodeN :: "byte \<Rightarrow> unit vm_op" where
  "opcodeN op = pushInt (uint (op - (OP_1 - 1)))"

definition opcodeNop :: "byte \<Rightarrow> unit vm_op" where
  "opcodeNop op vm =
    (if op \<in> {0xb0, 0xb3, 0xb4, 0xb5, 0xb6, 0xb7, 0xb8, 0xb9} \<and> hasFlag vm ScriptDiscourageUpgradableNops
     then Fail ErrDiscourageUpgradableNOPs else Ret ((), vm))"

definition popIfBool :: "bool vm_op" where
  "popIfBool vm =
    (if \<not> isWitnessVersionActive vm TaprootWitnessVersion
        \<and> (\<not> isWitnessVersionActive vm BaseSegwitWitnessVersion \<or> \<not> hasFlag vm ScriptVerifyMinimalIf)
     then on_dstack PopBool vm
     else sbind popBytes (\<lambda>so.
       if length so > 1 then sfail ErrMinimalIf
       else if length so = 1 \<and> so ! 0 \<noteq> 1 then sfail ErrMinimalIf
       else sret (asBool so)) vm)"

definition pushCond :: "op_cond \<Rightarrow> unit vm_op" where
  "pushCond c vm = Ret ((), vm\<lparr>vm_condStack := c # vm_condStack vm\<rparr>)"

definition opcodeIf :: "unit vm_op" where
  "opcodeIf vm =
    (if isBranchExecuting vm then sbind popIfBool (\<lambda>ok. pushCond (if ok then OpCondTrue else OpCondFalse)) vm
     else pushCond OpCondSkip vm)"

definition opcodeNotIf :: "unit vm_op" where
  "opcodeNotIf vm =
    (if isBranchExecuting vm then sbind popIfBool (\<lambda>ok. pushCond (if \<not> ok then OpCondTrue else OpCondFalse)) vm
     else pushCond OpCondSkip vm)"

definition opcodeElse :: "unit vm_op" where
  "opcodeElse vm =
    (case vm_condStack vm of
       [] \<Rightarrow> Fail ErrUnbalancedConditional
     | c # cs \<Rightarrow>
        Ret ((), vm\<lparr>vm_condStack := (case c of OpCondTrue \<Rightarrow> OpCondFalse | OpCondFalse \<Rightarrow> OpCondTrue | OpCondSkip \<Rightarrow> OpCondSkip) # cs\<rparr>))"

definition opcodeEndif :: "unit vm_op" where
  "opcodeEndif vm = (case vm_condStack vm of [] \<Rightarrow> Fail ErrUnbalancedConditional | c # cs \<Rightarrow> Ret ((), vm\<lparr>vm_condStack := cs\<rparr>))"

definition abstractVerify :: "engine_error \<Rightarrow> unit vm_op" where
  "abstractVerify c = sbind (on_dstack PopBool) (\<lambda>verified. if \<not> verified then sfail c else sret ())"

definition opcodeVerify :: "unit vm_op" where
  "opcodeVerify = abstractVerify ErrVerify"

definition opcodeReturn :: "unit vm_op" where
  "opcodeReturn = sfail ErrEarlyReturn"

section \<open>Lock times\<close>

definition LockTimeThreshold :: int where
  "LockTimeThreshold = 500000000"

definition verifyLockTime :: "int \<Rightarrow> int \<Rightarrow> int \<Rightarrow> unit vm_op" where
  "verifyLockTime txLockTime threshold lockTime =
    (if \<not> ((txLockTime < threshold \<and> lockTime < threshold) \<or> (txLockTime \<ge> threshold \<and> lockTime \<ge> threshold))
     then sfail ErrUnsatisfiedLockTime
     else if lockTime > txLockTime then sfail ErrUnsatisfiedLockTime
     else sret ())"

definition peek_locktime :: "int vm_op" where
  "peek_locktime = sbind (on_dstack (PeekByteArray 0)) (\<lambda>so vm.
     case MakeScriptNum so (verifyMinimalData (vm_dstack vm)) 5 of Inl e \<Rightarrow> Fail e | Inr n \<Rightarrow> Ret (n, vm))"

definition opcodeCheckLockTimeVerify :: "unit vm_op" where
  "opcodeCheckLockTimeVerify vm =
    (if \<not> hasFlag vm ScriptVerifyCheckLockTimeVerify then
       (if hasFlag vm ScriptDiscourageUpgradableNops then Fail ErrDiscourageUpgradableNOPs else Ret ((), vm))
     else sbind peek_locktime (\<lambda>lockTime.
       if lockTime < 0 then sfail ErrNegativeLockTime
       else sbind (verifyLockTime (uint (tx_LockTime (vm_tx vm))) LockTimeThreshold lockTime) (\<lambda>_.
         sbind (lift_outcome (\<lambda>vm. go_nth (tx_TxIn (vm_tx vm)) (vm_txIdx vm))) (\<lambda>txIn.
           if in_Sequence txIn = - 1 then sfail ErrUnsatisfiedLockTime else sret ()))) vm)"

definition SequenceLockTimeDisabled :: int where
  "SequenceLockTimeDisabled = 2 ^ 31"

definition SequenceLockTimeIsSeconds :: int where
  "SequenceLockTimeIsSeconds = 2 ^ 22"

definition SequenceLockTimeMask :: int where
  "SequenceLockTimeMask = 0xffff"

definition opcodeCheckSequenceVerify :: "unit vm_op" where
  "opcodeCheckSequenceVerify vm =
    (if \<not> hasFlag vm ScriptVerifyCheckSequenceVerify then
       (if hasFlag vm ScriptDiscourageUpgradableNops then Fail ErrDiscourageUpgradableNOPs else Ret ((), vm))
     else sbind peek_locktime (\<lambda>stackSequence.
       if stackSequence < 0 then sfail ErrNegativeLockTime
       else if stackSequence AND SequenceLockTimeDisabled \<noteq> 0 then sret ()
       else if tx_Version (vm_tx vm) < 2 then sfail ErrUnsatisfiedLockTime
       else sbind (lift_outcome (\<lambda>vm. go_nth (tx_TxIn (vm_tx vm)) (vm_txIdx vm))) (\<lambda>txIn.
         let txSequence = uint (in_Sequence txIn); lockTimeMask = SequenceLockTimeIsSeconds OR SequenceLockTimeMask in
         if txSequence AND SequenceLockTimeDisabled \<noteq> 0 then sfail ErrUnsatisfiedLockTime
         else verifyLockTime (txSequence AND lockTimeMask) SequenceLockTimeIsSeconds (stackSequence AND lockTimeMask))) vm)"

section \<open>Stack manipulation\<close>

definition opcodeToAltStack :: "unit vm_op" where
  "opcodeToAltStack = sbind popBytes (\<lambda>so. on_astack (PushByteArray so))"

definition opcodeFromAltStack :: "unit vm_op" where
  "opcodeFromAltStack = sbind (on_astack PopByteArray) pushBytes"

definition opcode2Drop :: "unit vm_op" where "opcode2Drop = on_dstack (DropN 2)"
definition opcode2Dup :: "unit vm_op" where "opcode2Dup = on_dstack (DupN 2)"
definition opcode3Dup :: "unit vm_op" where "opcode3Dup = on_dstack (DupN 3)"
definition opcode2Over :: "unit vm_op" where "opcode2Over = on_dstack (OverN 2)"
definition opcode2Rot :: "unit vm_op" where "opcode2Rot = on_dstack (RotN 2)"
definition opcode2Swap :: "unit vm_op" where "opcode2Swap = on_dstack (SwapN 2)"

definition opcodeIfDup :: "unit vm_op" where
  "opcodeIfDup = sbind (on_dstack (PeekByteArray 0)) (\<lambda>so. if asBool so then pushBytes so else sret ())"

definition opcodeDepth :: "unit vm_op" where
  "opcodeDepth vm = pushInt (Depth (vm_dstack vm)) vm"

definition opcodeDrop :: "unit vm_op" where "opcodeDrop = on_dstack (DropN 1)"
definition opcodeDup :: "unit vm_op" where "opcodeDup = on_dstack (DupN 1)"
definition opcodeNip :: "unit vm_op" where "opcodeNip = on_dstack (NipN 1)"
definition opcodeOver :: "unit vm_op" where "opcodeOver = on_dstack (OverN 1)"
definition opcodePick :: "unit vm_op" where "opcodePick = sbind popInt (\<lambda>val. on_dstack (PickN (Int32 val)))"
definition opcodeRoll :: "unit vm_op" where "opcodeRoll = sbind popInt (\<lambda>val. on_dstack (RollN (Int32 val)))"
definition opcodeRot :: "unit vm_op" where "opcodeRot = on_dstack (RotN 1)"
definition opcodeSwap :: "unit vm_op" where "opcodeSwap = on_dstack (SwapN 1)"
definition opcodeTuck :: "unit vm_op" where "opcodeTuck = on_dstack Tuck"

definition opcodeSize :: "unit vm_op" where
  "opcodeSize = sbind (on_dstack (PeekByteArray 0)) (\<lambda>so. pushInt (int (length so)))"

definition opcodeEqual :: "unit vm_op" where
  "opcodeEqual = sbind popBytes (\<lambda>a. sbind popBytes (\<lambda>b. pushBool (a = b)))"

definition opcodeEqualVerify :: "unit vm_op" where
  "opcodeEqualVerify = sbind opcodeEqual (\<lambda>_. abstractVerify ErrEqualVerify)"

section \<open>Arithmetic\<close>

definition num1 :: "(int \<Rightarrow> int) \<Rightarrow> unit vm_op" where
  "num1 f = sbind popInt (\<lambda>m. pushInt (f m))"

definition num2 :: "(int \<Rightarrow> int \<Rightarrow> int) \<Rightarrow> unit vm_op" where
  "num2 f = sbind popInt (\<lambda>v0. sbind popInt (\<lambda>v1. pushInt (f v0 v1)))"

definition truth :: "bool \<Rightarrow> int" where
  "truth b = (if b then 1 else 0)"

definition opcode1Add :: "unit vm_op" where "opcode1Add = num1 (\<lambda>m. wrap64 (m + 1))"
definition opcode1Sub :: "unit vm_op" where "opcode1Sub = num1 (\<lambda>m. wrap64 (m - 1))"
definition opcodeNegate :: "unit vm_op" where "opcodeNegate = num1 (\<lambda>m. wrap64 (- m))"
definition opcodeAbs :: "unit vm_op" where "opcodeAbs = num1 (\<lambda>m. if m < 0 then wrap64 (- m) else m)"
definition opcodeNot :: "unit vm_op" where "opcodeNot = num1 (\<lambda>m. truth (m = 0))"
definition opcode0NotEqual :: "unit vm_op" where "opcode0NotEqual = num1 (\<lambda>m. if m \<noteq> 0 then 1 else m)"
definition opcodeAdd :: "unit vm_op" where "opcodeAdd = num2 (\<lambda>v0 v1. wrap64 (v0 + v1))"
definition opcodeSub :: "unit vm_op" where "opcodeSub = num2 (\<lambda>v0 v1. wrap64 (v1 - v0))"
definition opcodeBoolAnd :: "unit vm_op" where "opcodeBoolAnd = num2 (\<lambda>v0 v1. truth (v0 \<noteq> 0 \<and> v1 \<noteq> 0))"
definition opcodeBoolOr :: "unit vm_op" where "opcodeBoolOr = num2 (\<lambda>v0 v1. truth (v0 \<noteq> 0 \<or> v1 \<noteq> 0))"
definition opcodeNumEqual :: "unit vm_op" where "opcodeNumEqual = num2 (\<lambda>v0 v1. truth (v0 = v1))"

definition opcodeNumEqualVerify :: "unit vm_op" where
  "opcodeNumEqualVerify = sbind opcodeNumEqual (\<lambda>_. abstractVerify ErrNumEqualVerify)"

definition opcodeNumNotEqual :: "unit vm_op" where "opcodeNumNotEqual = num2 (\<lambda>v0 v1. truth (v0 \<noteq> v1))"
definition opcodeLessThan :: "unit vm_op" where "opcodeLessThan = num2 (\<lambda>v0 v1. truth (v1 < v0))"
definition opcodeGreaterThan :: "unit vm_op" where "opcodeGreaterThan = num2 (\<lambda>v0 v1. truth (v1 > v0))"
definition opcodeLessThanOrEqual :: "unit vm_op" where "opcodeLessThanOrEqual = num2 (\<lambda>v0 v1. truth (v1 \<le> v0))"
definition opcodeGreaterThanOrEqual :: "unit vm_op" where "opcodeGreaterThanOrEqual = num2 (\<lambda>v0 v1. truth (v1 \<ge> v0))"
definition opcodeMin :: "unit vm_op" where "opcodeMin = num2 (\<lambda>v0 v1. if v1 < v0 then v1 else v0)"
definition opcodeMax :: "unit vm_op" where "opcodeMax = num2 (\<lambda>v0 v1. if v1 > v0 then v1 else v0)"

definition opcodeWithin :: "unit vm_op" where
  "opcodeWithin = sbind popInt (\<lambda>maxVal. sbind popInt (\<lambda>minVal. sbind popInt (\<lambda>x. pushInt (truth (x \<ge> minVal \<and> x < maxVal)))))"

section \<open>Hashes\<close>

definition hash_op :: "(bytes \<Rightarrow> bytes) \<Rightarrow> unit vm_op" where
  "hash_op f = sbind popBytes (\<lambda>buf. pushBytes (f buf))"

definition opcodeRipemd160 :: "('k, 's, 't) crypto \<Rightarrow> unit vm_op" where "opcodeRipemd160 C = hash_op (c_ripemd160 C)"
definition opcodeSha1 :: "('k, 's, 't) crypto \<Rightarrow> unit vm_op" where "opcodeSha1 C = hash_op (c_sha1 C)"
definition opcodeSha256 :: "('k, 's, 't) crypto \<Rightarrow> unit vm_op" where "opcodeSha256 C = hash_op (c_sha256 C)"
definition opcodeHash160 :: "('k, 's, 't) crypto \<Rightarrow> unit vm_op" where "opcodeHash160 C = hash_op (\<lambda>b. c_ripemd160 C (c_sha256 C b))"
definition opcodeHash256 :: "('k, 's, 't) crypto \<Rightarrow> unit vm_op" where "opcodeHash256 C = hash_op (DoubleHash (c_sha256 C))"

definition opcodeCodeSeparator :: "unit vm_op" where
  "opcodeCodeSeparator vm =
    Ret ((), vm\<lparr>vm_lastCodeSep := tk_offset (vm_tokenizer vm),
      vm_taprootCtx := map_option (\<lambda>t. t\<lparr>tc_codeSepPos := word_of_int (tk_opcodePos (vm_tokenizer vm))\<rparr>) (vm_taprootCtx vm)\<rparr>)"

section \<open>Signatures\<close>

text \<open>Whether \<open>newBaseSigVerifier\<close> failed with an error that is not a script error: then the signature counts as wrong.\<close>

definition or_false :: "(engine_error, 'a) outcome \<Rightarrow> ('a \<Rightarrow> unit vm_op) \<Rightarrow> unit vm_op" where
  "or_false m f vm = (case m of Panic \<Rightarrow> Panic | Fail e \<Rightarrow> (if e = ErrOther then pushBool False vm else Fail e) | Ret x \<Rightarrow> f x vm)"

definition check_result :: "bytes \<Rightarrow> bool \<times> bool \<Rightarrow> unit vm_op" where
  "check_result fullSigBytes r vm =
    (case r of (valid, match) \<Rightarrow>
      if hasFlag vm ScriptVerifyConstScriptCode \<and> match then Fail ErrNonConstScriptCode
      else if \<not> valid \<and> vm_taprootCtx vm \<noteq> None \<and> fullSigBytes \<noteq> [] then Fail ErrNullFail
      else if \<not> valid \<and> hasFlag vm ScriptVerifyNullFail \<and> fullSigBytes \<noteq> [] then Fail ErrNullFail
      else pushBool valid vm)"

text \<open>What follows the pops. The default case leaves the verifier nil, and calling it panics.\<close>

definition check_sig :: "('k, 's, 't) crypto \<Rightarrow> bytes \<Rightarrow> bytes \<Rightarrow> unit vm_op" where
  "check_sig C pkBytes fullSigBytes vm =
    (if vm_taprootCtx vm = None \<and> fullSigBytes = [] then
       (case checkPubKeyEncoding pkBytes vm of Some e \<Rightarrow> Fail e | None \<Rightarrow> pushBool False vm)
     else if vm_witnessProgram vm = None then
       or_false (newBaseSigVerifier C pkBytes fullSigBytes vm) (\<lambda>b. sbind (base_Verify C b) (check_result fullSigBytes)) vm
     else if isWitnessVersionActive vm BaseSegwitWitnessVersion then
       or_false (newBaseSigVerifier C pkBytes fullSigBytes vm) (\<lambda>b. sbind (segwit_Verify C b) (check_result fullSigBytes)) vm
     else case vm_taprootCtx vm of
       None \<Rightarrow> Panic
     | Some ctx \<Rightarrow>
        (case (if fullSigBytes \<noteq> [] then tallysigOp ctx else Inr ctx) of
           Inl e \<Rightarrow> Fail e
         | Inr ctx \<Rightarrow>
            let vm = vm\<lparr>vm_taprootCtx := Some ctx\<rparr> in
            if pkBytes = [] then Fail ErrTaprootPubkeyIsEmpty
            else if fullSigBytes = [] then pushBytes [] vm
            else obind (newBaseTapscriptSigVerifier C pkBytes fullSigBytes ctx vm) (\<lambda>b.
              sbind (tapscript_Verify C b ctx) (check_result fullSigBytes) vm)))"

definition opcodeCheckSig :: "('k, 's, 't) crypto \<Rightarrow> unit vm_op" where
  "opcodeCheckSig C = sbind popBytes (\<lambda>pkBytes. sbind popBytes (\<lambda>fullSigBytes. check_sig C pkBytes fullSigBytes))"

definition opcodeCheckSigVerify :: "('k, 's, 't) crypto \<Rightarrow> unit vm_op" where
  "opcodeCheckSigVerify C = sbind (opcodeCheckSig C) (\<lambda>_. abstractVerify ErrCheckSigVerify)"

definition add_sig :: "('k, 's, 't) crypto \<Rightarrow> bytes \<Rightarrow> int \<Rightarrow> bytes \<Rightarrow> unit vm_op" where
  "add_sig C pubKeyBytes accumulatorInt sigBytes vm =
    (case vm_taprootCtx vm of
       None \<Rightarrow> Panic
     | Some ctx \<Rightarrow>
        (case (if sigBytes \<noteq> [] then tallysigOp ctx else Inr ctx) of
           Inl e \<Rightarrow> Fail e
         | Inr ctx \<Rightarrow>
            let vm = vm\<lparr>vm_taprootCtx := Some ctx\<rparr> in
            if pubKeyBytes = [] then Fail ErrTaprootPubkeyIsEmpty
            else if sigBytes = [] then pushInt accumulatorInt vm
            else obind (newBaseTapscriptSigVerifier C pubKeyBytes sigBytes ctx vm) (\<lambda>b.
              sbind (tapscript_Verify C b ctx) (\<lambda>(valid, _).
                if \<not> valid then sfail ErrNullFail else pushInt (wrap64 (accumulatorInt + 1))) vm)))"

definition opcodeCheckSigAdd :: "('k, 's, 't) crypto \<Rightarrow> unit vm_op" where
  "opcodeCheckSigAdd C vm =
    (if vm_taprootCtx vm = None then Fail ErrReservedOpcode
     else sbind popBytes (\<lambda>pubKeyBytes. sbind popInt (\<lambda>accumulatorInt. sbind popBytes (\<lambda>sigBytes.
       add_sig C pubKeyBytes accumulatorInt sigBytes))) vm)"

section \<open>Several signatures\<close>

primrec pop_n :: "nat \<Rightarrow> bytes list vm_op" where
  "pop_n 0 = sret []"
| "pop_n (Suc n) = sbind popBytes (\<lambda>x. sbind (pop_n n) (\<lambda>xs. sret (x # xs)))"

fun remove_sigs :: "bytes list \<Rightarrow> bytes \<Rightarrow> bytes vm_op" where
  "remove_sigs [] script vm = Ret (script, vm)"
| "remove_sigs (sig # sigs) script vm =
    (case removeOpcodeByData script sig of (script', match) \<Rightarrow>
      if hasFlag vm ScriptVerifyConstScriptCode \<and> match then Fail ErrNonConstScriptCode else remove_sigs sigs script' vm)"

text \<open>
  What is known of the signature at hand: not parsed yet, parsed without success, or parsed. The encoding is checked once, when it
  is parsed.
\<close>

datatype 's parsed_sig = Unparsed | BadSig | Parsed 's

definition parse_sig :: "('k, 's, 't) crypto \<Rightarrow> bytes \<Rightarrow> 's parsed_sig \<Rightarrow> engine \<Rightarrow> (engine_error, 's parsed_sig) outcome" where
  "parse_sig C rawSig st vm =
    (case st of
       Unparsed \<Rightarrow>
         obind (or_fail (checkHashTypeEncoding (ucast (last rawSig)) vm)) (\<lambda>_.
           obind (checkSignatureEncoding C (butlast rawSig) vm) (\<lambda>_.
             Ret (case (if hasFlag vm ScriptVerifyStrictEncoding \<or> hasFlag vm ScriptVerifyDERSignatures
                   then c_ParseDERSignature C (butlast rawSig) else c_ParseSignature C (butlast rawSig)) of
               None \<Rightarrow> BadSig | Some s \<Rightarrow> Parsed s)))
     | _ \<Rightarrow> Ret st)"

definition multisig_hash :: "('k, 's, 't) crypto \<Rightarrow> bytes \<Rightarrow> SigHashType \<Rightarrow> engine \<Rightarrow> (engine_error, bytes) outcome" where
  "multisig_hash C script hashType vm =
    (if isWitnessVersionActive vm 0 then
       obind (sig_hashes C vm) (\<lambda>sigHashes.
         case calcWitnessSignatureHashRaw (c_sha256 C) script sigHashes hashType (vm_tx vm) (vm_txIdx vm) (vm_inputAmount vm) of
           Inl e \<Rightarrow> Fail e | Inr h \<Rightarrow> Ret h)
     else calcSignatureHash (c_sha256 C) script hashType (vm_tx vm) (vm_txIdx vm))"

text \<open>One signature against one key: whether it is valid, and what is then known of the signature.\<close>

definition multisig_try :: "('k, 's, 't) crypto \<Rightarrow> bytes \<Rightarrow> bytes \<Rightarrow> 's parsed_sig \<Rightarrow> bytes \<Rightarrow> (bool \<times> 's parsed_sig) vm_op" where
  "multisig_try C script rawSig st pubKey vm =
    obind (parse_sig C rawSig st vm) (\<lambda>st.
      case st of
        Parsed sig \<Rightarrow>
          obind (or_fail (checkPubKeyEncoding pubKey vm)) (\<lambda>_.
            case c_ParsePubKey C pubKey of
              None \<Rightarrow> Ret ((False, st), vm)
            | Some key \<Rightarrow>
               obind (multisig_hash C script (ucast (last rawSig)) vm) (\<lambda>h.
                 case cached_verify C (to_hash h) (butlast rawSig) pubKey (c_Verify C sig h key) vm of
                   (valid, vm) \<Rightarrow> Ret ((valid, st), vm)))
      | _ \<Rightarrow> Ret ((False, st), vm))"

text \<open>
  The loop over the public keys. The lists are what remains of the signatures and of the keys from the current indexes on,
  so their lengths are the two counters of the code.
\<close>

fun multisig_loop :: "('k, 's, 't) crypto \<Rightarrow> bytes \<Rightarrow> bytes list \<Rightarrow> 's parsed_sig \<Rightarrow> bytes list \<Rightarrow> bool vm_op" where
  "multisig_loop C script sigs st [] vm = Ret (sigs = [], vm)"
| "multisig_loop C script sigs st (pubKey # pubKeys) vm =
    (case sigs of
       [] \<Rightarrow> Ret (True, vm)
     | rawSig # sigs' \<Rightarrow>
        if length sigs > length (pubKey # pubKeys) then Ret (False, vm)
        else if rawSig = [] then multisig_loop C script sigs st pubKeys vm
        else sbind (multisig_try C script rawSig st pubKey) (\<lambda>(valid, st).
          if valid then multisig_loop C script sigs' Unparsed pubKeys else multisig_loop C script sigs st pubKeys) vm)"

text \<open>The opcode after its three counted pops, backwards: the verification, the signatures, the keys.\<close>

definition multisig_verify :: "('k, 's, 't) crypto \<Rightarrow> bytes list \<Rightarrow> bytes list \<Rightarrow> bytes \<Rightarrow> unit vm_op" where
  "multisig_verify C pubKeys signatures dummy vm =
    (if hasFlag vm ScriptStrictMultiSig \<and> dummy \<noteq> [] then Fail ErrSigNullDummy
     else sbind (lift_outcome subScript) (\<lambda>script.
       sbind (if \<not> isWitnessVersionActive vm 0 then remove_sigs signatures script else sret script) (\<lambda>script.
         sbind (multisig_loop C script signatures Unparsed pubKeys) (\<lambda>success vm.
           if \<not> success \<and> hasFlag vm ScriptVerifyNullFail \<and> (\<exists>sig\<in>set signatures. sig \<noteq> []) then Fail ErrNullFail
           else pushBool success vm))) vm)"

definition multisig_sigs :: "('k, 's, 't) crypto \<Rightarrow> int \<Rightarrow> bytes list \<Rightarrow> int \<Rightarrow> unit vm_op" where
  "multisig_sigs C numPubKeys pubKeys numSignatures =
    (if numSignatures < 0 then sfail ErrInvalidSignatureCount
     else if numSignatures > numPubKeys then sfail ErrInvalidSignatureCount
     else sbind (pop_n (nat numSignatures)) (\<lambda>signatures. sbind popBytes (multisig_verify C pubKeys signatures)))"

definition multisig_keys :: "('k, 's, 't) crypto \<Rightarrow> int \<Rightarrow> unit vm_op" where
  "multisig_keys C numPubKeys vm =
    (if numPubKeys < 0 then Fail ErrInvalidPubKeyCount
     else if numPubKeys > MaxPubKeysPerMultiSig then Fail ErrInvalidPubKeyCount
     else let vm = vm\<lparr>vm_numOps := vm_numOps vm + numPubKeys\<rparr> in
     if vm_numOps vm > MaxOpsPerScript then Fail ErrTooManyOperations
     else sbind (pop_n (nat numPubKeys)) (\<lambda>pubKeys. sbind popInt (\<lambda>numSigs. multisig_sigs C numPubKeys pubKeys (Int32 numSigs))) vm)"

definition opcodeCheckMultiSig :: "('k, 's, 't) crypto \<Rightarrow> unit vm_op" where
  "opcodeCheckMultiSig C vm =
    (if vm_taprootCtx vm \<noteq> None then Fail ErrTapscriptCheckMultisig
     else sbind popInt (\<lambda>numKeys. multisig_keys C (Int32 numKeys)) vm)"

definition opcodeCheckMultiSigVerify :: "('k, 's, 't) crypto \<Rightarrow> unit vm_op" where
  "opcodeCheckMultiSigVerify C = sbind (opcodeCheckMultiSig C) (\<lambda>_. abstractVerify ErrCheckMultiSigVerify)"

section \<open>The table\<close>

definition opcode_table :: "('k, 's, 't) crypto \<Rightarrow> (byte \<times> unit vm_op) list" where
  "opcode_table C =
    [
     (0x61, opcodeNop 0x61), (0x62, opcodeReserved), (0x63, opcodeIf), (0x64, opcodeNotIf),
     (0x65, opcodeReserved), (0x66, opcodeReserved), (0x67, opcodeElse), (0x68, opcodeEndif),
     (0x69, opcodeVerify), (0x6a, opcodeReturn), (0x6b, opcodeToAltStack), (0x6c, opcodeFromAltStack),
     (0x6d, opcode2Drop), (0x6e, opcode2Dup), (0x6f, opcode3Dup), (0x70, opcode2Over),
     (0x71, opcode2Rot), (0x72, opcode2Swap), (0x73, opcodeIfDup), (0x74, opcodeDepth),
     (0x75, opcodeDrop), (0x76, opcodeDup), (0x77, opcodeNip), (0x78, opcodeOver),
     (0x79, opcodePick), (0x7a, opcodeRoll), (0x7b, opcodeRot), (0x7c, opcodeSwap),
     (0x7d, opcodeTuck), (0x7e, opcodeDisabled), (0x7f, opcodeDisabled), (0x80, opcodeDisabled),
     (0x81, opcodeDisabled), (0x82, opcodeSize), (0x83, opcodeDisabled), (0x84, opcodeDisabled),
     (0x85, opcodeDisabled), (0x86, opcodeDisabled), (0x87, opcodeEqual), (0x88, opcodeEqualVerify),
     (0x89, opcodeReserved), (0x8a, opcodeReserved), (0x8b, opcode1Add), (0x8c, opcode1Sub),
     (0x8d, opcodeDisabled), (0x8e, opcodeDisabled), (0x8f, opcodeNegate), (0x90, opcodeAbs),
     (0x91, opcodeNot), (0x92, opcode0NotEqual), (0x93, opcodeAdd), (0x94, opcodeSub),
     (0x95, opcodeDisabled), (0x96, opcodeDisabled), (0x97, opcodeDisabled), (0x98, opcodeDisabled),
     (0x99, opcodeDisabled), (0x9a, opcodeBoolAnd), (0x9b, opcodeBoolOr), (0x9c, opcodeNumEqual),
     (0x9d, opcodeNumEqualVerify), (0x9e, opcodeNumNotEqual), (0x9f, opcodeLessThan), (0xa0, opcodeGreaterThan),
     (0xa1, opcodeLessThanOrEqual), (0xa2, opcodeGreaterThanOrEqual), (0xa3, opcodeMin), (0xa4, opcodeMax),
     (0xa5, opcodeWithin), (0xa6, opcodeRipemd160 C), (0xa7, opcodeSha1 C), (0xa8, opcodeSha256 C),
     (0xa9, opcodeHash160 C), (0xaa, opcodeHash256 C), (0xab, opcodeCodeSeparator), (0xac, opcodeCheckSig C),
     (0xad, opcodeCheckSigVerify C), (0xae, opcodeCheckMultiSig C), (0xaf, opcodeCheckMultiSigVerify C), (0xb0, opcodeNop 0xb0),
     (0xb1, opcodeCheckLockTimeVerify), (0xb2, opcodeCheckSequenceVerify), (0xb3, opcodeNop 0xb3), (0xb4, opcodeNop 0xb4),
     (0xb5, opcodeNop 0xb5), (0xb6, opcodeNop 0xb6), (0xb7, opcodeNop 0xb7), (0xb8, opcodeNop 0xb8),
     (0xb9, opcodeNop 0xb9), (0xba, opcodeCheckSigAdd C)]"

text \<open>The \<open>opfunc\<close> field of \<open>opcodeArray\<close>.\<close>

definition opfunc :: "('k, 's, 't) crypto \<Rightarrow> byte \<Rightarrow> bytes \<Rightarrow> unit vm_op" where
  "opfunc C op data =
    (if op = OP_0 then opcodeFalse
     else if op \<le> OP_PUSHDATA4 then opcodePushData data
     else if op = OP_1NEGATE then opcode1Negate
     else if op = 0x50 then opcodeReserved
     else if op \<le> OP_16 then opcodeN op
     else case map_of (opcode_table C) op of Some f \<Rightarrow> f | None \<Rightarrow> opcodeInvalid)"

end
