(* ===== verification/Script_Engine.thy ===== *)
theory Script_Engine
  imports Opcodes
begin

text \<open>
  The script engine, \<open>txscript/engine.go\<close>: the rules around an opcode, the witness programs, one step, and running all
  scripts of an input. \<open>Execute\<close> is a loop that may not end as far as its text says; it is a partial function, so that not returning
  is the value \<^const>\<open>None\<close>.
\<close>

unbundle bit_operations_syntax

section \<open>One opcode\<close>

definition isOpcodeDisabled :: "byte \<Rightarrow> bool" where
  "isOpcodeDisabled opcode \<longleftrightarrow>
    opcode \<in> {0x7e, 0x7f, 0x80, 0x81, 0x83, 0x84, 0x85, 0x86, 0x8d, 0x8e, 0x95, 0x96, 0x97, 0x98, 0x99}"

definition isOpcodeAlwaysIllegal :: "byte \<Rightarrow> bool" where
  "isOpcodeAlwaysIllegal opcode \<longleftrightarrow> opcode \<in> {0x65, 0x66}"

definition isOpcodeConditional :: "byte \<Rightarrow> bool" where
  "isOpcodeConditional opcode \<longleftrightarrow> opcode \<in> {0x63, 0x64, 0x67, 0x68}"

definition checkMinimalDataPush :: "byte \<Rightarrow> bytes \<Rightarrow> engine_error option" where
  "checkMinimalDataPush opcodeVal data =
    (let dataLen = length data in
     if dataLen = 0 \<and> opcodeVal \<noteq> OP_0 then Some ErrMinimalData
     else if dataLen = 1 \<and> data ! 0 \<ge> 1 \<and> data ! 0 \<le> 16 then (if opcodeVal \<noteq> OP_1 + data ! 0 - 1 then Some ErrMinimalData else None)
     else if dataLen = 1 \<and> data ! 0 = 0x81 then (if opcodeVal \<noteq> OP_1NEGATE then Some ErrMinimalData else None)
     else if dataLen \<le> 75 then (if unat opcodeVal \<noteq> dataLen then Some ErrMinimalData else None)
     else if dataLen \<le> 255 then (if opcodeVal \<noteq> OP_PUSHDATA1 then Some ErrMinimalData else None)
     else if dataLen \<le> 65535 then (if opcodeVal \<noteq> OP_PUSHDATA2 then Some ErrMinimalData else None)
     else None)"

definition executeOpcode :: "('k, 's, 't) crypto \<Rightarrow> byte \<Rightarrow> bytes \<Rightarrow> unit vm_op" where
  "executeOpcode C op data vm =
    (if isOpcodeDisabled op then Fail ErrDisabledOpcode
     else if isOpcodeAlwaysIllegal op then Fail ErrReservedOpcode
     else let counted = (vm_taprootCtx vm = None \<and> op > OP_16); vm = (if counted then vm\<lparr>vm_numOps := vm_numOps vm + 1\<rparr> else vm) in
     if counted \<and> vm_numOps vm > MaxOpsPerScript then Fail ErrTooManyOperations
     else if \<not> counted \<and> length data > MaxScriptElementSize then Fail ErrElementTooBig
     else if op = OP_CODESEPARATOR \<and> vm_taprootCtx vm = None \<and> vm_witnessProgram vm = None \<and> hasFlag vm ScriptVerifyConstScriptCode
     then Fail ErrCodeSeparator
     else if \<not> isBranchExecuting vm \<and> \<not> isOpcodeConditional op then Ret ((), vm)
     else if verifyMinimalData (vm_dstack vm) \<and> isBranchExecuting vm \<and> op \<le> OP_PUSHDATA4 \<and> checkMinimalDataPush op data \<noteq> None
     then Fail ErrMinimalData
     else opfunc C op data vm)"

definition checkValidPC :: "engine \<Rightarrow> engine_error option" where
  "checkValidPC vm = (if vm_scriptIdx vm \<ge> length (vm_scripts vm) then Some ErrInvalidProgramCounter else None)"

section \<open>Witness programs\<close>

definition MaxStackSize :: int where
  "MaxStackSize = 1000"

definition IsPayToAnchorWitnessProgram :: "nat \<Rightarrow> bytes \<Rightarrow> bool" where
  "IsPayToAnchorWitnessProgram witnessVersion witnessProgram \<longleftrightarrow>
    witnessVersion = 1 \<and> length witnessProgram = 2 \<and> witnessProgram = [0x4e, 0x73]"

text \<open>The first element of the Go slice is the bottom of the stack.\<close>

definition witnessProgramAcceptStack :: "unit vm_op" where
  "witnessProgramAcceptStack vm =
    (case stk (vm_dstack vm) of
       [] \<Rightarrow> Fail ErrEvalFalse
     | t # _ \<Rightarrow> if \<not> asBool t then Fail ErrEvalFalse else Ret ((), vm\<lparr>vm_dstack := (vm_dstack vm)\<lparr>stk := [last (stk (vm_dstack vm))]\<rparr>\<rparr>))"

definition SetStack :: "bytes list \<Rightarrow> engine \<Rightarrow> engine" where
  "SetStack data vm = vm\<lparr>vm_dstack := setStack data (vm_dstack vm)\<rparr>"

definition GetStack :: "engine \<Rightarrow> bytes list" where
  "GetStack vm = getStack (vm_dstack vm)"

definition add_script :: "bytes \<Rightarrow> bytes list \<Rightarrow> engine \<Rightarrow> engine" where
  "add_script script stack vm = SetStack stack (vm\<lparr>vm_scripts := vm_scripts vm @ [script]\<rparr>)"

definition must_parse :: "bytes \<Rightarrow> unit vm_op" where
  "must_parse script vm = (case checkScriptParses (vm_version vm) script of Some e \<Rightarrow> Fail (ErrParse e) | None \<Rightarrow> Ret ((), vm))"

text \<open>A program of version 0. The result says whether the size limits after the switch are still to be checked.\<close>

definition verify_v0 :: "('k, 's, 't) crypto \<Rightarrow> bytes \<Rightarrow> bytes list \<Rightarrow> bool vm_op" where
  "verify_v0 C program witness vm =
    (if length program = 20 then
       if length witness \<noteq> 2 then
         (if length witness = 0 then Ret (False, vm) else Fail ErrWitnessProgramMismatch)
       else (case payToPubKeyHashScript program of (pkScript, err) \<Rightarrow>
         if err then Fail ErrOther
         else sbind (must_parse pkScript) (\<lambda>_ vm. Ret (True, add_script pkScript witness vm)) vm)
     else if length program = 32 then
       if length witness = 0 then Fail ErrWitnessProgramEmpty
       else let witnessScript = last witness in
         if length witnessScript > MaxScriptSize then Fail ErrScriptTooBig
         else if c_sha256 C witnessScript \<noteq> program then Fail ErrWitnessProgramMismatch
         else sbind (must_parse witnessScript) (\<lambda>_ vm. Ret (True, add_script witnessScript (butlast witness) vm)) vm
     else Fail ErrWitnessProgramWrongLength)"

definition succeed :: "taproot_ctx \<Rightarrow> bool vm_op" where
  "succeed ctx vm = Ret (False, vm\<lparr>vm_taprootCtx := Some (ctx\<lparr>tc_mustSucceed := True\<rparr>)\<rparr>)"

text \<open>A leaf of the script tree.\<close>

definition verify_leaf :: "('k, 's, 't) crypto \<Rightarrow> bytes \<Rightarrow> bytes list \<Rightarrow> taproot_ctx \<Rightarrow> bool vm_op" where
  "verify_leaf C program witness ctx vm =
    obind (ParseControlBlock C (last witness)) (\<lambda>controlBlock.
    obind (go_nth (rev witness) 1) (\<lambda>witnessScript.
    obind (VerifyTaprootLeafCommitment C controlBlock program witnessScript) (\<lambda>_.
    if ScriptHasOpSuccess witnessScript then
      (if hasFlag vm ScriptVerifyDiscourageOpSuccess then Fail ErrDiscourageOpSuccess else succeed ctx vm)
    else if cb_LeafVersion controlBlock \<noteq> BaseLeafVersion then
      (if hasFlag vm ScriptVerifyDiscourageUpgradeableTaprootVersion then Fail ErrDiscourageUpgradeableTaprootVersion else succeed ctx vm)
    else sbind (must_parse witnessScript) (\<lambda>_ vm.
      let vm = vm\<lparr>vm_taprootCtx := Some (ctx\<lparr>tc_tapLeafHash := TapLeaf_TapHash C BaseLeafVersion witnessScript\<rparr>)\<rparr>
      in Ret (True, add_script witnessScript (take (length witness - 2) witness) vm)) vm)))"

definition verify_taproot :: "('k, 's, 't) crypto \<Rightarrow> bytes \<Rightarrow> bytes list \<Rightarrow> bool vm_op" where
  "verify_taproot C program witness vm =
    (if \<not> hasFlag vm ScriptVerifyTaproot then Ret (False, vm)
     else if length witness = 0 then Fail ErrWitnessProgramEmpty
     else let
       ctx = newTaprootExecutionCtx (wrap32 (int (TxWitness_SerializeSize witness)));
       annexed = isAnnexedWitness witness;
       ctx = (if annexed then ctx\<lparr>tc_annex := extractAnnex witness\<rparr> else ctx);
       witness = (if annexed then butlast witness else witness);
       vm = vm\<lparr>vm_taprootCtx := Some ctx\<rparr>
     in if length witness = 1
        then obind (VerifyTaprootKeySpend C program (witness ! 0) vm) (\<lambda>vm. succeed ctx vm)
        else verify_leaf C program witness ctx vm)"

definition check_sizes :: "unit vm_op" where
  "check_sizes vm =
    (let too_big = list_ex (\<lambda>e. length e > MaxScriptElementSize) (GetStack vm) in
     if isWitnessVersionActive vm TaprootWitnessVersion then
       (if Depth (vm_dstack vm) > MaxStackSize then Fail ErrStackOverflow
        else if too_big then Fail ErrElementTooBig else Ret ((), vm))
     else if isWitnessVersionActive vm BaseSegwitWitnessVersion then (if too_big then Fail ErrElementTooBig else Ret ((), vm))
     else Ret ((), vm))"

definition verifyWitnessProgram :: "('k, 's, 't) crypto \<Rightarrow> bytes list \<Rightarrow> unit vm_op" where
  "verifyWitnessProgram C witness vm =
    (let program = slice_bytes (vm_witnessProgram vm) in
     sbind
      (if isWitnessVersionActive vm BaseSegwitWitnessVersion then verify_v0 C program witness
       else if isWitnessVersionActive vm TaprootWitnessVersion \<and> length program = 32 \<and> \<not> vm_bip16 vm
       then verify_taproot C program witness
       else if IsPayToAnchorWitnessProgram (vm_witnessVersion vm) program \<and> \<not> vm_bip16 vm
       then sbind witnessProgramAcceptStack (\<lambda>_. sret True)
       else if hasFlag vm ScriptVerifyDiscourageUpgradeableWitnessProgram then sfail ErrDiscourageUpgradableWitnessProgram
       else sbind witnessProgramAcceptStack (\<lambda>_. sret True))
      (\<lambda>checked. if checked then check_sizes else sret ()) vm)"

section \<open>Running\<close>

definition CheckErrorCondition :: "bool \<Rightarrow> unit vm_op" where
  "CheckErrorCondition finalScript vm =
    (if (case vm_taprootCtx vm of Some ctx \<Rightarrow> tc_mustSucceed ctx | None \<Rightarrow> False) then Ret ((), vm)
     else if vm_scriptIdx vm < length (vm_scripts vm) then Fail ErrScriptUnfinished
     else if finalScript \<and> isWitnessVersionActive vm BaseSegwitWitnessVersion \<and> Depth (vm_dstack vm) \<noteq> 1 then Fail ErrCleanStack
     else if finalScript \<and> (hasFlag vm ScriptVerifyCleanStack \<or> vm_taprootCtx vm \<noteq> None) \<and> Depth (vm_dstack vm) \<noteq> 1
     then Fail ErrCleanStack
     else if Depth (vm_dstack vm) < 1 then Fail ErrEmptyStack
     else sbind (on_dstack PopBool) (\<lambda>v. if \<not> v then sfail ErrEvalFalse else sret ()) vm)"

text \<open>What ends a script and selects the next one.\<close>

definition next_script :: "('k, 's, 't) crypto \<Rightarrow> unit vm_op" where
  "next_script C vm =
    (if vm_scriptIdx vm = 0 \<and> vm_bip16 vm then
       Ret ((), vm\<lparr>vm_scriptIdx := 1, vm_savedFirstStack := GetStack vm\<rparr>)
     else if vm_scriptIdx vm = 1 \<and> vm_bip16 vm then
       sbind (CheckErrorCondition False) (\<lambda>_ vm.
         if vm_savedFirstStack vm = [] then Panic
         else let script = last (vm_savedFirstStack vm) in
           sbind (must_parse script) (\<lambda>_ vm. Ret ((), add_script script (butlast (vm_savedFirstStack vm)) vm)) vm)
         (vm\<lparr>vm_scriptIdx := 2\<rparr>)
     else if vm_scriptIdx vm = 1 \<and> vm_witnessProgram vm \<noteq> None \<or> vm_scriptIdx vm = 2 \<and> vm_witnessProgram vm \<noteq> None \<and> vm_bip16 vm then
       obind (go_nth (tx_TxIn (vm_tx vm)) (vm_txIdx vm)) (\<lambda>txIn.
         verifyWitnessProgram C (in_Witness txIn) (vm\<lparr>vm_scriptIdx := vm_scriptIdx vm + 1\<rparr>))
     else Ret ((), vm\<lparr>vm_scriptIdx := vm_scriptIdx vm + 1\<rparr>))"

definition end_script :: "('k, 's, 't) crypto \<Rightarrow> bool vm_op" where
  "end_script C vm =
    (if vm_condStack vm \<noteq> [] then Fail ErrUnbalancedConditional
     else sbind (next_script C) (\<lambda>_ vm.
       let
         idx = vm_scriptIdx vm;
         idx = (if idx < length (vm_scripts vm) \<and> length (vm_scripts vm ! idx) = 0 then idx + 1 else idx);
         vm = vm\<lparr>vm_scriptIdx := idx, vm_lastCodeSep := 0\<rparr>
       in if idx \<ge> length (vm_scripts vm) then Ret (True, vm)
          else Ret (False, vm\<lparr>vm_tokenizer := MakeScriptTokenizer (vm_version vm) (vm_scripts vm ! idx)\<rparr>))
       (vm\<lparr>vm_astack := (vm_astack vm)\<lparr>stk := []\<rparr>, vm_numOps := 0, vm_opcodeIdx := 0\<rparr>))"

text \<open>The result says whether the last opcode was executed.\<close>

definition Step :: "('k, 's, 't) crypto \<Rightarrow> bool vm_op" where
  "Step C vm =
    (case checkValidPC vm of
       Some e \<Rightarrow> Fail e
     | None \<Rightarrow>
        (case tokenizer_Next (vm_tokenizer vm) of (got, t) \<Rightarrow>
          if \<not> got then (case tk_err t of Some e \<Rightarrow> Fail (ErrParse e) | None \<Rightarrow> Fail ErrInvalidProgramCounter)
          else sbind (executeOpcode C (tokenizer_Opcode t) (slice_bytes (tk_data t))) (\<lambda>_ vm.
            if Depth (vm_dstack vm) + Depth (vm_astack vm) > MaxStackSize then Fail ErrStackOverflow
            else let vm = vm\<lparr>vm_opcodeIdx := vm_opcodeIdx vm + 1\<rparr> in
              if tokenizer_Done (vm_tokenizer vm) then end_script C vm else Ret (False, vm)) (vm\<lparr>vm_tokenizer := t\<rparr>)))"

partial_function (option) run :: "('k, 's, 't) crypto \<Rightarrow> engine \<Rightarrow> (engine_error, engine) outcome option" where
  "run C vm =
    (case Step C vm of
       Panic \<Rightarrow> Some Panic
     | Fail e \<Rightarrow> Some (Fail e)
     | Ret (done, vm') \<Rightarrow> if done then Some (Ret vm') else run C vm')"

text \<open>\<^term>\<open>Ret vm\<close> is success. The trace log and the debugging callback are left out.\<close>

definition Execute :: "('k, 's, 't) crypto \<Rightarrow> engine \<Rightarrow> (engine_error, engine) outcome option" where
  "Execute C vm =
    (if vm_version vm \<noteq> 0 then Some (Ret vm)
     else case run C vm of
       None \<Rightarrow> None
     | Some r \<Rightarrow> Some (obind r (\<lambda>vm. obind (CheckErrorCondition True vm) (\<lambda>(_, vm). Ret vm))))"

section \<open>A new engine\<close>

definition buildWitnessProgram :: "bytes \<Rightarrow> bytes \<Rightarrow> bool \<Rightarrow> engine \<Rightarrow> (engine_error, engine) outcome" where
  "buildWitnessProgram scriptSig scriptPubKey hasWitness vm =
    obind
     (if isWitnessProgramScript scriptPubKey then
        (if scriptSig \<noteq> [] then Fail ErrWitnessMalleated else Ret (Some scriptPubKey))
      else if vm_bip16 vm then
        (if scriptSig = [] \<or> \<not> IsPushOnlyScript scriptSig then Ret None
         else let redeem = slice_bytes (finalOpcodeData 0 scriptSig) in
           if redeem = [] \<or> \<not> isWitnessProgramScript redeem then Ret None
           else (case Script (AddData redeem NewScriptBuilder) of (canonical, err) \<Rightarrow>
             if err \<or> scriptSig \<noteq> canonical then Fail ErrWitnessMalleatedP2SH else Ret (Some redeem)))
      else Ret None)
     (\<lambda>witProgram.
        case witProgram of
          None \<Rightarrow> if hasWitness then Fail ErrWitnessUnexpected else Ret vm
        | Some p \<Rightarrow>
           (case ExtractWitnessProgramInfo p of
              None \<Rightarrow> Fail ErrOther
            | Some (version, program) \<Rightarrow> Ret (vm\<lparr>vm_witnessVersion := version, vm_witnessProgram := program\<rparr>)))"

fun check_scripts :: "bytes list \<Rightarrow> (engine_error, unit) outcome" where
  "check_scripts [] = Ret ()"
| "check_scripts (scr # scrs) =
    (if length scr > MaxScriptSize then Fail ErrScriptTooBig
     else case checkScriptParses 0 scr of Some e \<Rightarrow> Fail (ErrParse e) | None \<Rightarrow> check_scripts scrs)"

definition initial_engine ::
  "bytes list \<Rightarrow> msg_tx \<Rightarrow> nat \<Rightarrow> u32 \<Rightarrow> sig_cache option \<Rightarrow> TxSigHashes option \<Rightarrow> i64 \<Rightarrow> prev_out_fetcher \<Rightarrow> engine" where
  "initial_engine scripts tx txIdx flags sigCache hashCache inputAmount prevOuts =
    \<lparr>vm_flags = flags, vm_tx = tx, vm_txIdx = txIdx, vm_version = 0, vm_bip16 = False, vm_sigCache = sigCache, vm_hashCache = hashCache,
     vm_prevOutFetcher = prevOuts, vm_scripts = scripts, vm_scriptIdx = 0, vm_opcodeIdx = 0, vm_lastCodeSep = 0,
     vm_tokenizer = MakeScriptTokenizer 0 [], vm_savedFirstStack = [], vm_dstack = \<lparr>stk = [], verifyMinimalData = False\<rparr>,
     vm_astack = \<lparr>stk = [], verifyMinimalData = False\<rparr>, vm_condStack = [], vm_numOps = 0, vm_witnessVersion = 0,
     vm_witnessProgram = None, vm_inputAmount = inputAmount, vm_taprootCtx = None\<rparr>"

definition NewEngine ::
  "bytes \<Rightarrow> msg_tx \<Rightarrow> nat \<Rightarrow> u32 \<Rightarrow> sig_cache option \<Rightarrow> TxSigHashes option \<Rightarrow> i64 \<Rightarrow> prev_out_fetcher \<Rightarrow> (engine_error, engine) outcome" where
  "NewEngine scriptPubKey tx txIdx flags sigCache hashCache inputAmount prevOuts =
    (if txIdx \<ge> length (tx_TxIn tx) then Fail ErrInvalidIndex
     else let
       txIn = tx_TxIn tx ! txIdx;
       scriptSig = in_SignatureScript txIn;
       vm = initial_engine [scriptSig, scriptPubKey] tx txIdx flags sigCache hashCache inputAmount prevOuts;
       p2sh = hasFlag vm ScriptBip16 \<and> isScriptHashScript scriptPubKey
     in if scriptSig = [] \<and> scriptPubKey = [] then Fail ErrEvalFalse
     else if hasFlag vm ScriptVerifyCleanStack \<and> \<not> hasFlag vm ScriptBip16 \<and> \<not> hasFlag vm ScriptVerifyWitness then Fail ErrInvalidFlags
     else if hasFlag vm ScriptVerifySigPushOnly \<and> \<not> IsPushOnlyScript scriptSig then Fail ErrSigScriptNotPushOnly
     else if p2sh \<and> \<not> hasFlag vm ScriptVerifySigPushOnly \<and> \<not> IsPushOnlyScript scriptSig then Fail ErrSigScriptNotPushOnly
     else obind (check_scripts [scriptSig, scriptPubKey]) (\<lambda>_.
       let
         minimal = hasFlag vm ScriptVerifyMinimalData;
         vm = vm\<lparr>vm_bip16 := p2sh, vm_scriptIdx := (if scriptSig = [] then 1 else 0),
           vm_dstack := \<lparr>stk = [], verifyMinimalData = minimal\<rparr>, vm_astack := \<lparr>stk = [], verifyMinimalData = minimal\<rparr>\<rparr>
       in obind
          (if hasFlag vm ScriptVerifyWitness then
             (if \<not> hasFlag vm ScriptBip16 then Fail ErrInvalidFlags
              else buildWitnessProgram scriptSig scriptPubKey (in_Witness txIn \<noteq> []) vm)
           else Ret vm)
          (\<lambda>vm. Ret (vm\<lparr>vm_tokenizer := MakeScriptTokenizer 0 (vm_scripts vm ! vm_scriptIdx vm)\<rparr>))))"

end
