(* ===== verification/Engine_Frame.thy ===== *)
theory Engine_Frame
  imports Script_Engine
begin

text \<open>
  What an opcode handler may change and when it cannot panic. \<open>op_valid b P m Q\<close> is a Hoare triple for the operations of the
  engine: from a state with \<open>P\<close> the operation returns an error, or a result and a state with \<open>Q\<close>, and it panics only if
  \<open>b\<close> says that panics are admitted. The rules for the combinators are collected in \<open>op_rules\<close>, and so are the triples of
  the handlers, each of which is proved once for both readings: with \<open>b\<close> true they give the frame of a handler for any
  engine, which is what termination needs; with \<open>b\<close> false they say that a handler does not panic in the engines
  described by \<open>exec_ok\<close>.
\<close>

named_theorems op_rules

section \<open>Triples\<close>

definition outcome_ok :: "bool \<Rightarrow> ('a \<Rightarrow> 's \<Rightarrow> bool) \<Rightarrow> ('e, 'a \<times> 's) outcome \<Rightarrow> bool" where
  "outcome_ok b Q r \<longleftrightarrow> (case r of Panic \<Rightarrow> b | Fail e \<Rightarrow> True | Ret (x, s) \<Rightarrow> Q x s)"

lemma outcome_ok_simps [simp]:
  "outcome_ok b Q Panic \<longleftrightarrow> b" "outcome_ok b Q (Fail e)" "outcome_ok b Q (Ret (x, s)) \<longleftrightarrow> Q x s"
  by (simp_all add: outcome_ok_def)

lemma outcome_ok_obind:
  "(r = Panic \<Longrightarrow> b) \<Longrightarrow> (\<And>x. r = Ret x \<Longrightarrow> outcome_ok b Q (f x)) \<Longrightarrow> outcome_ok b Q (obind r f)"
  by (cases r) simp_all

definition op_valid :: "bool \<Rightarrow> ('s \<Rightarrow> bool) \<Rightarrow> ('s \<Rightarrow> ('e, 'a \<times> 's) outcome) \<Rightarrow> ('a \<Rightarrow> 's \<Rightarrow> bool) \<Rightarrow> bool" where
  "op_valid b P m Q \<longleftrightarrow> (\<forall>s. P s \<longrightarrow> outcome_ok b Q (m s))"

lemma op_validI: "(\<And>s. P s \<Longrightarrow> outcome_ok b Q (m s)) \<Longrightarrow> op_valid b P m Q"
  by (simp add: op_valid_def)

lemma op_validD: "op_valid b P m Q \<Longrightarrow> P s \<Longrightarrow> outcome_ok b Q (m s)"
  by (simp add: op_valid_def)

lemma op_valid_cases:
  assumes "op_valid b P m Q" "P s"
  shows "m s = Panic \<Longrightarrow> b" "m s = Ret (x, s') \<Longrightarrow> Q x s'"
  using op_validD [OF assms] by simp_all

lemma op_sret [op_rules]: "(\<And>s. P s \<Longrightarrow> Q x s) \<Longrightarrow> op_valid b P (sret x) Q"
  by (simp add: op_valid_def sret_def)

lemma op_sfail [op_rules]: "op_valid b P (sfail e) Q"
  by (simp add: op_valid_def sfail_def)

lemma outcome_ok_sbind:
  assumes "op_valid b P m R" "P s" "\<And>x s'. m s = Ret (x, s') \<Longrightarrow> R x s' \<Longrightarrow> outcome_ok b Q (f x s')"
  shows "outcome_ok b Q (sbind m f s)"
  using op_validD [OF assms(1,2)] assms(3) unfolding sbind_def by (cases "m s") auto

lemma op_sbind: "op_valid b P m R \<Longrightarrow> (\<And>x. op_valid b (R x) (f x) Q) \<Longrightarrow> op_valid b P (sbind m f) Q"
  by (rule op_validI, erule outcome_ok_sbind, assumption) (rule op_validD)

text \<open>The common case: the same assertion throughout, whatever the result of the first operation.\<close>

lemma op_seq [op_rules]: "op_valid b P m (\<lambda>_. P) \<Longrightarrow> (\<And>x. op_valid b P (f x) Q) \<Longrightarrow> op_valid b P (sbind m f) Q"
  by (rule op_sbind)

lemma op_if [op_rules]:
  "(c \<Longrightarrow> op_valid b P m Q) \<Longrightarrow> (\<not> c \<Longrightarrow> op_valid b P n Q) \<Longrightarrow> op_valid b P (if c then m else n) Q"
  by simp

text \<open>Operations that look at the state before they choose what to do.\<close>

lemma op_if_state [op_rules]:
  "op_valid b P m Q \<Longrightarrow> op_valid b P n Q \<Longrightarrow> op_valid b P (\<lambda>s. if c s then m s else n s) Q"
  unfolding op_valid_def by simp

lemma op_get: "(\<And>x. op_valid b P (f x) Q) \<Longrightarrow> op_valid b P (\<lambda>s. f (g s) s) Q"
  unfolding op_valid_def by blast

section \<open>The frame of an opcode\<close>

definition frame :: "engine \<Rightarrow> engine \<Rightarrow> bool" where
  "frame vm0 vm \<longleftrightarrow>
    vm_flags vm = vm_flags vm0 \<and> vm_tx vm = vm_tx vm0 \<and> vm_txIdx vm = vm_txIdx vm0 \<and> vm_version vm = vm_version vm0
    \<and> vm_bip16 vm = vm_bip16 vm0 \<and> vm_hashCache vm = vm_hashCache vm0 \<and> vm_prevOutFetcher vm = vm_prevOutFetcher vm0
    \<and> vm_scripts vm = vm_scripts vm0 \<and> vm_scriptIdx vm = vm_scriptIdx vm0 \<and> vm_opcodeIdx vm = vm_opcodeIdx vm0
    \<and> vm_tokenizer vm = vm_tokenizer vm0 \<and> vm_savedFirstStack vm = vm_savedFirstStack vm0
    \<and> vm_witnessVersion vm = vm_witnessVersion vm0 \<and> vm_witnessProgram vm = vm_witnessProgram vm0
    \<and> vm_inputAmount vm = vm_inputAmount vm0
    \<and> (vm_taprootCtx vm = None \<longleftrightarrow> vm_taprootCtx vm0 = None)
    \<and> (vm_lastCodeSep vm = vm_lastCodeSep vm0 \<or> vm_lastCodeSep vm = tk_offset (vm_tokenizer vm0))
    \<and> (vm_numOps vm = vm_numOps vm0 \<or> vm_numOps vm \<le> MaxOpsPerScript)"

lemma frame_refl [simp, intro]: "frame vm vm"
  by (simp add: frame_def)

lemma frame_update [simp]:
  "frame vm0 (vm\<lparr>vm_dstack := d\<rparr>) \<longleftrightarrow> frame vm0 vm" "frame vm0 (vm\<lparr>vm_astack := d\<rparr>) \<longleftrightarrow> frame vm0 vm"
  "frame vm0 (vm\<lparr>vm_condStack := cs\<rparr>) \<longleftrightarrow> frame vm0 vm" "frame vm0 (vm\<lparr>vm_sigCache := c\<rparr>) \<longleftrightarrow> frame vm0 vm"
  by (simp_all add: frame_def)

lemma frame_eq:
  assumes "frame vm0 vm"
  shows "vm_flags vm = vm_flags vm0" "vm_tx vm = vm_tx vm0" "vm_txIdx vm = vm_txIdx vm0" "vm_version vm = vm_version vm0"
    "vm_bip16 vm = vm_bip16 vm0" "vm_hashCache vm = vm_hashCache vm0" "vm_prevOutFetcher vm = vm_prevOutFetcher vm0"
    "vm_scripts vm = vm_scripts vm0" "vm_scriptIdx vm = vm_scriptIdx vm0" "vm_tokenizer vm = vm_tokenizer vm0"
    "vm_savedFirstStack vm = vm_savedFirstStack vm0" "vm_witnessVersion vm = vm_witnessVersion vm0"
    "vm_witnessProgram vm = vm_witnessProgram vm0" "vm_taprootCtx vm = None \<longleftrightarrow> vm_taprootCtx vm0 = None"
    "hasFlag vm f = hasFlag vm0 f" "isWitnessVersionActive vm v = isWitnessVersionActive vm0 v"
  using assms by (simp_all add: frame_def hasFlag_def isWitnessVersionActive_def)

text \<open>The input is one of the transaction's, and the outputs that the transaction spends are known.\<close>

definition tx_ok :: "engine \<Rightarrow> bool" where
  "tx_ok vm \<longleftrightarrow>
    vm_txIdx vm < length (tx_TxIn (vm_tx vm)) \<and> (\<forall>ti\<in>set (tx_TxIn (vm_tx vm)). vm_prevOutFetcher vm (in_PreviousOutPoint ti) \<noteq> None)"

text \<open>
  Engines in which handlers do not panic: the transaction is as above, the positions lie inside the current script, and
  a tapscript runs only with the hashes of the transaction at hand.
\<close>

definition exec_ok :: "engine \<Rightarrow> bool" where
  "exec_ok vm \<longleftrightarrow>
    tx_ok vm \<and> vm_scriptIdx vm < length (vm_scripts vm) \<and> vm_lastCodeSep vm \<le> length (vm_scripts vm ! vm_scriptIdx vm)
    \<and> tk_offset (vm_tokenizer vm) \<le> length (vm_scripts vm ! vm_scriptIdx vm)
    \<and> (vm_taprootCtx vm \<noteq> None \<longrightarrow> vm_hashCache vm \<noteq> None \<and> isWitnessVersionActive vm TaprootWitnessVersion)"

text \<open>Handlers that cannot change anything outside the frame, from any engine in the frame.\<close>

abbreviation keeps :: "bool \<Rightarrow> engine \<Rightarrow> 'a vm_op \<Rightarrow> bool" where
  "keeps b vm0 m \<equiv> op_valid b (frame vm0) m (\<lambda>_. frame vm0)"

lemma op_on_dstack [op_rules]: "(\<And>s. \<not> b \<Longrightarrow> m s \<noteq> Panic) \<Longrightarrow> keeps b vm0 (on_dstack m)"
  by (rule op_validI) (auto simp: on_dstack_def intro!: outcome_ok_obind)

lemma op_on_astack [op_rules]: "(\<And>s. \<not> b \<Longrightarrow> m s \<noteq> Panic) \<Longrightarrow> keeps b vm0 (on_astack m)"
  by (rule op_validI) (auto simp: on_astack_def intro!: outcome_ok_obind)

section \<open>The stack does not panic\<close>

named_theorems no_panic

lemma sbind_no_panic [no_panic]: "m s \<noteq> Panic \<Longrightarrow> (\<And>x s. f x s \<noteq> Panic) \<Longrightarrow> sbind m f s \<noteq> Panic"
  by (cases "m s") (auto simp: sbind_def)

lemma basic_no_panic [no_panic, simp]:
  "sret x s \<noteq> Panic" "sfail e s \<noteq> Panic" "PushByteArray so s \<noteq> Panic" "PushBool v s \<noteq> Panic" "nipN i s \<noteq> Panic"
  "PopByteArray s \<noteq> Panic" "PeekByteArray i s \<noteq> Panic" "to_num so s \<noteq> Panic"
  by (simp_all add: sret_def sfail_def PushByteArray_def PushBool_def nipN_def PopByteArray_def PeekByteArray_def to_num_def split: sum.split)

lemma if_no_panic [no_panic]: "(c \<Longrightarrow> m s \<noteq> Panic) \<Longrightarrow> (\<not> c \<Longrightarrow> n s \<noteq> Panic) \<Longrightarrow> (if c then m else n) s \<noteq> Panic"
  by simp

lemma times_no_panic [no_panic]: "(\<And>s. f s \<noteq> Panic) \<Longrightarrow> times n f s \<noteq> Panic"
  by (induction n arbitrary: s) (simp_all add: sbind_no_panic)

lemma stack_no_panic [no_panic, simp]:
  "NipN i s \<noteq> Panic" "PopInt s \<noteq> Panic" "PopBool s \<noteq> Panic" "PeekInt i s \<noteq> Panic" "PeekBool i s \<noteq> Panic" "Tuck s \<noteq> Panic"
  "DropN n s \<noteq> Panic" "DupN n s \<noteq> Panic" "RotN n s \<noteq> Panic" "SwapN n s \<noteq> Panic" "OverN n s \<noteq> Panic" "PickN n s \<noteq> Panic"
  "RollN n s \<noteq> Panic"
  unfolding NipN_def PopInt_def PopBool_def PeekInt_def PeekBool_def Tuck_def DropN_def DupN_def RotN_def SwapN_def OverN_def
    PickN_def RollN_def by (intro no_panic)+

lemma PushInt_no_panic [no_panic]: "- (2 ^ 63) < n \<Longrightarrow> PushInt n s \<noteq> Panic"
proof -
  assume n: "- (2 ^ 63) < n"
  have "num_bytes m \<noteq> []" if "0 < m" for m using that by (subst num_bytes.simps) simp
  moreover have "0 < wrap64 (- n)" if "n < 0" using n that by simp
  ultimately show ?thesis by (auto simp: PushInt_def Bytes_def Let_def PushByteArray_def obind_Panic_iff)
qed

lemma PopInt_range: "PopInt s = Ret (n, s') \<Longrightarrow> \<bar>n\<bar> < 2 ^ 31"
proof -
  assume "PopInt s = Ret (n, s')"
  then obtain v s1 where "to_num v s1 = Ret (n, s')" by (auto simp: PopInt_def sbind_def obind_Ret_iff)
  then obtain b where v: "MakeScriptNum v b 4 = Inr n"
    by (cases "MakeScriptNum v (verifyMinimalData s1) 4") (auto simp: to_num_def maxScriptNumLen_def)
  then have "length v \<le> 4" by (auto simp: MakeScriptNum_def split: if_splits)
  then show ?thesis using v num_value_bound [of v 4] by (auto simp: MakeScriptNum_value split: if_splits)
qed

lemma op_popInt [op_rules]:
  assumes "\<And>n. \<bar>n\<bar> < 2 ^ 31 \<Longrightarrow> op_valid b (frame vm0) (f n) Q"
  shows "op_valid b (frame vm0) (sbind (on_dstack PopInt) f) Q"
proof (rule op_sbind [where R = "\<lambda>n vm. \<bar>n\<bar> < 2 ^ 31 \<and> frame vm0 vm"])
  show "op_valid b (frame vm0) (on_dstack PopInt) (\<lambda>n vm. \<bar>n\<bar> < 2 ^ 31 \<and> frame vm0 vm)"
    by (rule op_validI) (auto simp: on_dstack_def intro!: outcome_ok_obind dest: PopInt_range)
  show "op_valid b (\<lambda>vm. \<bar>n\<bar> < 2 ^ 31 \<and> frame vm0 vm) (f n) Q" for n
    using assms [of n] unfolding op_valid_def by blast
qed


section \<open>Handlers\<close>

lemma op_stack: "keeps b vm0 (on_dstack (PushBool v))" "keeps b vm0 (on_dstack PopByteArray)" "keeps b vm0 (on_dstack (PushByteArray d))"
  by (intro op_on_dstack; simp)+

lemma op_lift_outcome: "(\<And>vm. frame vm0 vm \<Longrightarrow> \<not> b \<Longrightarrow> m vm \<noteq> Panic) \<Longrightarrow> keeps b vm0 (lift_outcome m)"
  by (rule op_validI) (auto simp: lift_outcome_def intro!: outcome_ok_obind)

text \<open>Results of arithmetic on numbers of four bytes fit.\<close>

lemma op_pushInt [op_rules]: "- (2 ^ 63) < n \<Longrightarrow> keeps b vm0 (on_dstack (PushInt n))"
  by (intro op_on_dstack PushInt_no_panic)

lemma op_num1: "(\<And>m. \<bar>m\<bar> < 2 ^ 31 \<Longrightarrow> - (2 ^ 63) < f m) \<Longrightarrow> keeps b vm0 (num1 f)"
  unfolding num1_def by (intro op_rules)

lemma op_num2: "(\<And>m n. \<bar>m\<bar> < 2 ^ 31 \<Longrightarrow> \<bar>n\<bar> < 2 ^ 31 \<Longrightarrow> - (2 ^ 63) < f m n) \<Longrightarrow> keeps b vm0 (num2 f)"
  unfolding num2_def by (intro op_rules)

lemma truth_range [simp]: "- (2 ^ 63) < truth c" "- 9223372036854775808 < truth c"
  by (simp_all add: truth_def)

lemma op_arithmetic [op_rules]:
  "keeps b vm0 opcode1Add" "keeps b vm0 opcode1Sub" "keeps b vm0 opcodeNegate" "keeps b vm0 opcodeAbs" "keeps b vm0 opcodeNot"
  "keeps b vm0 opcode0NotEqual" "keeps b vm0 opcodeAdd" "keeps b vm0 opcodeSub" "keeps b vm0 opcodeBoolAnd" "keeps b vm0 opcodeBoolOr"
  "keeps b vm0 opcodeNumEqual" "keeps b vm0 opcodeNumNotEqual" "keeps b vm0 opcodeLessThan" "keeps b vm0 opcodeGreaterThan"
  "keeps b vm0 opcodeLessThanOrEqual" "keeps b vm0 opcodeGreaterThanOrEqual" "keeps b vm0 opcodeMin" "keeps b vm0 opcodeMax"
  unfolding opcode1Add_def opcode1Sub_def opcodeNegate_def opcodeAbs_def opcodeNot_def opcode0NotEqual_def opcodeAdd_def opcodeSub_def
    opcodeBoolAnd_def opcodeBoolOr_def opcodeNumEqual_def opcodeNumNotEqual_def opcodeLessThan_def opcodeGreaterThan_def
    opcodeLessThanOrEqual_def opcodeGreaterThanOrEqual_def opcodeMin_def opcodeMax_def
  by ((rule op_num1 | rule op_num2), auto split: if_split)+

lemma uint_range [simp]: "- (2 ^ 63) < uint w" "- 9223372036854775808 < uint w" for w :: "'a::len word"
  by (rule less_le_trans [OF _ uint_ge_0], simp)+

lemma op_abstractVerify [op_rules]: "keeps b vm0 (abstractVerify e)"
  unfolding abstractVerify_def by (intro op_rules) auto

lemma op_simple [op_rules]:
  "keeps b vm0 opcodeDisabled" "keeps b vm0 opcodeReserved" "keeps b vm0 opcodeInvalid" "keeps b vm0 opcodeFalse"
  "keeps b vm0 (opcodePushData d)" "keeps b vm0 opcode1Negate" "keeps b vm0 (opcodeN n)" "keeps b vm0 opcodeVerify" "keeps b vm0 opcodeReturn"
  "keeps b vm0 opcodeToAltStack" "keeps b vm0 opcodeFromAltStack" "keeps b vm0 opcode2Drop" "keeps b vm0 opcode2Dup" "keeps b vm0 opcode3Dup"
  "keeps b vm0 opcode2Over" "keeps b vm0 opcode2Rot" "keeps b vm0 opcode2Swap" "keeps b vm0 opcodeIfDup" "keeps b vm0 opcodeDrop"
  "keeps b vm0 opcodeDup" "keeps b vm0 opcodeNip" "keeps b vm0 opcodeOver" "keeps b vm0 opcodePick" "keeps b vm0 opcodeRoll" "keeps b vm0 opcodeRot"
  "keeps b vm0 opcodeSwap" "keeps b vm0 opcodeTuck" "keeps b vm0 opcodeSize" "keeps b vm0 opcodeEqual" "keeps b vm0 (hash_op f)"
  unfolding opcodeDisabled_def opcodeReserved_def opcodeInvalid_def opcodeFalse_def opcodePushData_def opcode1Negate_def opcodeN_def
    opcodeVerify_def opcodeReturn_def opcodeToAltStack_def opcodeFromAltStack_def opcode2Drop_def opcode2Dup_def opcode3Dup_def
    opcode2Over_def opcode2Rot_def opcode2Swap_def opcodeIfDup_def opcodeDrop_def opcodeDup_def opcodeNip_def opcodeOver_def opcodePick_def
    opcodeRoll_def opcodeRot_def opcodeSwap_def opcodeTuck_def opcodeSize_def opcodeEqual_def hash_op_def
  by (intro op_rules; simp add: PushInt_no_panic)+

lemma op_within [op_rules]: "keeps b vm0 opcodeWithin"
  unfolding opcodeWithin_def by (intro op_rules) simp

lemma op_compose [op_rules]:
  "keeps b vm0 opcodeEqualVerify" "keeps b vm0 opcodeNumEqualVerify"
  unfolding opcodeEqualVerify_def opcodeNumEqualVerify_def by (intro op_rules)+

lemma op_depth [op_rules]: "keeps b vm0 opcodeDepth"
  unfolding opcodeDepth_def Depth_def by (rule op_get [where f = "\<lambda>n. on_dstack (PushInt (int n))"]) (intro op_pushInt, simp)

lemma op_hashes [op_rules]:
  "keeps b vm0 (opcodeRipemd160 C)" "keeps b vm0 (opcodeSha1 C)" "keeps b vm0 (opcodeSha256 C)" "keeps b vm0 (opcodeHash160 C)"
  "keeps b vm0 (opcodeHash256 C)"
  by (simp_all add: opcodeRipemd160_def opcodeSha1_def opcodeSha256_def opcodeHash160_def opcodeHash256_def op_simple)

lemma op_nop [op_rules]: "keeps b vm0 (opcodeNop n)"
  by (rule op_validI) (simp add: opcodeNop_def)

lemma op_codeSeparator [op_rules]: "keeps b vm0 opcodeCodeSeparator"
  by (rule op_validI) (auto simp: opcodeCodeSeparator_def frame_def)

section \<open>Conditionals and lock times\<close>

lemma op_popIfBool [op_rules]: "keeps b vm0 popIfBool"
  unfolding popIfBool_def by (intro op_rules; simp)

lemma op_pushCond [op_rules]: "keeps b vm0 (pushCond c)"
  by (rule op_validI) (simp add: pushCond_def)

lemma op_conditionals [op_rules]: "keeps b vm0 opcodeIf" "keeps b vm0 opcodeNotIf" "keeps b vm0 opcodeElse" "keeps b vm0 opcodeEndif"
proof -
  show "keeps b vm0 opcodeIf" "keeps b vm0 opcodeNotIf"
    unfolding opcodeIf_def opcodeNotIf_def by (intro op_rules)+
  show "keeps b vm0 opcodeElse" "keeps b vm0 opcodeEndif"
    by (auto intro!: op_validI simp: opcodeElse_def opcodeEndif_def split: list.split)
qed

lemma op_txIn:
  assumes "b \<or> exec_ok vm0"
  shows "keeps b vm0 (lift_outcome (\<lambda>vm. go_nth (tx_TxIn (vm_tx vm)) (vm_txIdx vm)))"
  using assms by (intro op_lift_outcome) (auto simp: frame_eq go_nth_def exec_ok_def tx_ok_def)

lemma op_verifyLockTime [op_rules]: "keeps b vm0 (verifyLockTime x y z)"
  unfolding verifyLockTime_def by (intro op_rules)

lemma op_peek_locktime [op_rules]: "keeps b vm0 peek_locktime"
  unfolding peek_locktime_def by (rule op_seq, intro op_rules, simp) (auto intro: op_validI split: sum.split)

lemma op_lockTimes [op_rules]:
  assumes "b \<or> exec_ok vm0"
  shows "keeps b vm0 opcodeCheckLockTimeVerify" "keeps b vm0 opcodeCheckSequenceVerify"
proof -
  note rules = op_validD [OF op_seq] op_rules op_txIn [OF assms]
  show "keeps b vm0 opcodeCheckLockTimeVerify"
    unfolding opcodeCheckLockTimeVerify_def by (rule op_validI) (auto intro!: rules)
  show "keeps b vm0 opcodeCheckSequenceVerify"
    unfolding opcodeCheckSequenceVerify_def Let_def by (rule op_validI) (auto intro!: rules)
qed

section \<open>Signatures\<close>

lemma go_nth_no_panic [simp]: "go_nth xs i = Panic \<longleftrightarrow> length xs \<le> i"
  by (simp add: go_nth_def)

lemma or_fail_no_panic [simp]: "or_fail e \<noteq> Panic" "parsed x \<noteq> Panic"
  by (simp_all add: or_fail_def parsed_def split: option.split)

text \<open>Every index that the checks of a signature's encoding use is inside the signature.\<close>

lemma checkSignatureEncoding_no_panic [simp]: "checkSignatureEncoding C sig vm \<noteq> Panic"
  by (auto simp: checkSignatureEncoding_def Let_def obind_Panic_iff split: if_splits)

lemma exec_ok_frame: "exec_ok vm0 \<Longrightarrow> frame vm0 vm \<Longrightarrow> exec_ok vm"
  by (auto simp: exec_ok_def tx_ok_def frame_def isWitnessVersionActive_def)

lemma subScript_no_panic: "exec_ok vm \<Longrightarrow> subScript vm \<noteq> Panic"
  by (auto simp: subScript_def obind_Panic_iff exec_ok_def go_nth_def)

lemma newBaseSigVerifier_no_panic: "exec_ok vm \<Longrightarrow> fullSigBytes \<noteq> [] \<Longrightarrow> newBaseSigVerifier C pkBytes fullSigBytes vm \<noteq> Panic"
  using subScript_no_panic [of vm]
  by (auto simp: newBaseSigVerifier_def parseBaseSigAndPubkey_def Let_def obind_Panic_iff)

lemma calcSignatureHash_no_panic: "idx < length (tx_TxIn tx) \<Longrightarrow> calcSignatureHash sha script t tx idx \<noteq> Panic"
  by (auto simp: calcSignatureHash_def Let_def sighash_ins_def)

lemma fetch_concat_no_panic: "\<forall>ti\<in>set ins. fetch (in_PreviousOutPoint ti) \<noteq> None \<Longrightarrow> fetch_concat fetch f ins \<noteq> Panic"
  by (induction ins) (auto simp: obind_Panic_iff)

lemma input_kinds_no_panic: "\<forall>ti\<in>set ins. fetch (in_PreviousOutPoint ti) \<noteq> None \<Longrightarrow> input_kinds fetch ins k \<noteq> Panic"
  by (induction ins arbitrary: k) (auto simp: Let_def split: if_splits)

lemma sig_hashes_no_panic: "exec_ok vm \<Longrightarrow> sig_hashes C vm \<noteq> Panic"
  using input_kinds_no_panic [of "tx_TxIn (vm_tx vm)" "vm_prevOutFetcher vm"] fetch_concat_no_panic [of "tx_TxIn (vm_tx vm)" "vm_prevOutFetcher vm"]
  by (auto simp: sig_hashes_def NewTxSigHashes_def Let_def obind_Panic_iff calcHashInputAmounts_def calcHashInputScripts_def exec_ok_def tx_ok_def
      split: option.split prod.splits)

lemma frame_cached_verify: "cached_verify C h s k v vm = (r, vm') \<Longrightarrow> frame vm0 vm \<Longrightarrow> frame vm0 vm'"
  by (auto simp: cached_verify_def split: option.splits if_splits)

lemma frame_verifySig:
  "verifySig C v h vm = (r, vm') \<Longrightarrow> frame vm0 vm \<Longrightarrow> frame vm0 vm'"
  "taproot_verifySig C t h vm = (r, vm') \<Longrightarrow> frame vm0 vm \<Longrightarrow> frame vm0 vm'"
  unfolding verifySig_def taproot_verifySig_def by (erule frame_cached_verify, assumption)+

lemma op_base_Verify:
  assumes "b \<or> exec_ok vm0"
  shows "keeps b vm0 (base_Verify C v)"
proof (rule op_validI)
  fix vm assume f: "frame vm0 vm"
  have "calcSignatureHash (c_sha256 C) s t (vm_tx vm) (vm_txIdx vm) \<noteq> Panic" if "\<not> b" for s t
    using assms that f by (intro calcSignatureHash_no_panic) (simp add: exec_ok_def tx_ok_def frame_eq)
  then show "outcome_ok b (\<lambda>_. frame vm0) (base_Verify C v vm)"
    by (auto simp: base_Verify_def split: prod.split intro!: outcome_ok_obind elim: frame_verifySig(1) [OF _ f])
qed

lemma op_segwit_Verify:
  assumes "b \<or> exec_ok vm0"
  shows "keeps b vm0 (segwit_Verify C v)"
proof (rule op_validI)
  fix vm assume f: "frame vm0 vm"
  have "sig_hashes C vm \<noteq> Panic" if "\<not> b" using assms that exec_ok_frame [OF _ f] sig_hashes_no_panic by blast
  then show "outcome_ok b (\<lambda>_. frame vm0) (segwit_Verify C v vm)"
    by (auto simp: segwit_Verify_def f split: prod.split sum.split intro!: outcome_ok_obind elim: frame_verifySig(1) [OF _ f])
qed

lemma op_taproot_check:
  assumes "b \<or> tx_ok vm0 \<and> vm_hashCache vm0 \<noteq> None"
  shows "keeps b vm0 (taproot_check C t opts)"
proof (rule op_validI)
  fix vm assume f: "frame vm0 vm"
  have "calcTaprootSignatureHashRaw (c_sha256 C) (vm_hashCache vm) h (vm_tx vm) (vm_txIdx vm) (vm_prevOutFetcher vm) opts \<noteq> Panic"
    if "\<not> b" for h
  proof -
    have "vm_prevOutFetcher vm (in_PreviousOutPoint (tx_TxIn (vm_tx vm) ! vm_txIdx vm)) \<noteq> None" "vm_hashCache vm \<noteq> None"
      using assms that f by (auto simp: tx_ok_def frame_eq)
    then show ?thesis
      by (auto simp: calcTaprootSignatureHashRaw_def Let_def obind_Panic_iff midstate_def taproot_input_def split: if_splits)
  qed
  then show "outcome_ok b (\<lambda>_. frame vm0) (taproot_check C t opts vm)"
    unfolding taproot_check_def by (auto simp: f split: outcome.split prod.split elim: frame_verifySig(2) [OF _ f])
qed

lemma op_check_result: "keeps b vm0 (check_result s r)"
  by (rule op_validI) (auto simp: check_result_def intro!: op_validD [OF op_stack(1)] split: prod.split)

lemma outcome_ok_or_false:
  "(m = Panic \<Longrightarrow> b) \<Longrightarrow> (\<And>x. keeps b vm0 (f x)) \<Longrightarrow> frame vm0 vm \<Longrightarrow> outcome_ok b (\<lambda>_. frame vm0) (or_false m f vm)"
  by (auto simp: or_false_def intro!: op_validD [OF op_stack(1)] op_validD split: outcome.split)

lemma newBaseTapscriptSigVerifier_no_panic [simp]: "newBaseTapscriptSigVerifier C pk s ctx vm \<noteq> Panic"
  by (auto simp: newBaseTapscriptSigVerifier_def newTaprootSigVerifier_def parseTaprootSigAndPubKey_def obind_Panic_iff split: if_splits)

lemma op_tapscript_Verify:
  assumes "b \<or> tx_ok vm0 \<and> vm_hashCache vm0 \<noteq> None"
  shows "keeps b vm0 (tapscript_Verify C v ctx)"
  unfolding tapscript_Verify_def by (cases v) (auto intro: op_validI op_taproot_check [OF assms])

lemma frame_taproot: "frame vm0 vm \<Longrightarrow> vm_taprootCtx vm = Some c \<Longrightarrow> frame vm0 (vm\<lparr>vm_taprootCtx := Some c'\<rparr>)"
  by (simp add: frame_def)

text \<open>What CHECKSIG relies on: with a witness program of a later version there is a tapscript to execute.\<close>

definition sig_ok :: "engine \<Rightarrow> bool" where
  "sig_ok vm \<longleftrightarrow> (vm_witnessProgram vm \<noteq> None \<and> vm_witnessVersion vm \<noteq> 0 \<longrightarrow> vm_taprootCtx vm \<noteq> None)"

lemma outcome_ok_tapscript:
  assumes "frame vm0 vm" "b \<or> tx_ok vm0 \<and> vm_hashCache vm0 \<noteq> None" "\<And>x. keeps b vm0 (f x)"
  shows "outcome_ok b (\<lambda>_. frame vm0) (obind (newBaseTapscriptSigVerifier C pk s ctx vm1) (\<lambda>v. sbind (tapscript_Verify C v ctx) f vm))"
  using assms by (auto intro!: outcome_ok_obind op_validD [OF op_seq] op_tapscript_Verify)

lemma op_check_sig:
  assumes ok: "b \<or> exec_ok vm0 \<and> sig_ok vm0"
  shows "keeps b vm0 (check_sig C pk s)"
proof (rule op_validI)
  fix vm assume f: "frame vm0 vm"
  have ok': "b \<or> exec_ok vm0" and ok'': "\<not> b \<Longrightarrow> exec_ok vm \<and> sig_ok vm" using ok exec_ok_frame [OF _ f] f by (auto simp: sig_ok_def frame_eq)
  have base: "outcome_ok b (\<lambda>_. frame vm0) (or_false (newBaseSigVerifier C pk s vm) (\<lambda>v. sbind (base_Verify C v) (check_result s)) vm)"
    "outcome_ok b (\<lambda>_. frame vm0) (or_false (newBaseSigVerifier C pk s vm) (\<lambda>v. sbind (segwit_Verify C v) (check_result s)) vm)"
    if "b \<or> s \<noteq> []"
    using that ok'' f
    by (auto intro!: outcome_ok_or_false op_seq op_base_Verify [OF ok'] op_segwit_Verify [OF ok'] op_check_result
        dest: newBaseSigVerifier_no_panic)
  show "outcome_ok b (\<lambda>_. frame vm0) (check_sig C pk s vm)"
  proof (cases "b \<or> s \<noteq> [] \<or> vm_taprootCtx vm = None \<or> vm_witnessProgram vm \<noteq> None \<and> \<not> isWitnessVersionActive vm BaseSegwitWitnessVersion")
    case True
    have tap: "b \<or> tx_ok vm0 \<and> vm_hashCache vm0 \<noteq> None" if "vm_taprootCtx vm = Some c" for c
      using that ok frame_eq(14) [OF f] by (auto simp: exec_ok_def)
    have "b \<or> vm_witnessProgram vm = None \<or> isWitnessVersionActive vm BaseSegwitWitnessVersion \<or> vm_taprootCtx vm \<noteq> None"
      using ok'' by (auto simp: sig_ok_def isWitnessVersionActive_def BaseSegwitWitnessVersion_def)
    then show ?thesis
      using True base unfolding check_sig_def
      by (auto simp: Let_def split: option.split sum.split
          intro!: op_validD [OF op_stack(1) f] op_validD [OF op_stack(3)] outcome_ok_tapscript frame_taproot [OF f] tap op_check_result)
  next
    case False
    then show ?thesis
      using ok'' by (auto simp: exec_ok_def isWitnessVersionActive_def BaseSegwitWitnessVersion_def TaprootWitnessVersion_def)
  qed
qed

lemma op_checkSig:
  assumes "b \<or> exec_ok vm0 \<and> sig_ok vm0"
  shows "keeps b vm0 (opcodeCheckSig C)" "keeps b vm0 (opcodeCheckSigVerify C)"
  unfolding opcodeCheckSigVerify_def opcodeCheckSig_def by (intro op_rules op_stack op_check_sig assms)+

lemma op_add_sig:
  assumes ok: "b \<or> exec_ok vm0" and n: "\<bar>n\<bar> < 2 ^ 31"
  shows "op_valid b (\<lambda>vm. frame vm0 vm \<and> vm_taprootCtx vm0 \<noteq> None) (add_sig C pk n s) (\<lambda>_. frame vm0)"
proof (rule op_validI, elim conjE)
  fix vm assume f: "frame vm0 vm" and t: "vm_taprootCtx vm0 \<noteq> None"
  obtain ctx where ctx: "vm_taprootCtx vm = Some ctx" using t frame_eq(14) [OF f] by auto
  have tap: "b \<or> tx_ok vm0 \<and> vm_hashCache vm0 \<noteq> None" using ok t by (auto simp: exec_ok_def)
  have fits: "- (2 ^ 63) < n" "- (2 ^ 63) < wrap64 (n + 1)" using n by auto
  show "outcome_ok b (\<lambda>_. frame vm0) (add_sig C pk n s vm)"
    using tap unfolding add_sig_def ctx
    by (auto simp: Let_def split: option.split sum.split prod.split
        intro!: op_validD [OF op_pushInt [OF fits(1)]] outcome_ok_tapscript frame_taproot [OF f ctx] op_rules fits(2))
qed

lemma op_checkSigAdd:
  assumes ok: "b \<or> exec_ok vm0"
  shows "keeps b vm0 (opcodeCheckSigAdd C)"
proof (cases "vm_taprootCtx vm0 = None")
  case True
  then show ?thesis by (intro op_validI) (simp add: opcodeCheckSigAdd_def frame_eq)
next
  case False
  have "keeps b vm0 (add_sig C pk n s)" if "\<bar>n\<bar> < 2 ^ 31" for pk n s
    using op_add_sig [OF ok that] False by simp
  then show ?thesis
    unfolding opcodeCheckSigAdd_def by (intro op_if_state op_rules op_stack op_validI) (auto intro!: op_validD [OF op_seq] op_stack op_popInt)
qed

section \<open>Several signatures\<close>

lemma op_pop_n [op_rules]: "keeps b vm0 (pop_n n)"
  by (induction n) (auto intro!: op_rules op_stack)

lemma op_remove_sigs: "keeps b vm0 (remove_sigs sigs script)"
proof (rule op_validI)
  fix vm assume "frame vm0 vm"
  then show "outcome_ok b (\<lambda>_. frame vm0) (remove_sigs sigs script vm)"
    by (induction sigs script vm rule: remove_sigs.induct) (auto split: prod.split)
qed

lemma parse_sig_no_panic [simp]: "parse_sig C rawSig st vm \<noteq> Panic"
  by (auto simp: parse_sig_def obind_Panic_iff split: parsed_sig.split)

lemma multisig_hash_no_panic: "exec_ok vm \<Longrightarrow> multisig_hash C script t vm \<noteq> Panic"
  using sig_hashes_no_panic [of vm C] calcSignatureHash_no_panic [of "vm_txIdx vm" "vm_tx vm"]
  by (auto simp: multisig_hash_def obind_Panic_iff exec_ok_def tx_ok_def split: sum.split)

lemma op_multisig_try:
  assumes ok: "b \<or> exec_ok vm0"
  shows "keeps b vm0 (multisig_try C script raw st key)"
proof (rule op_validI)
  fix vm assume f: "frame vm0 vm"
  have "multisig_hash C script t vm = Panic \<Longrightarrow> b" for t
    using ok exec_ok_frame [OF _ f] multisig_hash_no_panic by blast
  then show "outcome_ok b (\<lambda>_. frame vm0) (multisig_try C script raw st key vm)"
    unfolding multisig_try_def using f
    by (auto split: parsed_sig.split option.split prod.split intro!: outcome_ok_obind)
      (erule frame_cached_verify, assumption)+
qed

lemma op_multisig_loop:
  assumes ok: "b \<or> exec_ok vm0"
  shows "keeps b vm0 (multisig_loop C script sigs st keys)"
proof (rule op_validI)
  fix vm assume "frame vm0 vm"
  then show "outcome_ok b (\<lambda>_. frame vm0) (multisig_loop C script sigs st keys vm)"
  proof (induction keys arbitrary: sigs st vm)
    case (Cons key keys)
    then show ?case
      by (auto split: list.split intro!: outcome_ok_sbind [OF op_multisig_try [OF ok]])
  qed simp
qed

lemma op_multisig_verify:
  assumes ok: "b \<or> exec_ok vm0"
  shows "keeps b vm0 (multisig_verify C keys sigs dummy)"
proof (rule op_validI)
  fix vm assume f: "frame vm0 vm"
  have sub: "keeps b vm0 (lift_outcome subScript)"
    using ok exec_ok_frame subScript_no_panic by (intro op_lift_outcome) blast
  have "keeps b vm0 (\<lambda>vm. if c vm then Fail e else on_dstack (PushBool v) vm)" for c e v
    by (rule op_validI) (auto intro!: op_validD [OF op_stack(1)])
  then show "outcome_ok b (\<lambda>_. frame vm0) (multisig_verify C keys sigs dummy vm)"
    unfolding multisig_verify_def
    using f by (auto intro!: op_validD [OF op_seq] sub op_seq op_if op_remove_sigs op_sret op_multisig_loop [OF ok])
qed

lemma op_checkMultiSig [op_rules]:
  assumes ok: "b \<or> exec_ok vm0"
  shows "keeps b vm0 (opcodeCheckMultiSig C)" "keeps b vm0 (opcodeCheckMultiSigVerify C)"
proof -
  have sigs: "keeps b vm0 (multisig_sigs C n keys m)" for n keys m
    unfolding multisig_sigs_def by (intro op_rules op_stack op_multisig_verify [OF ok])
  have keys: "keeps b vm0 (multisig_keys C n)" for n
  proof (rule op_validI)
    fix vm assume f: "frame vm0 vm"
    then have "vm_numOps vm + n \<le> MaxOpsPerScript \<Longrightarrow> frame vm0 (vm\<lparr>vm_numOps := vm_numOps vm + n\<rparr>)"
      by (auto simp: frame_def)
    then show "outcome_ok b (\<lambda>_. frame vm0) (multisig_keys C n vm)"
      unfolding multisig_keys_def by (auto simp: Let_def intro!: op_validD [OF op_seq] op_pop_n op_popInt sigs)
  qed
  show *: "keeps b vm0 (opcodeCheckMultiSig C)"
    unfolding opcodeCheckMultiSig_def by (rule op_validI) (auto intro!: op_validD [OF op_popInt] keys)
  show "keeps b vm0 (opcodeCheckMultiSigVerify C)"
    unfolding opcodeCheckMultiSigVerify_def by (intro op_seq op_abstractVerify *)
qed

section \<open>Every opcode\<close>

lemma op_opcode_table:
  assumes ok: "b \<or> exec_ok vm0" and "(op, f) \<in> set (opcode_table C)"
    and sig: "op \<in> {OP_CHECKSIG, OP_CHECKSIGVERIFY} \<Longrightarrow> b \<or> sig_ok vm0"
  shows "keeps b vm0 f"
proof (cases "op \<in> {OP_CHECKSIG, OP_CHECKSIGVERIFY}")
  case True
  then have "b \<or> exec_ok vm0 \<and> sig_ok vm0" using sig ok by blast
  then show ?thesis
    using op_checkSig [of b vm0 C] True assms(2) unfolding opcode_table_def by auto
next
  case False
  have "list_all (\<lambda>(k, f). k \<in> {OP_CHECKSIG, OP_CHECKSIGVERIFY} \<or> keeps b vm0 f) (opcode_table C)"
    unfolding opcode_table_def by (simp add: op_rules op_lockTimes [OF ok] op_checkMultiSig [OF ok] op_checkSigAdd [OF ok])
  then show ?thesis using assms(2) False unfolding list_all_iff by fast
qed

lemma op_opfunc:
  assumes "b \<or> exec_ok vm0" "op \<in> {OP_CHECKSIG, OP_CHECKSIGVERIFY} \<Longrightarrow> b \<or> sig_ok vm0"
  shows "keeps b vm0 (opfunc C op data)"
proof -
  have "keeps b vm0 (case map_of (opcode_table C) op of None \<Rightarrow> opcodeInvalid | Some f \<Rightarrow> f)"
  proof (cases "map_of (opcode_table C) op")
    case (Some f)
    then show ?thesis using op_opcode_table [OF assms(1) map_of_SomeD [OF Some] assms(2)] by simp
  qed (simp add: op_simple)
  then show ?thesis unfolding opfunc_def by (intro op_if) (simp_all only: op_simple)
qed

lemma outcome_ok_if: "(c \<Longrightarrow> outcome_ok b Q m) \<Longrightarrow> (\<not> c \<Longrightarrow> outcome_ok b Q n) \<Longrightarrow> outcome_ok b Q (if c then m else n)"
  by simp

lemma op_executeOpcode:
  assumes "b \<or> exec_ok vm0" "op \<in> {OP_CHECKSIG, OP_CHECKSIGVERIFY} \<Longrightarrow> b \<or> sig_ok vm0"
  shows "keeps b vm0 (executeOpcode C op data)"
proof (rule op_validI)
  fix vm assume f: "frame vm0 vm"
  define counted where "counted = (vm_taprootCtx vm = None \<and> op > OP_16)"
  define vm1 where "vm1 = (if counted then vm\<lparr>vm_numOps := vm_numOps vm + 1\<rparr> else vm)"
  have f1: "frame vm0 vm1" if "\<not> (counted \<and> vm_numOps vm1 > MaxOpsPerScript)"
    using f that by (auto simp: frame_def vm1_def)
  have "outcome_ok b (\<lambda>_. frame vm0) (opfunc C op data vm1)" if "\<not> (counted \<and> vm_numOps vm1 > MaxOpsPerScript)"
    by (rule op_validD [OF op_opfunc [OF assms] f1 [OF that]])
  then show "outcome_ok b (\<lambda>_. frame vm0) (executeOpcode C op data vm)"
    unfolding executeOpcode_def Let_def counted_def [symmetric] vm1_def [symmetric]
    by (intro outcome_ok_if; (simp only: outcome_ok_simps)?) (blast intro: f1)+
qed

end
