(* ===== verification/Engine_Run.thy ===== *)
theory Engine_Run
  imports Engine_Frame
begin

text \<open>
  Running scripts to the end: every run of the engine returns, whatever the scripts and whatever the engine it starts from.
\<close>

section \<open>Between two scripts\<close>

text \<open>What checking a witness program may change: it appends at most one script, and only a program of version 0 or a tapscript.\<close>

definition witness_frame :: "engine \<Rightarrow> engine \<Rightarrow> bool" where
  "witness_frame vm0 vm \<longleftrightarrow> (\<exists>d c t e.
    vm = vm0\<lparr>vm_dstack := d, vm_sigCache := c, vm_taprootCtx := t, vm_scripts := vm_scripts vm0 @ e\<rparr>
    \<and> (e = [] \<or> (\<exists>s. e = [s] \<and> checkScriptParses (vm_version vm0) s = None
        \<and> (isWitnessVersionActive vm0 BaseSegwitWitnessVersion \<and> t = vm_taprootCtx vm0
          \<or> isWitnessVersionActive vm0 TaprootWitnessVersion \<and> \<not> vm_bip16 vm0 \<and> hasFlag vm0 ScriptVerifyTaproot \<and> t \<noteq> None))))"

lemma witness_frame_same:
  "vm = vm0\<lparr>vm_dstack := d, vm_sigCache := c, vm_taprootCtx := t\<rparr> \<Longrightarrow> witness_frame vm0 vm"
  unfolding witness_frame_def by (rule exI [of _ d], rule exI [of _ c], rule exI [of _ t], rule exI [of _ "[]"]) simp

lemma must_parse_Ret [simp]: "must_parse s vm = Ret (u, vm') \<longleftrightarrow> checkScriptParses (vm_version vm) s = None \<and> vm' = vm"
  by (auto simp: must_parse_def split: option.split)

lemma must_parse_no_panic [simp]: "must_parse s vm \<noteq> Panic"
  by (simp add: must_parse_def split: option.split)

lemma outcome_ok_must_parse:
  "(checkScriptParses (vm_version vm) s = None \<Longrightarrow> outcome_ok b Q (f () vm)) \<Longrightarrow> outcome_ok b Q (sbind (must_parse s) f vm)"
  by (auto simp: sbind_def must_parse_def split: option.split)

lemma witness_frame_add:
  assumes "checkScriptParses (vm_version vm0) s = None"
    and "isWitnessVersionActive vm0 BaseSegwitWitnessVersion \<and> t = vm_taprootCtx vm0
      \<or> isWitnessVersionActive vm0 TaprootWitnessVersion \<and> \<not> vm_bip16 vm0 \<and> hasFlag vm0 ScriptVerifyTaproot \<and> t \<noteq> None"
  shows "witness_frame vm0 (add_script s st (vm0\<lparr>vm_taprootCtx := t\<rparr>))"
  using assms unfolding witness_frame_def
  by (intro exI [of _ "setStack st (vm_dstack vm0)"] exI [of _ "vm_sigCache vm0"] exI [of _ t] exI [of _ "[s]"])
    (simp add: add_script_def SetStack_def)

lemma witness_frame_refl [simp]: "witness_frame vm vm"
  by (rule witness_frame_same [where d = "vm_dstack vm" and c = "vm_sigCache vm" and t = "vm_taprootCtx vm"]) simp

lemma op_verify_v0:
  assumes "isWitnessVersionActive vm BaseSegwitWitnessVersion"
  shows "outcome_ok b (\<lambda>_. witness_frame vm) (verify_v0 C program witness vm)"
proof -
  have "witness_frame vm (add_script s st vm)" if "checkScriptParses (vm_version vm) s = None" for s st
    using witness_frame_add [where ?vm0.0 = vm and t = "vm_taprootCtx vm"] that assms by simp
  then show ?thesis
    unfolding verify_v0_def Let_def by (auto intro!: outcome_ok_if outcome_ok_must_parse split: prod.split)
qed

section \<open>Taproot\<close>

text \<open>What is relied on of the curve: a serialized key parses, and is not empty.\<close>

definition crypto_ok :: "('k, 's, 't) crypto \<Rightarrow> bool" where
  "crypto_ok C \<longleftrightarrow> (\<forall>k. c_schnorr_ParsePubKey C (c_schnorr_SerializePubKey C k) \<noteq> None \<and> c_SerializeCompressed C k \<noteq> [])"

lemma VerifyTaprootLeafCommitment_no_panic: "crypto_ok C \<Longrightarrow> VerifyTaprootLeafCommitment C cb p s \<noteq> Panic"
  by (auto simp: VerifyTaprootLeafCommitment_def ComputeTaprootOutputKey_def crypto_ok_def obind_Panic_iff split: option.splits)

lemma ParseControlBlock_no_panic [simp]: "ParseControlBlock C b \<noteq> Panic"
  by (auto simp: ParseControlBlock_def obind_Panic_iff)

lemma cached_verify_only: "cached_verify C h s k v vm = (r, vm') \<Longrightarrow> \<exists>c. vm' = vm\<lparr>vm_sigCache := c\<rparr>"
  by (auto simp: cached_verify_def split: option.splits if_splits intro: exI [of _ "vm_sigCache vm"])

lemma taproot_check_only:
  assumes "taproot_check C t opts vm = Ret (r, vm')"
  shows "\<exists>c. vm' = vm\<lparr>vm_sigCache := c\<rparr>"
proof (cases "calcTaprootSignatureHashRaw (c_sha256 C) (vm_hashCache vm) (tv_hashType t) (vm_tx vm) (vm_txIdx vm) (vm_prevOutFetcher vm) opts")
  case (Fail e)
  then show ?thesis using assms by (auto simp: taproot_check_def intro: exI [of _ "vm_sigCache vm"])
next
  case (Ret h)
  obtain v vm1 where "taproot_verifySig C t h vm = (v, vm1)" by (cases "taproot_verifySig C t h vm")
  then show ?thesis using assms Ret by (auto simp: taproot_check_def taproot_verifySig_def dest: cached_verify_only)
qed (use assms in \<open>simp add: taproot_check_def\<close>)

lemma VerifyTaprootKeySpend_frame: "VerifyTaprootKeySpend C p s vm = Ret vm' \<Longrightarrow> \<exists>c. vm' = vm\<lparr>vm_sigCache := c\<rparr>"
  by (auto simp: VerifyTaprootKeySpend_def obind_Ret_iff taproot_Verify_def split: if_splits dest: taproot_check_only)

lemma VerifyTaprootKeySpend_no_panic:
  assumes "tx_ok vm" "vm_hashCache vm \<noteq> None"
  shows "VerifyTaprootKeySpend C p s vm \<noteq> Panic"
proof -
  have "taproot_Verify C t vm \<noteq> Panic" for t
    using op_validD [OF op_taproot_check [of False vm C t "with_annex C (tv_annex t)"] frame_refl] assms
    by (auto simp: taproot_Verify_def)
  then show ?thesis
    using assms(1)
    by (auto simp: VerifyTaprootKeySpend_def newTaprootSigVerifier_def parseTaprootSigAndPubKey_def obind_Panic_iff tx_ok_def split: if_splits)
qed

lemma op_verify_taproot:
  assumes v: "isWitnessVersionActive vm TaprootWitnessVersion" "\<not> vm_bip16 vm"
    and ok: "b \<or> tx_ok vm \<and> crypto_ok C \<and> (hasFlag vm ScriptVerifyTaproot \<longrightarrow> vm_hashCache vm \<noteq> None)"
  shows "outcome_ok b (\<lambda>_. witness_frame vm) (verify_taproot C program witness vm)"
proof (cases "hasFlag vm ScriptVerifyTaproot \<and> witness \<noteq> []")
  case True
  define annexed where "annexed = isAnnexedWitness witness"
  define ctx where "ctx = (if annexed then newTaprootExecutionCtx (wrap32 (int (TxWitness_SerializeSize witness)))\<lparr>tc_annex := extractAnnex witness\<rparr>
    else newTaprootExecutionCtx (wrap32 (int (TxWitness_SerializeSize witness))))"
  define w where "w = (if annexed then butlast witness else witness)"
  define vm1 where "vm1 = vm\<lparr>vm_taprootCtx := Some ctx\<rparr>"
  have ne: "0 < length w" using True length_greater_0_conv [of witness] by (simp add: w_def annexed_def isAnnexedWitness_def del: length_greater_0_conv)
  have succ: "outcome_ok b (\<lambda>_. witness_frame vm) (succeed c (vm1\<lparr>vm_sigCache := s\<rparr>))" for c s
    using witness_frame_same [where ?vm0.0 = vm and d = "vm_dstack vm" and c = s and t = "Some (c\<lparr>tc_mustSucceed := True\<rparr>)"]
    by (simp add: succeed_def vm1_def)
  have key: "outcome_ok b (\<lambda>_. witness_frame vm) (obind (VerifyTaprootKeySpend C program (w ! 0) vm1) (\<lambda>vm. succeed ctx vm))"
    using ok True succ VerifyTaprootKeySpend_no_panic [of vm1 C program "w ! 0"]
    by (auto simp: vm1_def tx_ok_def intro!: outcome_ok_obind dest!: VerifyTaprootKeySpend_frame)
  have leaf: "outcome_ok b (\<lambda>_. witness_frame vm) (verify_leaf C program w ctx vm1)" if "length w \<noteq> 1"
  proof -
    have l: "1 < length w" using that ne by linarith
    have "outcome_ok b (\<lambda>_. witness_frame vm) (succeed ctx vm1)" using succ [of ctx "vm_sigCache vm"] by (simp add: vm1_def)
    moreover have "witness_frame vm (add_script s st (vm1\<lparr>vm_taprootCtx := Some c\<rparr>))" if "checkScriptParses (vm_version vm1) s = None" for s st c
      using witness_frame_add [where ?vm0.0 = vm and t = "Some c"] that v True by (simp add: vm1_def)
    ultimately show ?thesis
      using ok l unfolding verify_leaf_def Let_def
      by (auto intro!: outcome_ok_obind outcome_ok_if outcome_ok_must_parse dest: VerifyTaprootLeafCommitment_no_panic)
  qed
  show ?thesis using True key leaf unfolding verify_taproot_def Let_def annexed_def [symmetric] ctx_def [symmetric] w_def [symmetric]
    vm1_def [symmetric] by simp
qed (auto simp: verify_taproot_def)

lemma op_verifyWitnessProgram:
  assumes ok: "b \<or> tx_ok vm \<and> crypto_ok C \<and> (hasFlag vm ScriptVerifyTaproot \<longrightarrow> vm_hashCache vm \<noteq> None)"
  shows "outcome_ok b (\<lambda>_. witness_frame vm) (verifyWitnessProgram C witness vm)"
proof -
  have sizes: "outcome_ok b Q ((if c then check_sizes else sret ()) vm')" if "Q () vm'" for c Q vm'
    using that by (auto simp: check_sizes_def Let_def sret_def)
  have accept: "outcome_ok b (\<lambda>_. witness_frame vm) (sbind witnessProgramAcceptStack (\<lambda>_. sret True) vm)"
    using witness_frame_same [where ?vm0.0 = vm and c = "vm_sigCache vm" and t = "vm_taprootCtx vm"]
    by (auto simp: sbind_def witnessProgramAcceptStack_def sret_def split: list.split)
  define m where "m = (if isWitnessVersionActive vm BaseSegwitWitnessVersion then verify_v0 C (slice_bytes (vm_witnessProgram vm)) witness
       else if isWitnessVersionActive vm TaprootWitnessVersion \<and> length (slice_bytes (vm_witnessProgram vm)) = 32 \<and> \<not> vm_bip16 vm
       then verify_taproot C (slice_bytes (vm_witnessProgram vm)) witness
       else if IsPayToAnchorWitnessProgram (vm_witnessVersion vm) (slice_bytes (vm_witnessProgram vm)) \<and> \<not> vm_bip16 vm
       then sbind witnessProgramAcceptStack (\<lambda>_. sret True)
       else if hasFlag vm ScriptVerifyDiscourageUpgradeableWitnessProgram then sfail ErrDiscourageUpgradableWitnessProgram
       else sbind witnessProgramAcceptStack (\<lambda>_. sret True))"
  have m: "outcome_ok b (\<lambda>_. witness_frame vm) (m vm)"
    unfolding m_def using op_verify_v0 [of vm b C] op_verify_taproot [OF _ _ ok] accept by (simp add: sfail_def)
  have "op_valid b ((=) vm) m (\<lambda>_. witness_frame vm)" by (rule op_validI) (use m in simp)
  then show ?thesis
    unfolding verifyWitnessProgram_def Let_def m_def [symmetric] by (rule outcome_ok_sbind) (use sizes in auto)
qed

lemma CheckErrorCondition_only: "CheckErrorCondition final vm = Ret (u, vm') \<Longrightarrow> \<exists>d. vm' = vm\<lparr>vm_dstack := d\<rparr>"
  by (auto simp: CheckErrorCondition_def sbind_def on_dstack_def obind_Ret_iff sret_def sfail_def intro: exI [of _ "vm_dstack vm"] split: if_splits)

lemma CheckErrorCondition_no_panic [simp]: "CheckErrorCondition final vm \<noteq> Panic"
  by (auto simp: CheckErrorCondition_def sbind_def on_dstack_def obind_Panic_iff sret_def sfail_def split: if_splits option.splits)

section \<open>The next script\<close>

text \<open>
  Ending a script moves to the next one; a script is appended only behind the second script, or behind the third when that is
  the redeem script of a program.
\<close>

lemma next_script_scripts:
  assumes "next_script C vm = Ret (u, vm')"
  shows "vm_scriptIdx vm' = vm_scriptIdx vm + 1"
    and "\<exists>e. vm_scripts vm' = vm_scripts vm @ e \<and> length e \<le> (if vm_scriptIdx vm = 1 \<or> vm_scriptIdx vm = 2 then 1 else 0)"
proof -
  consider (first) "vm_scriptIdx vm = 0" "vm_bip16 vm" | (redeem) "vm_scriptIdx vm = 1" "vm_bip16 vm"
    | (witness) "vm_scriptIdx vm = 1 \<or> vm_scriptIdx vm = 2" "\<not> (vm_scriptIdx vm = 1 \<and> vm_bip16 vm)" "vm_witnessProgram vm \<noteq> None"
        "vm_scriptIdx vm = 2 \<longrightarrow> vm_bip16 vm"
    | (other) "vm' = vm\<lparr>vm_scriptIdx := vm_scriptIdx vm + 1\<rparr>"
    using assms unfolding next_script_def by (auto split: if_splits)
  then have "vm_scriptIdx vm' = vm_scriptIdx vm + 1
    \<and> (\<exists>e. vm_scripts vm' = vm_scripts vm @ e \<and> length e \<le> (if vm_scriptIdx vm = 1 \<or> vm_scriptIdx vm = 2 then 1 else 0))"
  proof cases
    case redeem
    then show ?thesis
      using assms unfolding next_script_def
      by (auto simp: sbind_def obind_Ret_iff Let_def add_script_def SetStack_def split: if_splits dest!: CheckErrorCondition_only)
  next
    case witness
    then obtain txIn :: tx_in where "verifyWitnessProgram C (in_Witness txIn) (vm\<lparr>vm_scriptIdx := vm_scriptIdx vm + 1\<rparr>) = Ret (u, vm')"
      using assms unfolding next_script_def by (auto simp: obind_Ret_iff)
    then have "witness_frame (vm\<lparr>vm_scriptIdx := vm_scriptIdx vm + 1\<rparr>) vm'"
      using op_verifyWitnessProgram [of True "vm\<lparr>vm_scriptIdx := vm_scriptIdx vm + 1\<rparr>" C "in_Witness txIn"] by simp
    then show ?thesis using witness(1) unfolding witness_frame_def by auto
  qed (use assms in \<open>auto simp: next_script_def\<close>)
  then show "vm_scriptIdx vm' = vm_scriptIdx vm + 1"
    "\<exists>e. vm_scripts vm' = vm_scripts vm @ e \<and> length e \<le> (if vm_scriptIdx vm = 1 \<or> vm_scriptIdx vm = 2 then 1 else 0)"
    by blast+
qed

text \<open>The inversion of a step: one opcode is read and executed, and a script that is over is ended.\<close>

lemma Step_Ret:
  assumes "Step C vm = Ret (done, vm')"
  obtains t vm1 where "vm_scriptIdx vm < length (vm_scripts vm)" "tokenizer_Next (vm_tokenizer vm) = (True, t)"
    "executeOpcode C (tokenizer_Opcode t) (slice_bytes (tk_data t)) (vm\<lparr>vm_tokenizer := t\<rparr>) = Ret ((), vm1)"
    "Depth (vm_dstack vm1) + Depth (vm_astack vm1) \<le> MaxStackSize"
    "if tokenizer_Done (vm_tokenizer vm1) then end_script C (vm1\<lparr>vm_opcodeIdx := vm_opcodeIdx vm1 + 1\<rparr>) = Ret (done, vm')
     else \<not> done \<and> vm' = vm1\<lparr>vm_opcodeIdx := vm_opcodeIdx vm1 + 1\<rparr>"
proof -
  obtain got t where N: "tokenizer_Next (vm_tokenizer vm) = (got, t)" by (cases "tokenizer_Next (vm_tokenizer vm)")
  have pc: "vm_scriptIdx vm < length (vm_scripts vm)" "got"
    using assms N by (auto simp: Step_def checkValidPC_def split: if_splits option.splits)
  then obtain vm1 where X: "executeOpcode C (tokenizer_Opcode t) (slice_bytes (tk_data t)) (vm\<lparr>vm_tokenizer := t\<rparr>) = Ret ((), vm1)"
    using assms N by (auto simp: Step_def checkValidPC_def sbind_def obind_Ret_iff)
  then show ?thesis
    using that [OF pc(1) _ X] assms N pc by (auto simp: Step_def checkValidPC_def sbind_def Let_def split: if_splits)
qed

lemma end_script_Ret:
  assumes "end_script C vm = Ret (done, vm')"
  obtains vm1 idx where "vm_condStack vm = []"
    "next_script C (vm\<lparr>vm_astack := (vm_astack vm)\<lparr>stk := []\<rparr>, vm_numOps := 0, vm_opcodeIdx := 0\<rparr>) = Ret ((), vm1)"
    "idx = (if vm_scriptIdx vm1 < length (vm_scripts vm1) \<and> length (vm_scripts vm1 ! vm_scriptIdx vm1) = 0
       then vm_scriptIdx vm1 + 1 else vm_scriptIdx vm1)"
    "done \<longleftrightarrow> length (vm_scripts vm1) \<le> idx"
    "vm' = (if done then vm1\<lparr>vm_scriptIdx := idx, vm_lastCodeSep := 0\<rparr>
       else vm1\<lparr>vm_scriptIdx := idx, vm_lastCodeSep := 0, vm_tokenizer := MakeScriptTokenizer (vm_version vm1) (vm_scripts vm1 ! idx)\<rparr>)"
proof -
  have c: "vm_condStack vm = []" using assms by (simp add: end_script_def split: if_splits)
  then obtain vm1 where n: "next_script C (vm\<lparr>vm_astack := (vm_astack vm)\<lparr>stk := []\<rparr>, vm_numOps := 0, vm_opcodeIdx := 0\<rparr>) = Ret ((), vm1)"
    using assms unfolding end_script_def sbind_def by (auto simp: obind_Ret_iff)
  show ?thesis
    by (rule that [OF c n refl]) (use assms c n in \<open>simp_all add: end_script_def sbind_def Let_def split: if_split_asm\<close>)
qed

section \<open>Termination\<close>

text \<open>What is still to run: the scripts that there are and that may come, and the bytes left of the current one.\<close>

definition scripts_left :: "engine \<Rightarrow> nat" where
  "scripts_left vm = length (vm_scripts vm) - vm_scriptIdx vm + (if vm_scriptIdx vm \<le> 1 then 2 else if vm_scriptIdx vm = 2 then 1 else 0)"

definition bytes_left :: "engine \<Rightarrow> nat" where
  "bytes_left vm = length (tk_script (vm_tokenizer vm)) - tk_offset (vm_tokenizer vm)"

lemma Step_progress:
  assumes "Step C vm = Ret (False, vm')"
  shows "scripts_left vm' < scripts_left vm \<or> scripts_left vm' = scripts_left vm \<and> bytes_left vm' < bytes_left vm"
  using assms
proof (cases rule: Step_Ret)
  case (1 t vm1)
  have f: "frame (vm\<lparr>vm_tokenizer := t\<rparr>) vm1"
    using op_valid_cases(2) [OF op_executeOpcode [of True] frame_refl 1(3)] by simp
  show ?thesis
  proof (cases "tokenizer_Done (vm_tokenizer vm1)")
    case False
    then show ?thesis
      using 1(5) frame_eq [OF f] tokenizer_Next_progress [OF 1(2)] by (auto simp: scripts_left_def bytes_left_def)
  next
    case True
    define vm2 where "vm2 = vm1\<lparr>vm_opcodeIdx := vm_opcodeIdx vm1 + 1\<rparr>"
    have "end_script C vm2 = Ret (False, vm')" using 1(5) True by (simp add: vm2_def)
    then show ?thesis
    proof (cases rule: end_script_Ret)
      case (1 vm3 idx)
      have s: "vm_scriptIdx vm3 = vm_scriptIdx vm + 1"
        "\<exists>e. vm_scripts vm3 = vm_scripts vm @ e \<and> length e \<le> (if vm_scriptIdx vm = 1 \<or> vm_scriptIdx vm = 2 then 1 else 0)"
        using next_script_scripts [OF 1(2)] frame_eq [OF f] by (simp_all add: vm2_def)
      have "idx < length (vm_scripts vm3)" "vm_scriptIdx vm + 1 \<le> idx" "vm_scriptIdx vm' = idx" "vm_scripts vm' = vm_scripts vm3"
        using 1(3,4,5) s(1) by (auto split: if_splits)
      then have "scripts_left vm' < scripts_left vm"
        using s(2) unfolding scripts_left_def by (auto split: if_splits)
      then show ?thesis by simp
    qed
  qed
qed

lemma run_returns: "\<exists>r. run C vm = Some r"
proof (induction vm rule: wf_induct_rule [OF wf_measures [of "[scripts_left, bytes_left]"]])
  case (1 vm)
  show ?case
  proof (cases "Step C vm")
    case (Ret y)
    obtain d vm' where y: "y = (d, vm')" by (cases y)
    then show ?thesis using 1 [of vm'] Step_progress [of C vm vm'] Ret by (subst run.simps) auto
  qed (subst run.simps, simp)+
qed

text \<open>
  C4: running the engine ends. Whatever the scripts, the witness and the engine \<open>Execute\<close> is called on, and whatever the curve and
  hash functions do, it returns: with success, an error or a panic.
\<close>

theorem Execute_terminates: "\<exists>r. Execute C vm = Some r"
  using run_returns [of C vm] by (auto simp: Execute_def)

end
