(* ===== verification/Engine_Safety.thy ===== *)
theory Engine_Safety
  imports Engine_Run
begin

text \<open>
  The engine is type safe. \<open>engine_inv\<close> says what holds of every engine between two opcodes: the tokenizer stands at an opcode
  boundary of the current script, the counters respect their limits, and what was established about witness programs and
  pay-to-script-hash when the engine was made still holds. From such an engine a step does not panic, and it leads to such an engine.
\<close>

section \<open>The invariant\<close>

definition current_script :: "engine \<Rightarrow> bytes" where
  "current_script vm = vm_scripts vm ! vm_scriptIdx vm"

definition position :: "engine \<Rightarrow> nat" where
  "position vm = tk_offset (vm_tokenizer vm)"

definition core_inv :: "engine \<Rightarrow> bool" where
  "core_inv vm \<longleftrightarrow>
    vm_version vm = 0 \<and> tx_ok vm \<and> (hasFlag vm ScriptVerifyTaproot \<longrightarrow> vm_hashCache vm \<noteq> None)
    \<and> vm_scriptIdx vm \<le> 3 \<and> length (vm_scripts vm) = max 2 (vm_scriptIdx vm + 1) \<and> (\<forall>s\<in>set (vm_scripts vm). snd (tokens s))
    \<and> tk_script (vm_tokenizer vm) = current_script vm \<and> tk_err (vm_tokenizer vm) = None \<and> position vm \<le> length (current_script vm)
    \<and> snd (tokens (drop (position vm) (current_script vm)))
    \<and> set (fst (tokens (drop (position vm) (current_script vm)))) \<subseteq> set (fst (tokens (current_script vm)))
    \<and> vm_lastCodeSep vm \<le> position vm \<and> vm_numOps vm \<le> MaxOpsPerScript
    \<and> (if position vm = 0 then vm_condStack vm = [] \<and> stk (vm_astack vm) = [] else Depth (vm_dstack vm) + Depth (vm_astack vm) \<le> MaxStackSize)"

text \<open>A tapscript is the third script, behind an output that is not pay-to-script-hash.\<close>

definition taproot_inv :: "engine \<Rightarrow> bool" where
  "taproot_inv vm \<longleftrightarrow> (vm_taprootCtx vm \<noteq> None \<longrightarrow>
    hasFlag vm ScriptVerifyTaproot \<and> isWitnessVersionActive vm TaprootWitnessVersion \<and> \<not> vm_bip16 vm \<and> vm_scriptIdx vm = 2)"

text \<open>Pay-to-script-hash: the saved stack is not empty once the hash has been computed.\<close>

definition p2sh_inv :: "engine \<Rightarrow> bool" where
  "p2sh_inv vm \<longleftrightarrow> (vm_bip16 vm \<longrightarrow> isScriptHashScript (vm_scripts vm ! 1)
    \<and> (vm_scriptIdx vm = 1 \<longrightarrow> vm_savedFirstStack vm \<noteq> [] \<or> position vm = 0 \<and> stk (vm_dstack vm) = []))"

text \<open>
  Witness programs: the scripts before the witness script are the program, or the script that pushes it and the script of its
  hash; afterwards there is a script only for a program of version 0 or a tapscript.
\<close>

definition nested_program :: "engine \<Rightarrow> bytes \<Rightarrow> bool" where
  "nested_program vm redeem \<longleftrightarrow>
    isWitnessProgramScript redeem \<and> vm_scripts vm ! 0 = push_data redeem
    \<and> (vm_scriptIdx vm = 0 \<longrightarrow> (if position vm = 0 then stk (vm_dstack vm) = []
         else position vm = length (current_script vm) \<and> stk (vm_dstack vm) = [redeem]))
    \<and> (vm_scriptIdx vm = 1 \<longrightarrow> vm_savedFirstStack vm = [redeem])
    \<and> (vm_scriptIdx vm = 2 \<longrightarrow> vm_scripts vm ! 2 = redeem)"

definition witness_inv :: "engine \<Rightarrow> bool" where
  "witness_inv vm \<longleftrightarrow> (vm_witnessProgram vm \<noteq> None \<longrightarrow>
    (if vm_bip16 vm then (\<exists>redeem. nested_program vm redeem) \<and> (vm_scriptIdx vm = 3 \<longrightarrow> vm_witnessVersion vm = 0)
     else isWitnessProgramScript (vm_scripts vm ! 1) \<and> 1 \<le> vm_scriptIdx vm \<and> vm_scriptIdx vm \<le> 2
       \<and> (vm_scriptIdx vm = 2 \<longrightarrow> vm_witnessVersion vm = 0 \<or> vm_taprootCtx vm \<noteq> None)))"

definition engine_inv :: "engine \<Rightarrow> bool" where
  "engine_inv vm \<longleftrightarrow> core_inv vm \<and> taproot_inv vm \<and> p2sh_inv vm \<and> witness_inv vm"

text \<open>An engine that can take a step: there is an opcode left.\<close>

definition engine_wf :: "engine \<Rightarrow> bool" where
  "engine_wf vm \<longleftrightarrow> engine_inv vm \<and> position vm < length (current_script vm)"

section \<open>The scripts around a witness program\<close>

lemma isWitnessProgramScript_iff:
  "isWitnessProgramScript s \<longleftrightarrow> (\<exists>op p. s = op # word_of_nat (length p) # p \<and> IsSmallInt op \<and> 2 \<le> length p \<and> length p \<le> 40)"
proof -
  obtain v d ok where e: "extractWitnessProgramInfo s = (v, d, ok)" by (cases "extractWitnessProgramInfo s") auto
  show ?thesis
    using witness_program_iff [of s v d] witness_program_iff [of s] e unfolding isWitnessProgramScript_def
    by (cases ok) auto
qed

definition sig_free :: "bytes \<Rightarrow> bool" where
  "sig_free s \<longleftrightarrow> OP_CHECKSIG \<notin> fst ` set (fst (tokens s)) \<and> OP_CHECKSIGVERIFY \<notin> fst ` set (fst (tokens s))"

lemma push_byte_not_sig:
  "1 \<le> length p \<Longrightarrow> length p \<le> 75 \<Longrightarrow> (word_of_nat (length p) :: byte) \<noteq> OP_CHECKSIG \<and> (word_of_nat (length p) :: byte) \<noteq> OP_CHECKSIGVERIFY"
proof -
  assume p: "1 \<le> length p" "length p \<le> 75"
  then have "unat (word_of_nat (length p) :: byte) \<le> 75" by (simp add: unat_of_nat)
  then show ?thesis by auto
qed

lemma sig_free_program: "isWitnessProgramScript s \<Longrightarrow> sig_free s"
  using tokens_push_rest push_byte_not_sig
  by (fastforce simp: isWitnessProgramScript_iff sig_free_def IsSmallInt_def)

lemma program_push:
  assumes "isWitnessProgramScript s"
  shows "parse_op (push_data s) = Some (word_of_nat (length s), Some s, length (push_data s))"
    and "4 \<le> length s" "length s \<le> 42"
proof -
  show l: "4 \<le> length s" "length s \<le> 42" using assms by (auto simp: isWitnessProgramScript_iff)
  then show "parse_op (push_data s) = Some (word_of_nat (length s), Some s, length (push_data s))"
    using parse_op_push_data [of s "[]"] by (auto simp: push_opcode_def length_push_data)
qed

lemma push_data_not_empty: "push_data s \<noteq> []"
  by (auto simp: push_data_def Let_def)

lemma sig_free_program_push: "isWitnessProgramScript s \<Longrightarrow> sig_free (push_data s)"
proof -
  assume w: "isWitnessProgramScript s"
  note p = program_push [OF w]
  show ?thesis using push_data_not_empty [of s] p push_byte_not_sig [of s] by (simp add: sig_free_def tokens.simps [of "push_data s"] tokens.simps [of "[]"])
qed

lemma isScriptHashScript_form:
  assumes "isScriptHashScript s"
  obtains h where "s = OP_HASH160 # word_of_nat (length h) # h @ [OP_EQUAL]" "length h = 20"
proof -
  have s: "length s = 23" "s ! 0 = OP_HASH160" "s ! 1 = OP_DATA_20" "s ! 22 = OP_EQUAL"
    using assms by (auto simp: isScriptHashScript_def extractScriptHash_def split: if_splits)
  have "s = OP_HASH160 # OP_DATA_20 # slice 2 22 s @ [OP_EQUAL]"
  proof (rule nth_equalityI)
    fix i assume "i < length s"
    then consider "i = 0" | "i = 1" | j where "i = Suc (Suc j)" "j < 20" | "i = 22"
      using s(1) that by (cases i; cases "i - 1"; cases "i = 22") auto
    then show "s ! i = (OP_HASH160 # OP_DATA_20 # slice 2 22 s @ [OP_EQUAL]) ! i"
      using s by cases (auto simp: nth_Cons' nth_append slice_def)
  qed (use s in \<open>simp add: slice_def\<close>)
  then show thesis using that [of "slice 2 22 s"] s(1) by (simp add: slice_def)
qed

lemma scriptHash_tokens:
  assumes "isScriptHashScript s"
  shows "parse_op s = Some (OP_HASH160, None, 1)" "sig_free s" "s \<noteq> []" "length s = 23"
proof -
  obtain h where h: "s = OP_HASH160 # word_of_nat (length h) # h @ [OP_EQUAL]" "length h = 20" by (rule isScriptHashScript_form [OF assms])
  show p: "parse_op s = Some (OP_HASH160, None, 1)" by (simp add: h(1) parse_op_def)
  show "s \<noteq> []" "length s = 23" by (simp_all add: h)
  have d: "parse_op (word_of_nat (length h) # h @ [OP_EQUAL]) = Some (word_of_nat (length h), Some h, Suc (length h))"
    using parse_op_direct [of h "[OP_EQUAL]"] h(2) by simp
  have e: "parse_op [OP_EQUAL] = Some (OP_EQUAL, None, 1)" by (simp add: parse_op_def)
  have "tokens s = ([(OP_HASH160, None, [OP_HASH160]), (word_of_nat (length h), Some h, word_of_nat (length h) # h), (OP_EQUAL, None, [OP_EQUAL])], True)"
    using p by (simp add: h(1) tokens.simps [of "OP_HASH160 # _"] tokens.simps [of "word_of_nat (length h) # _"] d tokens.simps [of "[OP_EQUAL]"] e
        tokens.simps [of "[]"])
  then show "sig_free s" using push_byte_not_sig [of h] h(2) by (simp add: sig_free_def)
qed

section \<open>Two opcodes\<close>

text \<open>Executing a push, and hashing when the stack is empty.\<close>

lemma execute_push:
  assumes "executeOpcode C op data vm = Ret (u, vm')" "isBranchExecuting vm" "0 < op" "op \<le> 75"
  shows "vm' = vm\<lparr>vm_dstack := (vm_dstack vm)\<lparr>stk := data # stk (vm_dstack vm)\<rparr>\<rparr>"
proof -
  have "\<not> op > OP_16" "op \<noteq> OP_CODESEPARATOR" "op \<noteq> OP_0" "op \<le> OP_PUSHDATA4"
    using assms(3,4) by (auto simp: word_le_nat_alt word_less_nat_alt)
  then show ?thesis
    using assms(1,2) unfolding executeOpcode_def
    by (auto simp: Let_def opfunc_def opcodePushData_def on_dstack_def PushByteArray_def split: if_splits)
qed

lemma execute_hash160_empty:
  assumes "isBranchExecuting vm" "stk (vm_dstack vm) = []"
  shows "executeOpcode C OP_HASH160 data vm \<noteq> Ret r"
proof -
  have "opfunc C OP_HASH160 data = opcodeHash160 C" by (simp add: opfunc_def opcode_table_def)
  moreover have "opcodeHash160 C vm' \<noteq> Ret r" if "stk (vm_dstack vm') = []" for vm' r
    using that by (simp add: opcodeHash160_def hash_op_def sbind_def on_dstack_def PopByteArray_def nipN_def Depth_def)
  ultimately show ?thesis
    using assms unfolding executeOpcode_def by (auto simp: Let_def isBranchExecuting_def split: if_splits list.splits)
qed

section \<open>One opcode\<close>

lemma flag_update [simp]:
  "hasFlag (vm\<lparr>vm_tokenizer := t\<rparr>) f = hasFlag vm f" "hasFlag (vm\<lparr>vm_scriptIdx := i\<rparr>) f = hasFlag vm f"
  "isWitnessVersionActive (vm\<lparr>vm_tokenizer := t\<rparr>) v = isWitnessVersionActive vm v"
  "isWitnessVersionActive (vm\<lparr>vm_scriptIdx := i\<rparr>) v = isWitnessVersionActive vm v"
  by (simp_all add: hasFlag_def isWitnessVersionActive_def)

lemma nested_program_opcodeIdx [simp]: "nested_program (vm\<lparr>vm_opcodeIdx := i\<rparr>) = nested_program vm"
  by (rule ext) (simp add: nested_program_def position_def current_script_def)

lemma engine_inv_opcodeIdx [simp]: "engine_inv (vm\<lparr>vm_opcodeIdx := i\<rparr>) \<longleftrightarrow> engine_inv vm"
  by (simp add: engine_inv_def core_inv_def taproot_inv_def p2sh_inv_def witness_inv_def tx_ok_def hasFlag_def current_script_def position_def
      isWitnessVersionActive_def)

lemma next_opcode:
  assumes "engine_wf vm"
  obtains b d n where "parse_op (drop (position vm) (current_script vm)) = Some (b, d, n)"
    "tokenizer_Next (vm_tokenizer vm) = (True, tk_advance (vm_tokenizer vm) b d n)"
    "0 < n" "position vm + n \<le> length (current_script vm)"
    "b \<in> fst ` set (fst (tokens (current_script vm)))"
    "snd (tokens (drop (position vm + n) (current_script vm)))"
    "set (fst (tokens (drop (position vm + n) (current_script vm)))) \<subseteq> set (fst (tokens (current_script vm)))"
proof -
  define r where "r = drop (position vm) (current_script vm)"
  have c: "core_inv vm" and l: "position vm < length (current_script vm)" using assms by (simp_all add: engine_wf_def engine_inv_def)
  then have ne: "r \<noteq> []" and ok: "snd (tokens r)" and sub: "set (fst (tokens r)) \<subseteq> set (fst (tokens (current_script vm)))"
    by (simp_all add: r_def core_inv_def)
  obtain b d n where p: "parse_op r = Some (b, d, n)"
    using ok ne by (cases "parse_op r") (auto simp: tokens.simps [of r])
  have t: "tokens r = ((b, d, take n r) # fst (tokens (drop n r)), snd (tokens (drop n r)))"
    using p ne by (simp add: tokens.simps [of r] split: prod.split)
  have d: "drop n r = drop (position vm + n) (current_script vm)" by (simp add: r_def add.commute)
  have "\<not> tokenizer_Done (vm_tokenizer vm)" "tk_script (vm_tokenizer vm) = current_script vm" "tk_offset (vm_tokenizer vm) = position vm"
    using c l by (auto simp: tokenizer_Done_def core_inv_def position_def)
  then have N: "tokenizer_Next (vm_tokenizer vm) = (True, tk_advance (vm_tokenizer vm) b d n)"
    using p by (simp add: tokenizer_Next_parse r_def)
  show thesis
    by (rule that [OF p [unfolded r_def] N]) (use parse_op_bounds [OF p] t sub ok l d in \<open>auto simp: r_def intro: rev_image_eqI\<close>)
qed

lemma exec_ok_step:
  assumes "engine_wf vm" "tokenizer_Next (vm_tokenizer vm) = (True, t)"
  shows "exec_ok (vm\<lparr>vm_tokenizer := t\<rparr>)"
    and "tokenizer_Opcode t \<in> {OP_CHECKSIG, OP_CHECKSIGVERIFY} \<Longrightarrow> sig_ok (vm\<lparr>vm_tokenizer := t\<rparr>)"
proof -
  have i: "core_inv vm" "taproot_inv vm" "p2sh_inv vm" "witness_inv vm" using assms(1) by (simp_all add: engine_wf_def engine_inv_def)
  obtain b d n where N: "t = tk_advance (vm_tokenizer vm) b d n" "position vm + n \<le> length (current_script vm)"
    "b \<in> fst ` set (fst (tokens (current_script vm)))"
    using next_opcode [OF assms(1)] assms(2) by (metis prod.inject)
  show "exec_ok (vm\<lparr>vm_tokenizer := t\<rparr>)"
    using i(1,2) N(1,2) by (auto simp: exec_ok_def core_inv_def taproot_inv_def tx_ok_def current_script_def position_def isWitnessVersionActive_def)
  show "sig_ok (vm\<lparr>vm_tokenizer := t\<rparr>)" if "tokenizer_Opcode t \<in> {OP_CHECKSIG, OP_CHECKSIGVERIFY}"
  proof (rule ccontr)
    assume "\<not> sig_ok (vm\<lparr>vm_tokenizer := t\<rparr>)"
    then have w: "vm_witnessProgram vm \<noteq> None" "vm_witnessVersion vm \<noteq> 0" "vm_taprootCtx vm = None" by (auto simp: sig_ok_def)
    have "vm_scriptIdx vm \<le> 3" using i(1) by (simp add: core_inv_def)
    then consider "vm_scriptIdx vm = 0" | "vm_scriptIdx vm = 1" | "vm_scriptIdx vm = 2" | "vm_scriptIdx vm = 3" by linarith
    then have "sig_free (current_script vm)"
      using i(3,4) w sig_free_program sig_free_program_push scriptHash_tokens(2)
      by cases (auto simp: witness_inv_def nested_program_def p2sh_inv_def current_script_def split: if_splits)
    then show False using N that by (auto simp: sig_free_def)
  qed
qed

lemma execute_inv:
  assumes wf: "engine_wf vm" and N: "tokenizer_Next (vm_tokenizer vm) = (True, t)"
    and X: "executeOpcode C (tokenizer_Opcode t) (slice_bytes (tk_data t)) (vm\<lparr>vm_tokenizer := t\<rparr>) = Ret ((), vm1)"
    and d: "Depth (vm_dstack vm1) + Depth (vm_astack vm1) \<le> MaxStackSize"
  shows "engine_inv vm1" "0 < position vm1"
proof -
  have i: "core_inv vm" "taproot_inv vm" "p2sh_inv vm" "witness_inv vm" using wf by (simp_all add: engine_wf_def engine_inv_def)
  obtain b dt n where p: "parse_op (drop (position vm) (current_script vm)) = Some (b, dt, n)" 
    and N': "tokenizer_Next (vm_tokenizer vm) = (True, tk_advance (vm_tokenizer vm) b dt n)"
    and n: "0 < n" "position vm + n \<le> length (current_script vm)" "snd (tokens (drop (position vm + n) (current_script vm)))"
      "set (fst (tokens (drop (position vm + n) (current_script vm)))) \<subseteq> set (fst (tokens (current_script vm)))"
    by (rule next_opcode [OF wf])
  have t: "t = tk_advance (vm_tokenizer vm) b dt n" using N N' by simp
  have f: "frame (vm\<lparr>vm_tokenizer := t\<rparr>) vm1" using op_valid_cases(2) [OF op_executeOpcode [of True] frame_refl X] by simp
  note e = frame_eq [OF f, simplified]
  have pos: "position vm1 = position vm + n" by (simp add: position_def e t)
  then show "0 < position vm1" using n by simp
  have s: "current_script vm1 = current_script vm" by (simp add: current_script_def e)
  have executing: "isBranchExecuting (vm\<lparr>vm_tokenizer := t\<rparr>)" if "position vm = 0"
    using that i(1) by (simp add: core_inv_def isBranchExecuting_def)
  have "vm_lastCodeSep vm1 \<le> position vm + n" "vm_numOps vm1 \<le> MaxOpsPerScript"
    using f i(1) by (auto simp: frame_def core_inv_def t position_def)
  then have "core_inv vm1" using i(1) n d unfolding core_inv_def pos s by (simp add: e t tx_ok_def)
  moreover have "taproot_inv vm1" using i(2) unfolding taproot_inv_def e by simp
  moreover have "p2sh_inv vm1"
  proof -
    have "vm_savedFirstStack vm \<noteq> []" if "vm_bip16 vm" "vm_scriptIdx vm = 1"
    proof (rule ccontr)
      assume "\<not> vm_savedFirstStack vm \<noteq> []"
      then have z: "position vm = 0" "stk (vm_dstack vm) = []" "isScriptHashScript (current_script vm)"
        using i(3) that by (auto simp: p2sh_inv_def current_script_def)
      then have "b = OP_HASH160" using p scriptHash_tokens(1) by simp
      then show False using X execute_hash160_empty [OF executing [OF z(1)], of C] z(2) by (simp add: t)
    qed
    then show ?thesis using i(3) by (simp add: p2sh_inv_def e)
  qed
  moreover have "witness_inv vm1"
  proof -
    have "nested_program vm1 redeem" if np: "nested_program vm redeem" for redeem
    proof (cases "vm_scriptIdx vm = 0")
      case True
      note w = program_push [of redeem]
      have c: "current_script vm = push_data redeem" using np True by (simp add: current_script_def nested_program_def)
      have z: "position vm = 0" "stk (vm_dstack vm) = []" "isWitnessProgramScript redeem"
        using np True wf by (auto simp: engine_wf_def nested_program_def split: if_splits)
      have b: "b = word_of_nat (length redeem)" "dt = Some redeem" "n = length (current_script vm)" using p w(1) z c by simp_all
      have "0 < b" "b \<le> 75" using w(2,3) z unfolding b(1) by (auto simp: word_less_nat_alt word_le_nat_alt unat_of_nat)
      then show ?thesis
        using execute_push [OF X executing [OF z(1)]] z b(2,3) pos np True s n(1) by (simp add: t slice_bytes_def nested_program_def e)
    qed (use np in \<open>simp add: nested_program_def e\<close>)
    then have "(\<exists>redeem. nested_program vm redeem) \<Longrightarrow> (\<exists>redeem. nested_program vm1 redeem)" by blast
    then show ?thesis using i(4) unfolding witness_inv_def e by (simp split: if_splits)
  qed
  ultimately show "engine_inv vm1" by (simp add: engine_inv_def)
qed

section \<open>The end of a script\<close>

text \<open>The parts of the invariant that selecting a script has to establish; the rest follows when the script parses and the counters are reset.\<close>

lemma select_script:
  assumes "vm_version vm = 0" "tx_ok vm" "hasFlag vm ScriptVerifyTaproot \<longrightarrow> vm_hashCache vm \<noteq> None"
    and "idx \<le> 3" "length (vm_scripts vm) = max 2 (idx + 1)" "\<forall>s\<in>set (vm_scripts vm). snd (tokens s)" "vm_scripts vm ! idx \<noteq> []"
    and "vm_condStack vm = []" "stk (vm_astack vm) = []" "vm_numOps vm = 0"
    and vm': "vm' = vm\<lparr>vm_scriptIdx := idx, vm_lastCodeSep := 0, vm_tokenizer := MakeScriptTokenizer (vm_version vm) (vm_scripts vm ! idx)\<rparr>"
    and "taproot_inv vm'" "p2sh_inv vm'" "witness_inv vm'"
  shows "engine_wf vm'"
proof -
  have "core_inv vm'" using assms(1-10)
    by (simp add: vm' core_inv_def current_script_def position_def tx_ok_def hasFlag_def MaxOpsPerScript_def)
  moreover have "position vm' < length (current_script vm')" using assms(7) by (simp add: vm' position_def current_script_def)
  ultimately show ?thesis using assms(12-14) by (simp add: engine_wf_def engine_inv_def)
qed

text \<open>The four ways in which a script is followed by the next.\<close>

lemma next_script_cases:
  assumes "next_script C vm = Ret (u, vm')"
  obtains (first) "vm_scriptIdx vm = 0" "vm_bip16 vm" "vm' = vm\<lparr>vm_scriptIdx := 1, vm_savedFirstStack := GetStack vm\<rparr>"
    | (redeem) d where "vm_scriptIdx vm = 1" "vm_bip16 vm" "vm_savedFirstStack vm \<noteq> []"
        "checkScriptParses (vm_version vm) (last (vm_savedFirstStack vm)) = None"
        "vm' = add_script (last (vm_savedFirstStack vm)) (butlast (vm_savedFirstStack vm)) (vm\<lparr>vm_scriptIdx := 2, vm_dstack := d\<rparr>)"
    | (witness) "vm_scriptIdx vm = 1 \<and> \<not> vm_bip16 vm \<or> vm_scriptIdx vm = 2 \<and> vm_bip16 vm" "vm_witnessProgram vm \<noteq> None"
        "witness_frame (vm\<lparr>vm_scriptIdx := vm_scriptIdx vm + 1\<rparr>) vm'"
    | (plain) "vm' = vm\<lparr>vm_scriptIdx := vm_scriptIdx vm + 1\<rparr>" "vm_scriptIdx vm = 0 \<longrightarrow> \<not> vm_bip16 vm"
proof -
  consider (a) "vm_scriptIdx vm = 0" "vm_bip16 vm" | (b) "vm_scriptIdx vm = 1" "vm_bip16 vm"
    | (c) "vm_scriptIdx vm = 1 \<and> \<not> vm_bip16 vm \<or> vm_scriptIdx vm = 2 \<and> vm_bip16 vm" "vm_witnessProgram vm \<noteq> None"
    | (d) "\<not> (vm_scriptIdx vm = 0 \<and> vm_bip16 vm)" "\<not> (vm_scriptIdx vm = 1 \<and> vm_bip16 vm)"
        "\<not> (vm_scriptIdx vm = 1 \<and> vm_witnessProgram vm \<noteq> None \<or> vm_scriptIdx vm = 2 \<and> vm_witnessProgram vm \<noteq> None \<and> vm_bip16 vm)"
    by (cases "vm_bip16 vm"; cases "vm_scriptIdx vm = 1"; cases "vm_scriptIdx vm = 2") auto
  then show thesis
  proof cases
    case a
    then show ?thesis using assms first by (simp add: next_script_def)
  next
    case b
    then obtain vm1 where "CheckErrorCondition False (vm\<lparr>vm_scriptIdx := 2\<rparr>) = Ret ((), vm1)"
      using assms by (auto simp: next_script_def sbind_def obind_Ret_iff)
    moreover from this obtain d where "vm1 = vm\<lparr>vm_scriptIdx := 2, vm_dstack := d\<rparr>" using CheckErrorCondition_only by blast
    ultimately show ?thesis
      using assms b redeem [of d] by (simp add: next_script_def sbind_def Let_def obind_Ret_iff split: if_splits)
  next
    case c
    then obtain txIn :: tx_in where "verifyWitnessProgram C (in_Witness txIn) (vm\<lparr>vm_scriptIdx := vm_scriptIdx vm + 1\<rparr>) = Ret (u, vm')"
      using assms unfolding next_script_def by (auto simp: obind_Ret_iff)
    then show ?thesis
      using witness [OF c] op_verifyWitnessProgram [of True "vm\<lparr>vm_scriptIdx := vm_scriptIdx vm + 1\<rparr>" C "in_Witness txIn"] by simp
  next
    case d
    show ?thesis using assms plain d(1) unfolding next_script_def if_not_P [OF d(1)] if_not_P [OF d(2)] if_not_P [OF d(3)] by auto
  qed
qed

lemma end_script_inv:
  assumes inv: "engine_inv vm" and pos: "0 < position vm" "position vm = length (current_script vm)" and E: "end_script C vm = Ret (False, vm')"
  shows "engine_wf vm'"
  using E
proof (cases rule: end_script_Ret)
  case (1 vm1 idx)
  define vm0 where "vm0 = vm\<lparr>vm_astack := (vm_astack vm)\<lparr>stk := []\<rparr>, vm_numOps := 0, vm_opcodeIdx := 0\<rparr>"
  have n: "next_script C vm0 = Ret ((), vm1)" using 1(2) by (simp add: vm0_def)
  have i: "core_inv vm" "taproot_inv vm" "p2sh_inv vm" "witness_inv vm" using inv by (simp_all add: engine_inv_def)
  note c = i(1) [unfolded core_inv_def]
  have idx: "idx < length (vm_scripts vm1)" using 1(4) by simp
  have vm': "vm' = vm1\<lparr>vm_scriptIdx := idx, vm_lastCodeSep := 0, vm_tokenizer := MakeScriptTokenizer (vm_version vm1) (vm_scripts vm1 ! idx)\<rparr>"
    using 1(5) by simp
  have next_idx: "idx = vm_scriptIdx vm1" "vm_scripts vm1 ! idx \<noteq> []" if "length (vm_scripts vm1) \<le> vm_scriptIdx vm1 + 1"
    using that idx 1(3) by (auto split: if_splits)
  from n show ?thesis
  proof (cases rule: next_script_cases)
    case first
    then have f: "vm_scriptIdx vm = 0" "vm_bip16 vm" and vm1: "vm1 = vm0\<lparr>vm_scriptIdx := 1, vm_savedFirstStack := rev (stk (vm_dstack vm))\<rparr>"
      by (simp_all add: vm0_def GetStack_def getStack_def)
    have l: "length (vm_scripts vm) = 2" using c f by simp
    then have idx1: "idx = 1" "vm_scripts vm ! 1 \<noteq> []" using next_idx by (simp_all add: vm1 vm0_def)
    show ?thesis
    proof (rule select_script [OF _ _ _ _ _ _ _ _ _ _ vm'])
      show "taproot_inv vm'" using i(2) f by (auto simp: taproot_inv_def vm' vm1 vm0_def)
      show "p2sh_inv vm'" using i(3) f by (auto simp: p2sh_inv_def vm' vm1 vm0_def position_def)
      show "witness_inv vm'" using i(4) f pos idx1 by (auto simp: witness_inv_def nested_program_def vm' vm1 vm0_def)
    qed (use c f l idx1 1(1) in \<open>auto simp: vm1 vm0_def tx_ok_def hasFlag_def\<close>)
  next
    case (redeem d)
    define sv where "sv = vm_savedFirstStack vm"
    have f: "vm_scriptIdx vm = 1" "vm_bip16 vm" "sv \<noteq> []" "checkScriptParses 0 (last sv) = None"
      and vm1: "vm1 = add_script (last sv) (butlast sv) (vm0\<lparr>vm_scriptIdx := 2, vm_dstack := d\<rparr>)"
      using redeem c by (simp_all add: vm0_def sv_def)
    have sc: "vm_scripts vm1 = vm_scripts vm @ [last sv]" "length (vm_scripts vm) = 2" "vm_scriptIdx vm1 = 2"
      using c f by (simp_all add: vm1 vm0_def add_script_def SetStack_def)
    then have idx1: "idx = 2" "last sv \<noteq> []" using next_idx by (auto simp: nth_append)
    show ?thesis
    proof (rule select_script [OF _ _ _ _ _ _ _ _ _ _ vm'])
      show "taproot_inv vm'" using i(2) f by (auto simp: taproot_inv_def vm' vm1 vm0_def add_script_def SetStack_def)
      show "p2sh_inv vm'"
        using i(3) f sc(2) idx1 by (auto simp: p2sh_inv_def vm' vm1 vm0_def add_script_def SetStack_def nth_append)
      show "witness_inv vm'" using i(4) f sc(2) idx1
        by (auto simp: witness_inv_def nested_program_def vm' vm1 vm0_def add_script_def SetStack_def nth_append sv_def)
    qed (use c f sc idx1 1(1) in \<open>auto simp: vm1 vm0_def add_script_def SetStack_def tx_ok_def hasFlag_def nth_append checkScriptParses_iff\<close>)
  next
    case witness
    then have f: "vm_scriptIdx vm = 1 \<and> \<not> vm_bip16 vm \<or> vm_scriptIdx vm = 2 \<and> vm_bip16 vm" "vm_witnessProgram vm \<noteq> None"
      by (simp_all add: vm0_def)
    define vm2 where "vm2 = vm0\<lparr>vm_scriptIdx := vm_scriptIdx vm0 + 1\<rparr>"
    have same: "vm_version vm2 = vm_version vm" "vm_bip16 vm2 = vm_bip16 vm" "vm_taprootCtx vm2 = vm_taprootCtx vm" "vm_scripts vm2 = vm_scripts vm"
      "hasFlag vm2 = hasFlag vm" "isWitnessVersionActive vm2 = isWitnessVersionActive vm" "vm_scriptIdx vm2 = vm_scriptIdx vm + 1"
      by (simp_all add: vm2_def vm0_def hasFlag_def isWitnessVersionActive_def fun_eq_iff)
    obtain d sc t e where vm1: "vm1 = vm2\<lparr>vm_dstack := d, vm_sigCache := sc, vm_taprootCtx := t, vm_scripts := vm_scripts vm @ e\<rparr>"
      and e: "e = [] \<or> (\<exists>s. e = [s] \<and> checkScriptParses (vm_version vm) s = None
        \<and> (isWitnessVersionActive vm BaseSegwitWitnessVersion \<and> t = vm_taprootCtx vm
          \<or> isWitnessVersionActive vm TaprootWitnessVersion \<and> \<not> vm_bip16 vm \<and> hasFlag vm ScriptVerifyTaproot \<and> t \<noteq> None))"
      using witness(3) unfolding witness_frame_def vm2_def [symmetric] same by blast
    have "vm_taprootCtx vm = None" using i(2) f by (auto simp: taproot_inv_def)
    have idx1: "vm_scriptIdx vm1 = vm_scriptIdx vm + 1" "vm_scripts vm1 = vm_scripts vm @ e" by (simp_all add: vm1 same)
    have len: "length (vm_scripts vm) = vm_scriptIdx vm + 1" using c f by auto
    have "vm_scriptIdx vm1 \<le> idx" using 1(3) by (simp split: if_splits)
    then have "e \<noteq> []" using idx idx1 len by auto
    then obtain s where s: "e = [s]" "snd (tokens s)"
      and w: "isWitnessVersionActive vm BaseSegwitWitnessVersion \<and> t = None
          \<or> isWitnessVersionActive vm TaprootWitnessVersion \<and> \<not> vm_bip16 vm \<and> hasFlag vm ScriptVerifyTaproot \<and> t \<noteq> None"
      using e c \<open>vm_taprootCtx vm = None\<close> by (auto simp: checkScriptParses_iff)
    have ix: "idx = vm_scriptIdx vm + 1" "s \<noteq> []" using next_idx idx1 len s by (auto simp: nth_append)
    show ?thesis
    proof (rule select_script [OF _ _ _ _ _ _ _ _ _ _ vm'])
      show "taproot_inv vm'" using w f ix by (auto simp: taproot_inv_def vm' vm1 vm2_def vm0_def hasFlag_def isWitnessVersionActive_def)
      show "p2sh_inv vm'" using i(3) f ix len by (auto simp: p2sh_inv_def vm' vm1 vm2_def vm0_def nth_append)
      have "nested_program vm' r" if "nested_program vm r" "vm_scriptIdx vm = 2" for r
        using that ix len by (simp add: nested_program_def vm' vm1 vm2_def vm0_def nth_append)
      then have "\<exists>r. nested_program vm' r" if "vm_bip16 vm" using i(4) f that unfolding witness_inv_def by auto
      then show "witness_inv vm'"
        using i(4) f ix len w unfolding witness_inv_def
        by (auto simp: vm' vm1 vm2_def vm0_def nth_append isWitnessVersionActive_def BaseSegwitWitnessVersion_def)
    qed (use c f s ix len 1(1) in \<open>auto simp: vm1 vm2_def vm0_def tx_ok_def hasFlag_def nth_append\<close>)
  next
    case plain
    then have vm1: "vm1 = vm0\<lparr>vm_scriptIdx := vm_scriptIdx vm + 1\<rparr>" and f: "vm_scriptIdx vm = 0 \<longrightarrow> \<not> vm_bip16 vm" by (simp_all add: vm0_def)
    have z: "vm_scriptIdx vm = 0"
      using idx 1(3) c by (cases "vm_scriptIdx vm") (auto simp: vm1 vm0_def split: if_splits)
    then have l: "length (vm_scripts vm) = 2" using c by simp
    then have idx1: "idx = 1" "vm_scripts vm ! 1 \<noteq> []" using next_idx z by (simp_all add: vm1 vm0_def)
    show ?thesis
    proof (rule select_script [OF _ _ _ _ _ _ _ _ _ _ vm'])
      show "taproot_inv vm'" using i(2) z by (auto simp: taproot_inv_def vm' vm1 vm0_def)
      show "p2sh_inv vm'" using f z by (auto simp: p2sh_inv_def vm' vm1 vm0_def)
      show "witness_inv vm'" using i(4) f z by (auto simp: witness_inv_def vm' vm1 vm0_def)
    qed (use c l idx1 1(1) in \<open>auto simp: vm1 vm0_def tx_ok_def hasFlag_def\<close>)
  qed
qed

lemma end_script_no_panic:
  assumes inv: "engine_inv vm" and pos: "0 < position vm" and C: "crypto_ok C"
  shows "end_script C vm \<noteq> Panic"
proof -
  define vm0 where "vm0 = vm\<lparr>vm_astack := (vm_astack vm)\<lparr>stk := []\<rparr>, vm_numOps := 0, vm_opcodeIdx := 0\<rparr>"
  have i: "core_inv vm" "p2sh_inv vm" using inv by (simp_all add: engine_inv_def)
  have ok: "tx_ok vm0" "hasFlag vm0 ScriptVerifyTaproot \<longrightarrow> vm_hashCache vm0 \<noteq> None"
    using i(1) by (simp_all add: core_inv_def tx_ok_def vm0_def hasFlag_def)
  have sv: "vm_savedFirstStack vm0 \<noteq> []" if "vm_bip16 vm0" "vm_scriptIdx vm0 = 1"
    using i(2) pos that by (auto simp: p2sh_inv_def vm0_def)
  have "verifyWitnessProgram C w (vm0\<lparr>vm_scriptIdx := k\<rparr>) \<noteq> Panic" for w k
    using op_verifyWitnessProgram [of False "vm0\<lparr>vm_scriptIdx := k\<rparr>" C w] C ok by (auto simp: tx_ok_def)
  then have "next_script C vm0 \<noteq> Panic"
    using sv ok(1) unfolding next_script_def tx_ok_def
    by (auto simp: sbind_def obind_Panic_iff Let_def go_nth_def dest!: CheckErrorCondition_only split: if_splits)
  then show ?thesis
    unfolding end_script_def sbind_def vm0_def [symmetric] by (auto simp: obind_Panic_iff Let_def split: if_splits)
qed

section \<open>Type safety\<close>

text \<open>A step from a well-formed engine finds an opcode, does not panic, and leads to a well-formed engine.\<close>

lemma Step_post:
  assumes wf: "engine_wf vm" and N: "tokenizer_Next (vm_tokenizer vm) = (True, t)"
    and X: "executeOpcode C (tokenizer_Opcode t) (slice_bytes (tk_data t)) (vm\<lparr>vm_tokenizer := t\<rparr>) = Ret ((), vm1)"
    and d: "Depth (vm_dstack vm1) + Depth (vm_astack vm1) \<le> MaxStackSize"
  defines "vm2 \<equiv> vm1\<lparr>vm_opcodeIdx := vm_opcodeIdx vm1 + 1\<rparr>"
  shows "engine_inv vm2" "0 < position vm2" "position vm2 \<le> length (current_script vm2)"
    "position vm2 = length (current_script vm2) \<longleftrightarrow> tokenizer_Done (vm_tokenizer vm1)"
proof -
  note inv = execute_inv [OF wf N X d]
  show "engine_inv vm2" "0 < position vm2" using inv by (simp_all add: vm2_def position_def)
  show "position vm2 \<le> length (current_script vm2)" "position vm2 = length (current_script vm2) \<longleftrightarrow> tokenizer_Done (vm_tokenizer vm1)"
    using inv(1) by (auto simp: vm2_def tokenizer_Done_def engine_inv_def core_inv_def position_def current_script_def)
qed

lemma Step_wf:
  assumes wf: "engine_wf vm" and S: "Step C vm = Ret (False, vm')"
  shows "engine_wf vm'"
  using S
proof (cases rule: Step_Ret)
  case (1 t vm1)
  note post = Step_post [OF wf 1(2-4)]
  show ?thesis
  proof (cases "tokenizer_Done (vm_tokenizer vm1)")
    case True
    then show ?thesis using 1(5) end_script_inv [OF post(1,2)] post(4) by simp
  next
    case False
    then show ?thesis using 1(5) post by (auto simp: engine_wf_def)
  qed
qed

lemma Step_safe:
  assumes wf: "engine_wf vm" and C: "crypto_ok C"
  shows "checkValidPC vm = None" "fst (tokenizer_Next (vm_tokenizer vm))" "Step C vm \<noteq> Panic"
proof -
  obtain t where N: "tokenizer_Next (vm_tokenizer vm) = (True, t)" by (rule next_opcode [OF wf])
  then show "fst (tokenizer_Next (vm_tokenizer vm))" by simp
  note ok = exec_ok_step [OF wf N]
  have K: "keeps False (vm\<lparr>vm_tokenizer := t\<rparr>) (executeOpcode C (tokenizer_Opcode t) data)" for data
    using ok by (intro op_executeOpcode) auto
  show pc: "checkValidPC vm = None" using wf by (auto simp: checkValidPC_def engine_wf_def engine_inv_def core_inv_def)
  show "Step C vm \<noteq> Panic"
  proof
    assume P: "Step C vm = Panic"
    obtain vm1 where X: "executeOpcode C (tokenizer_Opcode t) (slice_bytes (tk_data t)) (vm\<lparr>vm_tokenizer := t\<rparr>) = Ret ((), vm1)"
      and d: "Depth (vm_dstack vm1) + Depth (vm_astack vm1) \<le> MaxStackSize"
      and e: "end_script C (vm1\<lparr>vm_opcodeIdx := vm_opcodeIdx vm1 + 1\<rparr>) = Panic"
      using P op_valid_cases(1) [OF K frame_refl] unfolding Step_def pc
      by (auto simp: N sbind_def obind_Panic_iff Let_def not_less split: if_splits)
    show False using end_script_no_panic [OF Step_post(1,2) [OF wf N X d] C] e by simp
  qed
qed

section \<open>A new engine is well-formed\<close>

text \<open>The witness program of an engine is its output script, or is what the whole signature script pushes.\<close>

lemma buildWitnessProgram_Ret:
  assumes "buildWitnessProgram scriptSig scriptPubKey w vm = Ret vm'"
  obtains v p where "vm' = vm\<lparr>vm_witnessVersion := v, vm_witnessProgram := p\<rparr>"
    "p \<noteq> vm_witnessProgram vm \<Longrightarrow> isWitnessProgramScript scriptPubKey \<and> scriptSig = []
      \<or> vm_bip16 vm \<and> \<not> isWitnessProgramScript scriptPubKey \<and> (\<exists>redeem. isWitnessProgramScript redeem \<and> scriptSig = push_data redeem)"
proof -
  have canonical: "Script (AddData r NewScriptBuilder) = (c, e) \<Longrightarrow> \<not> e \<Longrightarrow> c = push_data r" for r c e
    by (auto simp: Script_def AddData_def NewScriptBuilder_def addData_def split: if_splits)
  obtain wp where A: "(if isWitnessProgramScript scriptPubKey then
        (if scriptSig \<noteq> [] then Fail ErrWitnessMalleated else Ret (Some scriptPubKey))
      else if vm_bip16 vm then
        (if scriptSig = [] \<or> \<not> IsPushOnlyScript scriptSig then Ret None
         else let redeem = slice_bytes (finalOpcodeData 0 scriptSig) in
           if redeem = [] \<or> \<not> isWitnessProgramScript redeem then Ret None
           else (case Script (AddData redeem NewScriptBuilder) of (canonical, err) \<Rightarrow>
             if err \<or> scriptSig \<noteq> canonical then Fail ErrWitnessMalleatedP2SH else Ret (Some redeem)))
      else Ret None) = Ret wp"
    and B: "(case wp of None \<Rightarrow> if w then Fail ErrWitnessUnexpected else Ret vm
        | Some p \<Rightarrow> (case ExtractWitnessProgramInfo p of None \<Rightarrow> Fail ErrOther
            | Some (version, program) \<Rightarrow> Ret (vm\<lparr>vm_witnessVersion := version, vm_witnessProgram := program\<rparr>))) = Ret vm'"
    using assms unfolding buildWitnessProgram_def obind_Ret_iff by blast
  show thesis
  proof (cases wp)
    case None
    then show ?thesis using B that [of "vm_witnessProgram vm" "vm_witnessVersion vm"] by (simp split: if_splits)
  next
    case (Some q)
    then have "isWitnessProgramScript scriptPubKey \<and> scriptSig = []
      \<or> vm_bip16 vm \<and> \<not> isWitnessProgramScript scriptPubKey \<and> (\<exists>redeem. isWitnessProgramScript redeem \<and> scriptSig = push_data redeem)"
      using A canonical by (cases "Script (AddData (slice_bytes (finalOpcodeData 0 scriptSig)) NewScriptBuilder)")
        (auto simp: Let_def split: if_splits)
    then show ?thesis using B Some that by (auto split: option.splits prod.splits)
  qed
qed

lemma scriptHash_not_program: "isScriptHashScript s \<Longrightarrow> \<not> isWitnessProgramScript s"
  by (auto simp: isScriptHashScript_def extractScriptHash_def isWitnessProgramScript_iff IsSmallInt_def split: if_splits)

lemma NewEngine_wf:
  assumes N: "NewEngine scriptPubKey tx txIdx flags sigCache hashCache amount fetch = Ret vm"
    and fetch: "\<forall>ti\<in>set (tx_TxIn tx). fetch (in_PreviousOutPoint ti) \<noteq> None"
    and hc: "flags AND ScriptVerifyTaproot = ScriptVerifyTaproot \<longrightarrow> hashCache \<noteq> None"
  shows "engine_wf vm"
proof -
  define sig where "sig = in_SignatureScript (tx_TxIn tx ! txIdx)"
  define vm0 where "vm0 = initial_engine [sig, scriptPubKey] tx txIdx flags sigCache hashCache amount fetch"
  define p2sh where "p2sh \<longleftrightarrow> hasFlag vm0 ScriptBip16 \<and> isScriptHashScript scriptPubKey"
  define m where "m = hasFlag vm0 ScriptVerifyMinimalData"
  define vm1 where "vm1 = vm0\<lparr>vm_bip16 := p2sh, vm_scriptIdx := (if sig = [] then 1 else 0),
    vm_dstack := \<lparr>stk = [], verifyMinimalData = m\<rparr>, vm_astack := \<lparr>stk = [], verifyMinimalData = m\<rparr>\<rparr>"
  note N' = N [unfolded NewEngine_def Let_def sig_def [symmetric], folded vm0_def, folded p2sh_def m_def, folded vm1_def]
  have idx: "txIdx < length (tx_TxIn tx)" and ne: "\<not> (sig = [] \<and> scriptPubKey = [])"
    using N' by (auto split: if_splits)
  have "check_scripts [sig, scriptPubKey] = Ret ()" using N' by (auto simp: obind_Ret_iff split: if_splits)
  then have parse: "snd (tokens sig)" "snd (tokens scriptPubKey)"
    by (auto simp: checkScriptParses_iff [symmetric] split: if_splits option.splits)
  obtain vm2 where b: "vm2 = vm1 \<or> buildWitnessProgram sig scriptPubKey (in_Witness (tx_TxIn tx ! txIdx) \<noteq> []) vm1 = Ret vm2"
    and vm: "vm = vm2\<lparr>vm_tokenizer := MakeScriptTokenizer 0 (vm_scripts vm2 ! vm_scriptIdx vm2)\<rparr>"
    using N' by (auto simp: obind_Ret_iff split: if_splits)
  have p2shD: "isScriptHashScript scriptPubKey" if p2sh using that by (simp add: p2sh_def)
  have "vm_witnessProgram vm1 = None" by (simp add: vm1_def vm0_def initial_engine_def)
  obtain v p where vm2: "vm2 = vm1\<lparr>vm_witnessVersion := v, vm_witnessProgram := p\<rparr>"
    and w: "p \<noteq> None \<Longrightarrow> isWitnessProgramScript scriptPubKey \<and> sig = []
      \<or> p2sh \<and> \<not> isWitnessProgramScript scriptPubKey \<and> (\<exists>redeem. isWitnessProgramScript redeem \<and> sig = push_data redeem)"
    using b
  proof
    assume "vm2 = vm1"
    then show thesis using that [of None "vm_witnessVersion vm1"] by (simp add: vm1_def vm0_def initial_engine_def)
  next
    assume "buildWitnessProgram sig scriptPubKey (in_Witness (tx_TxIn tx ! txIdx) \<noteq> []) vm1 = Ret vm2"
    then show thesis by (rule buildWitnessProgram_Ret) (use that \<open>vm_witnessProgram vm1 = None\<close> in \<open>auto simp: vm1_def\<close>)
  qed
  have f: "vm_scripts vm2 = [sig, scriptPubKey]" "vm_scriptIdx vm2 = (if sig = [] then 1 else 0)" "vm_version vm2 = 0" "vm_lastCodeSep vm2 = 0"
    "vm_bip16 vm2 = p2sh" "vm_taprootCtx vm2 = None" "vm_witnessProgram vm2 = p" "stk (vm_dstack vm2) = []" "vm_condStack vm2 = []"
    "stk (vm_astack vm2) = []" "vm_numOps vm2 = 0"
    "tx_ok vm2" "hasFlag vm2 ScriptVerifyTaproot \<longrightarrow> vm_hashCache vm2 \<noteq> None"
    using idx fetch hc by (simp_all add: vm2 vm1_def vm0_def initial_engine_def tx_ok_def hasFlag_def)
  show ?thesis
  proof (rule select_script [of vm2 "vm_scriptIdx vm2"])
    show "vm = vm2\<lparr>vm_scriptIdx := vm_scriptIdx vm2, vm_lastCodeSep := 0,
        vm_tokenizer := MakeScriptTokenizer (vm_version vm2) (vm_scripts vm2 ! vm_scriptIdx vm2)\<rparr>"
      using f(3,4) by (simp add: vm)
    show "taproot_inv vm" by (simp add: taproot_inv_def vm f)
    show "p2sh_inv vm" using p2shD by (simp add: p2sh_inv_def vm f position_def)
    show "witness_inv vm"
      using w p2shD scriptHash_not_program push_data_not_empty
      by (cases p) (auto simp: witness_inv_def nested_program_def vm f position_def)
  qed (use ne parse in \<open>auto simp: f\<close>)
qed



section \<open>The results\<close>

text \<open>A curve and hash functions for the examples: keys and signatures are byte strings, and everything verifies.\<close>

definition toy_crypto :: "(bytes, bytes, bytes) crypto" where
  "toy_crypto = \<lparr>c_sha256 = to_hash, c_sha1 = take 20, c_ripemd160 = take 20,
     c_ParsePubKey = (\<lambda>k. if length k = 32 then None else Some k), c_ParseDERSignature = Some,
     c_ParseSignature = Some, c_Verify = (\<lambda>_ _ _. True), c_halfOrder = 0,
     c_schnorr_ParsePubKey = (\<lambda>k. if length k = 32 then Some k else None), c_schnorr_SerializePubKey = to_hash,
     c_schnorr_ParseSignature = Some, c_schnorr_Verify = (\<lambda>_ _ _. True), c_SerializeCompressed = Cons 2, c_tweak = (\<lambda>k _. k),
     c_evict = id\<rparr>"

definition toy_tx :: msg_tx where
  "toy_tx = \<lparr>tx_Version = 2,
     tx_TxIn = [\<lparr>in_PreviousOutPoint = \<lparr>op_Hash = zero_hash, op_Index = 0\<rparr>, in_SignatureScript = [], in_Witness = [], in_Sequence = 0\<rparr>],
     tx_TxOut = [], tx_LockTime = 0\<rparr>"

lemma length_to_hash [simp]: "length (to_hash b) = 32"
  by (simp add: to_hash_def min_def)

lemma toy_crypto_ok: "crypto_ok toy_crypto"
  by (simp add: crypto_ok_def toy_crypto_def)

lemma toy_engine:
  obtains vm where "NewEngine [OP_1] toy_tx 0 0 sigCache None 0 fetch = Ret vm"
proof -
  have "parse_op [OP_1] = Some (OP_1, None, 1)" by (simp add: parse_op_def)
  then have "snd (tokens [OP_1])" "snd (tokens [])" by (simp_all add: tokens.simps [of "[OP_1]"] tokens.simps [of "[]"])
  then show thesis
    using that by (simp add: NewEngine_def toy_tx_def checkScriptParses_iff [THEN iffD2] Let_def hasFlag_def initial_engine_def
        ScriptBip16_def ScriptVerifyCleanStack_def ScriptVerifySigPushOnly_def ScriptVerifyWitness_def isScriptHashScript_def extractScriptHash_def
        MaxScriptSize_def)
qed

text \<open>
  C3: the engine is type safe. A step from a well-formed engine finds the next opcode and does not panic, whatever the opcode is, and if it
  is not the last one the engine is well-formed again. In particular the tokenizer stays at an opcode boundary of a script
  that parses, no index leaves its range, and the limits on operations, on the stacks and on the number of scripts hold.
\<close>

theorem Step_type_safe:
  assumes "engine_wf vm" and "crypto_ok C"
  shows "checkValidPC vm = None \<and> fst (tokenizer_Next (vm_tokenizer vm)) \<and> Step C vm \<noteq> Panic
    \<and> (\<forall>vm'. Step C vm = Ret (False, vm') \<longrightarrow> engine_wf vm')"
  using Step_safe [OF assms] Step_wf [OF assms(1), of C] by blast

theorem Step_type_safe_witness:
  "\<exists>vm. NewEngine [OP_1] toy_tx 0 0 None None 0 (\<lambda>_. Some \<lparr>out_Value = 0, out_PkScript = []\<rparr>) = Ret vm
     \<and> engine_wf vm \<and> Step toy_crypto vm \<noteq> Panic"
proof -
  obtain vm where N: "NewEngine [OP_1] toy_tx 0 0 None None 0 (\<lambda>_. Some \<lparr>out_Value = 0, out_PkScript = []\<rparr>) = Ret vm" by (rule toy_engine)
  have wf: "engine_wf vm" by (rule NewEngine_wf [OF N]) (simp_all add: ScriptVerifyTaproot_def)
  show ?thesis using N wf Step_type_safe [OF wf toy_crypto_ok] by blast
qed



end
