(* ===== verification/Sig_Cache.thy ===== *)
theory Sig_Cache
  imports Engine_Safety
begin

text \<open>
  The signature cache does not change what the engine accepts. An engine with a cache whose entries are valid signatures runs
  like the engine without a cache: every opcode gives the same result, and leaves a cache whose entries are valid signatures. The
  statement is lifted from the verifiers over the opcodes and the steps to whole runs; the rules are collected in
  \<open>cache_rules\<close>. The model has no engine, and so no cache, with an error; the code's cache outlives it, but only
  \<open>cached_verify\<close> changes it, and that keeps its entries valid in every case.
\<close>

named_theorems cache_rules

section \<open>Valid entries\<close>

definition ecdsa_valid :: "('k, 's, 't) crypto \<Rightarrow> bytes \<Rightarrow> bytes \<Rightarrow> bytes \<Rightarrow> bool" where
  "ecdsa_valid C h s pk \<longleftrightarrow>
    (case (c_ParsePubKey C pk, c_ParseSignature C s) of (Some key, Some sig) \<Rightarrow> c_Verify C sig h key | _ \<Rightarrow> False)"

definition schnorr_valid :: "('k, 's, 't) crypto \<Rightarrow> bytes \<Rightarrow> bytes \<Rightarrow> bytes \<Rightarrow> bool" where
  "schnorr_valid C h s pk \<longleftrightarrow>
    (case (c_schnorr_ParsePubKey C pk, c_schnorr_ParseSignature C (take 64 s)) of (Some key, Some sig) \<Rightarrow> c_schnorr_Verify C sig h key | _ \<Rightarrow> False)"

definition cache_valid :: "('k, 's, 't) crypto \<Rightarrow> engine \<Rightarrow> bool" where
  "cache_valid C vm \<longleftrightarrow> (case vm_sigCache vm of None \<Rightarrow> True
    | Some c \<Rightarrow> \<forall>(h, s, pk)\<in>set (sc_validSigs c). ecdsa_valid C h s pk \<or> schnorr_valid C h s pk)"

text \<open>
  What is relied on of the libraries: the strict parser of signatures agrees with the lax one where it accepts, the two kinds of public
  keys differ in length, and SHA-256 has 32 bytes.
\<close>

definition formats_ok :: "('k, 's, 't) crypto \<Rightarrow> bool" where
  "formats_ok C \<longleftrightarrow>
    (\<forall>s g. c_ParseDERSignature C s = Some g \<longrightarrow> c_ParseSignature C s = Some g)
    \<and> (\<forall>k. c_ParsePubKey C k \<noteq> None \<longrightarrow> length k \<noteq> 32) \<and> (\<forall>k. c_schnorr_ParsePubKey C k \<noteq> None \<longrightarrow> length k = 32)
    \<and> (\<forall>b. length (c_sha256 C b) = 32)"

definition erase :: "engine \<Rightarrow> engine" where
  "erase vm = vm\<lparr>vm_sigCache := None\<rparr>"

lemma erase_simps [simp]:
  "vm_flags (erase vm) = vm_flags vm" "vm_tx (erase vm) = vm_tx vm" "vm_txIdx (erase vm) = vm_txIdx vm"
  "vm_version (erase vm) = vm_version vm" "vm_bip16 (erase vm) = vm_bip16 vm" "vm_sigCache (erase vm) = None"
  "vm_hashCache (erase vm) = vm_hashCache vm" "vm_prevOutFetcher (erase vm) = vm_prevOutFetcher vm" "vm_scripts (erase vm) = vm_scripts vm"
  "vm_scriptIdx (erase vm) = vm_scriptIdx vm" "vm_opcodeIdx (erase vm) = vm_opcodeIdx vm" "vm_lastCodeSep (erase vm) = vm_lastCodeSep vm"
  "vm_tokenizer (erase vm) = vm_tokenizer vm" "vm_savedFirstStack (erase vm) = vm_savedFirstStack vm" "vm_dstack (erase vm) = vm_dstack vm"
  "vm_astack (erase vm) = vm_astack vm" "vm_condStack (erase vm) = vm_condStack vm" "vm_numOps (erase vm) = vm_numOps vm"
  "vm_witnessVersion (erase vm) = vm_witnessVersion vm" "vm_witnessProgram (erase vm) = vm_witnessProgram vm"
  "vm_inputAmount (erase vm) = vm_inputAmount vm" "vm_taprootCtx (erase vm) = vm_taprootCtx vm"
  "hasFlag (erase vm) f = hasFlag vm f" "isWitnessVersionActive (erase vm) v = isWitnessVersionActive vm v"
  "isBranchExecuting (erase vm) = isBranchExecuting vm" "subScript (erase vm) = subScript vm"
  by (simp_all add: erase_def hasFlag_def isWitnessVersionActive_def isBranchExecuting_def subScript_def cong: if_cong)

lemma erase_update [simp]:
  "(erase vm)\<lparr>vm_dstack := d\<rparr> = erase (vm\<lparr>vm_dstack := d\<rparr>)" "(erase vm)\<lparr>vm_astack := d\<rparr> = erase (vm\<lparr>vm_astack := d\<rparr>)"
  "(erase vm)\<lparr>vm_condStack := cs\<rparr> = erase (vm\<lparr>vm_condStack := cs\<rparr>)" "(erase vm)\<lparr>vm_taprootCtx := t\<rparr> = erase (vm\<lparr>vm_taprootCtx := t\<rparr>)"
  "(erase vm)\<lparr>vm_numOps := n\<rparr> = erase (vm\<lparr>vm_numOps := n\<rparr>)" "(erase vm)\<lparr>vm_lastCodeSep := i\<rparr> = erase (vm\<lparr>vm_lastCodeSep := i\<rparr>)"
  "(erase vm)\<lparr>vm_tokenizer := tk\<rparr> = erase (vm\<lparr>vm_tokenizer := tk\<rparr>)" "(erase vm)\<lparr>vm_scriptIdx := i\<rparr> = erase (vm\<lparr>vm_scriptIdx := i\<rparr>)"
  "(erase vm)\<lparr>vm_opcodeIdx := i\<rparr> = erase (vm\<lparr>vm_opcodeIdx := i\<rparr>)" "(erase vm)\<lparr>vm_savedFirstStack := st\<rparr> = erase (vm\<lparr>vm_savedFirstStack := st\<rparr>)"
  "(erase vm)\<lparr>vm_scripts := ss\<rparr> = erase (vm\<lparr>vm_scripts := ss\<rparr>)" "(erase vm)\<lparr>vm_bip16 := b\<rparr> = erase (vm\<lparr>vm_bip16 := b\<rparr>)"
  by (simp_all add: erase_def)

lemma cache_valid_update [simp]:
  "cache_valid C (vm\<lparr>vm_dstack := d\<rparr>) = cache_valid C vm" "cache_valid C (vm\<lparr>vm_astack := d\<rparr>) = cache_valid C vm"
  "cache_valid C (vm\<lparr>vm_condStack := cs\<rparr>) = cache_valid C vm" "cache_valid C (vm\<lparr>vm_taprootCtx := t\<rparr>) = cache_valid C vm"
  "cache_valid C (vm\<lparr>vm_numOps := n\<rparr>) = cache_valid C vm" "cache_valid C (vm\<lparr>vm_lastCodeSep := i\<rparr>) = cache_valid C vm"
  "cache_valid C (vm\<lparr>vm_tokenizer := tk\<rparr>) = cache_valid C vm" "cache_valid C (vm\<lparr>vm_scriptIdx := i\<rparr>) = cache_valid C vm"
  "cache_valid C (vm\<lparr>vm_opcodeIdx := i\<rparr>) = cache_valid C vm" "cache_valid C (vm\<lparr>vm_savedFirstStack := st\<rparr>) = cache_valid C vm"
  "cache_valid C (vm\<lparr>vm_scripts := ss\<rparr>) = cache_valid C vm"
  by (simp_all add: cache_valid_def)

section \<open>Operations that do not see the cache\<close>

text \<open>The outcome without a cache is the outcome with one, with the cache erased; and the cache stays valid.\<close>

definition same_outcome :: "('k, 's, 't) crypto \<Rightarrow> (engine_error, 'a \<times> engine) outcome \<Rightarrow> (engine_error, 'a \<times> engine) outcome \<Rightarrow> bool" where
  "same_outcome C r r' \<longleftrightarrow> (case r of Panic \<Rightarrow> r' = Panic | Fail e \<Rightarrow> r' = Fail e | Ret (x, vm) \<Rightarrow> r' = Ret (x, erase vm) \<and> cache_valid C vm)"

lemma same_outcome_simps [simp]:
  "same_outcome C Panic r' \<longleftrightarrow> r' = Panic" "same_outcome C (Fail e) r' \<longleftrightarrow> r' = Fail e"
  "same_outcome C (Ret (x, vm)) r' \<longleftrightarrow> r' = Ret (x, erase vm) \<and> cache_valid C vm"
  by (auto simp: same_outcome_def)

definition transparent :: "('k, 's, 't) crypto \<Rightarrow> 'a vm_op \<Rightarrow> bool" where
  "transparent C m \<longleftrightarrow> (\<forall>vm. cache_valid C vm \<longrightarrow> same_outcome C (m vm) (m (erase vm)))"

lemma transparentI: "(\<And>vm. cache_valid C vm \<Longrightarrow> same_outcome C (m vm) (m (erase vm))) \<Longrightarrow> transparent C m"
  by (simp add: transparent_def)

lemma transparentD: "transparent C m \<Longrightarrow> cache_valid C vm \<Longrightarrow> same_outcome C (m vm) (m (erase vm))"
  by (simp add: transparent_def)

lemma same_obind: "(\<And>x. r = Ret x \<Longrightarrow> same_outcome C (f x) (g x)) \<Longrightarrow> same_outcome C (obind r f) (obind r g)"
  by (cases r) simp_all

lemma same_if: "(c \<Longrightarrow> same_outcome C m m') \<Longrightarrow> (\<not> c \<Longrightarrow> same_outcome C n n') \<Longrightarrow> same_outcome C (if c then m else n) (if c then m' else n')"
  by simp

lemma same_sbind:
  assumes "same_outcome C (m vm) (m' vm')" "\<And>x vm1. m vm = Ret (x, vm1) \<Longrightarrow> cache_valid C vm1 \<Longrightarrow> same_outcome C (f x vm1) (f' x (erase vm1))"
  shows "same_outcome C (sbind m f vm) (sbind m' f' vm')"
  using assms unfolding sbind_def by (cases "m vm") auto

lemma transparent_sret [cache_rules]: "transparent C (sret x)"
  by (simp add: transparent_def sret_def)

lemma transparent_sfail [cache_rules]: "transparent C (sfail e)"
  by (simp add: transparent_def sfail_def)

lemma transparent_sbind [cache_rules]: "transparent C m \<Longrightarrow> (\<And>x. transparent C (f x)) \<Longrightarrow> transparent C (sbind m f)"
  by (rule transparentI, rule same_sbind) (auto dest: transparentD)

lemma transparent_if [cache_rules]:
  "(c \<Longrightarrow> transparent C m) \<Longrightarrow> (\<not> c \<Longrightarrow> transparent C n) \<Longrightarrow> transparent C (if c then m else n)"
  by simp

lemma transparent_dstack [cache_rules]: "transparent C (on_dstack m)"
  by (rule transparentI) (auto simp: on_dstack_def intro!: same_obind)

lemma transparent_astack [cache_rules]: "transparent C (on_astack m)"
  by (rule transparentI) (auto simp: on_astack_def intro!: same_obind)

section \<open>Handlers\<close>

lemma transparent_pushes [cache_rules]:
  "transparent C opcodeDisabled" "transparent C opcodeReserved" "transparent C opcodeInvalid" "transparent C opcodeFalse"
  "transparent C (opcodePushData d)" "transparent C opcode1Negate" "transparent C (opcodeN n)" "transparent C opcodeReturn"
  unfolding opcodeDisabled_def opcodeReserved_def opcodeInvalid_def opcodeFalse_def opcodePushData_def opcode1Negate_def opcodeN_def
    opcodeReturn_def by (rule cache_rules)+

lemma transparent_abstractVerify [cache_rules]: "transparent C (abstractVerify e)" "transparent C opcodeVerify"
  unfolding abstractVerify_def opcodeVerify_def by (intro cache_rules)+

lemma transparent_stack [cache_rules]:
  "transparent C opcodeToAltStack" "transparent C opcodeFromAltStack" "transparent C opcode2Drop" "transparent C opcode2Dup" "transparent C opcode3Dup"
  "transparent C opcode2Over" "transparent C opcode2Rot" "transparent C opcode2Swap" "transparent C opcodeIfDup" "transparent C opcodeDrop"
  "transparent C opcodeDup" "transparent C opcodeNip" "transparent C opcodeOver" "transparent C opcodePick" "transparent C opcodeRoll"
  "transparent C opcodeRot" "transparent C opcodeSwap" "transparent C opcodeTuck" "transparent C opcodeSize" "transparent C opcodeEqual"
  "transparent C opcodeEqualVerify"
  unfolding opcodeToAltStack_def opcodeFromAltStack_def opcode2Drop_def opcode2Dup_def opcode3Dup_def opcode2Over_def opcode2Rot_def
    opcode2Swap_def opcodeIfDup_def opcodeDrop_def opcodeDup_def opcodeNip_def opcodeOver_def opcodePick_def opcodeRoll_def opcodeRot_def
    opcodeSwap_def opcodeTuck_def opcodeSize_def opcodeEqual_def opcodeEqualVerify_def by (intro cache_rules)+

lemma transparent_num [cache_rules]: "transparent C (num1 f)" "transparent C (num2 g)" "transparent C (hash_op h)"
  unfolding num1_def num2_def hash_op_def by (intro cache_rules)+

lemma transparent_arithmetic [cache_rules]:
  "transparent C opcode1Add" "transparent C opcode1Sub" "transparent C opcodeNegate" "transparent C opcodeAbs" "transparent C opcodeNot"
  "transparent C opcode0NotEqual" "transparent C opcodeAdd" "transparent C opcodeSub" "transparent C opcodeBoolAnd" "transparent C opcodeBoolOr"
  "transparent C opcodeNumEqual" "transparent C opcodeNumNotEqual" "transparent C opcodeLessThan" "transparent C opcodeGreaterThan"
  "transparent C opcodeLessThanOrEqual" "transparent C opcodeGreaterThanOrEqual" "transparent C opcodeMin" "transparent C opcodeMax"
  unfolding opcode1Add_def opcode1Sub_def opcodeNegate_def opcodeAbs_def opcodeNot_def opcode0NotEqual_def opcodeAdd_def opcodeSub_def
    opcodeBoolAnd_def opcodeBoolOr_def opcodeNumEqual_def opcodeNumNotEqual_def opcodeLessThan_def opcodeGreaterThan_def
    opcodeLessThanOrEqual_def opcodeGreaterThanOrEqual_def opcodeMin_def opcodeMax_def by (rule transparent_num)+

lemma transparent_more [cache_rules]:
  "transparent C opcodeNumEqualVerify" "transparent C opcodeWithin" "transparent C (opcodeRipemd160 D)" "transparent C (opcodeSha1 D)"
  "transparent C (opcodeSha256 D)" "transparent C (opcodeHash160 D)" "transparent C (opcodeHash256 D)"
  unfolding opcodeNumEqualVerify_def opcodeWithin_def opcodeRipemd160_def opcodeSha1_def opcodeSha256_def opcodeHash160_def opcodeHash256_def
  by (intro cache_rules)+

text \<open>Handlers that look at the engine.\<close>

lemma transparent_get: "(\<And>x. transparent C (f x)) \<Longrightarrow> (\<And>vm. g (erase vm) = g vm) \<Longrightarrow> transparent C (\<lambda>vm. f (g vm) vm)"
  unfolding transparent_def by simp

lemma transparent_if_state [cache_rules]:
  "(\<And>vm. c (erase vm) = c vm) \<Longrightarrow> transparent C m \<Longrightarrow> transparent C n \<Longrightarrow> transparent C (\<lambda>vm. if c vm then m vm else n vm)"
  unfolding transparent_def by simp

lemma transparent_pushCond [cache_rules]: "transparent C (pushCond c)"
  by (rule transparentI) (simp add: pushCond_def)

lemma transparent_popIfBool [cache_rules]: "transparent C popIfBool"
  unfolding popIfBool_def by (rule cache_rules; (rule cache_rules | simp)+)

lemma transparent_flow [cache_rules]:
  "transparent C (opcodeNop n)" "transparent C opcodeIf" "transparent C opcodeNotIf" "transparent C opcodeElse" "transparent C opcodeEndif"
  "transparent C opcodeDepth" "transparent C opcodeCodeSeparator"
proof -
  show "transparent C opcodeIf" "transparent C opcodeNotIf"
    unfolding opcodeIf_def opcodeNotIf_def by (rule cache_rules; (rule cache_rules | simp)+)+
  show "transparent C opcodeDepth" unfolding opcodeDepth_def by (rule transparent_get [where f = "\<lambda>n. on_dstack (PushInt n)"]) (simp_all add: cache_rules)
  show "transparent C (opcodeNop n)" "transparent C opcodeElse" "transparent C opcodeEndif" "transparent C opcodeCodeSeparator"
    by (rule transparentI; simp add: opcodeNop_def opcodeElse_def opcodeEndif_def opcodeCodeSeparator_def split: list.split)+
qed

lemma transparent_lockTimes [cache_rules]: "transparent C opcodeCheckLockTimeVerify" "transparent C opcodeCheckSequenceVerify"
proof -
  have peek: "transparent C peek_locktime"
    unfolding peek_locktime_def by (rule cache_rules, rule cache_rules) (auto intro!: transparentI split: sum.split)
  have txIn: "transparent C (lift_outcome (\<lambda>vm. go_nth (tx_TxIn (vm_tx vm)) (vm_txIdx vm)))"
    by (rule transparentI) (auto simp: lift_outcome_def intro!: same_obind)
  have lock: "transparent C (verifyLockTime x y z)" for x y z unfolding verifyLockTime_def by (intro cache_rules)
  note rules = transparentD [OF transparent_sbind] peek txIn lock cache_rules
  show "transparent C opcodeCheckLockTimeVerify" "transparent C opcodeCheckSequenceVerify"
    by (rule transparentI; auto simp: opcodeCheckLockTimeVerify_def opcodeCheckSequenceVerify_def Let_def intro!: rules cong: if_cong)+
qed

section \<open>Verifying\<close>

lemma Add_sig_set: "set (sc_validSigs (Add_sig ev h s pk c)) \<subseteq> insert (h, s, pk) (set (sc_validSigs c))"
  by (auto simp: Add_sig_def Let_def dest: in_set_takeD in_set_dropD split: if_splits)

text \<open>A lookup that agrees with verifying is invisible.\<close>

lemma cached_verify_same:
  assumes "cache_valid C vm" and valid: "valid \<longleftrightarrow> ecdsa_valid C h s pk \<or> schnorr_valid C h s pk"
  obtains vm' where "cached_verify C h s pk valid vm = (valid, vm')" "erase vm' = erase vm" "cache_valid C vm'"
    "cached_verify C h s pk valid (erase vm) = (valid, erase vm)"
proof (cases "vm_sigCache vm")
  case None
  then show ?thesis using that [of vm] assms(1) by (simp add: cached_verify_def)
next
  case (Some c)
  have e: "cached_verify C h s pk valid (erase vm) = (valid, erase vm)" by (simp add: cached_verify_def)
  have v: "\<forall>(h, s, pk)\<in>set (sc_validSigs c). ecdsa_valid C h s pk \<or> schnorr_valid C h s pk" using assms(1) Some by (simp add: cache_valid_def)
  have x: "valid" if "Exists c h s pk" using that v valid by (auto simp: Exists_def split: option.splits dest!: map_of_SomeD)
  show ?thesis
  proof (cases "Exists c h s pk \<or> \<not> valid")
    case True
    then have "cached_verify C h s pk valid vm = (valid, vm)" using x Some by (auto simp: cached_verify_def)
    then show ?thesis using that [of vm] e assms(1) by blast
  next
    case False
    define vm' where "vm' = vm\<lparr>vm_sigCache := Some (Add_sig (c_evict C) h s pk c)\<rparr>"
    have "cached_verify C h s pk valid vm = (valid, vm')" using False Some by (simp add: cached_verify_def vm'_def)
    moreover have "cache_valid C vm'"
      using v valid False Add_sig_set [of "c_evict C" h s pk c] by (auto simp: cache_valid_def vm'_def)
    moreover have "erase vm' = erase vm" by (simp add: erase_def vm'_def)
    ultimately show ?thesis using that [of vm'] e by blast
  qed
qed

lemma ecdsa_iff:
  assumes "formats_ok C" "c_ParsePubKey C pk = Some key" "c_ParseSignature C s = Some sig"
  shows "c_Verify C sig h key \<longleftrightarrow> ecdsa_valid C h s pk \<or> schnorr_valid C h s pk"
  using assms by (auto simp: formats_ok_def ecdsa_valid_def schnorr_valid_def split: option.splits)

lemma schnorr_iff:
  assumes "formats_ok C" "c_schnorr_ParsePubKey C pk = Some key" "c_schnorr_ParseSignature C (take 64 s) = Some sig"
  shows "c_schnorr_Verify C sig h key \<longleftrightarrow> ecdsa_valid C h s pk \<or> schnorr_valid C h s pk"
  using assms by (auto simp: formats_ok_def ecdsa_valid_def schnorr_valid_def split: option.splits)

definition verifier_ok :: "('k, 's, 't) crypto \<Rightarrow> ('k, 's) baseSigVerifier \<Rightarrow> bool" where
  "verifier_ok C v \<longleftrightarrow> c_ParsePubKey C (bv_pkBytes v) = Some (bv_pubKey v) \<and> c_ParseSignature C (bv_sigBytes v) = Some (bv_sig v)"

lemma newBaseSigVerifier_ok:
  "formats_ok C \<Longrightarrow> newBaseSigVerifier C pk s vm = Ret v \<Longrightarrow> verifier_ok C v"
  by (auto simp: newBaseSigVerifier_def parseBaseSigAndPubkey_def Let_def obind_Ret_iff parsed_def verifier_ok_def formats_ok_def
      split: option.splits if_splits)

lemma to_hash_id [simp]: "length h = 32 \<Longrightarrow> to_hash h = h"
  by (simp add: to_hash_def)

lemma hash_lengths:
  assumes "formats_ok C"
  shows "length (DoubleHash (c_sha256 C) b) = 32"
    and "calcSignatureHash (c_sha256 C) script t tx i = Ret h \<Longrightarrow> length h = 32"
    and "calcWitnessSignatureHashRaw (c_sha256 C) script sh t tx i amt = Inr h \<Longrightarrow> length h = 32"
  using assms by (auto simp: formats_ok_def DoubleHash_def calcSignatureHash_def calcWitnessSignatureHashRaw_def Let_def split: if_splits)

lemma verifySig_same:
  assumes "formats_ok C" "verifier_ok C v" "length h = 32" "cache_valid C vm"
  obtains r vm' where "verifySig C v h vm = (r, vm')" "verifySig C v h (erase vm) = (r, erase vm')" "cache_valid C vm'"
proof -
  have "c_Verify C (bv_sig v) h (bv_pubKey v) \<longleftrightarrow> ecdsa_valid C h (bv_sigBytes v) (bv_pkBytes v) \<or> schnorr_valid C h (bv_sigBytes v) (bv_pkBytes v)"
    using assms(2) by (intro ecdsa_iff [OF assms(1)]) (simp_all add: verifier_ok_def)
  from cached_verify_same [OF assms(4) this] show thesis using that assms(3) unfolding verifySig_def by simp metis
qed

lemma transparent_base_Verify:
  assumes "formats_ok C" "verifier_ok C v"
  shows "transparent C (base_Verify C v)"
proof (rule transparentI)
  fix vm assume c: "cache_valid C vm"
  obtain sub match where r: "removeOpcodeByData (bv_subScript v) (bv_fullSigBytes v) = (sub, match)" by force
  show "same_outcome C (base_Verify C v vm) (base_Verify C v (erase vm))"
    unfolding base_Verify_def r erase_simps prod.case
  proof (rule same_obind)
    fix h assume "calcSignatureHash (c_sha256 C) sub (bv_hashType v) (vm_tx vm) (vm_txIdx vm) = (Ret h :: (engine_error, bytes) outcome)"
    then have l: "length h = 32" by (rule hash_lengths(2) [OF assms(1)])
    show "same_outcome C (case verifySig C v h vm of (valid, vm) \<Rightarrow> Ret ((valid, match), vm))
        (case verifySig C v h (erase vm) of (valid, vm) \<Rightarrow> Ret ((valid, match), vm))"
      by (rule verifySig_same [OF assms l c]) simp
  qed
qed

lemma sig_hashes_erase [simp]: "sig_hashes C (erase vm) = sig_hashes C vm"
  by (simp add: sig_hashes_def cong: option.case_cong)

lemma transparent_segwit_Verify:
  assumes "formats_ok C" "verifier_ok C v"
  shows "transparent C (segwit_Verify C v)"
proof (rule transparentI)
  fix vm assume c: "cache_valid C vm"
  show "same_outcome C (segwit_Verify C v vm) (segwit_Verify C v (erase vm))"
    unfolding segwit_Verify_def sig_hashes_erase erase_simps
  proof (rule same_obind)
    fix sh
    let ?h = "calcWitnessSignatureHashRaw (c_sha256 C) (bv_subScript v) sh (bv_hashType v) (vm_tx vm) (vm_txIdx vm) (vm_inputAmount vm)"
    show "same_outcome C
        (case ?h of Inl _ \<Rightarrow> Ret ((False, False), vm) | Inr h \<Rightarrow> (case verifySig C v h vm of (valid, vm) \<Rightarrow> Ret ((valid, False), vm)))
        (case ?h of Inl _ \<Rightarrow> Ret ((False, False), erase vm) | Inr h \<Rightarrow> (case verifySig C v h (erase vm) of (valid, vm) \<Rightarrow> Ret ((valid, False), vm)))"
    proof (cases ?h)
      case (Inr h)
      show ?thesis unfolding Inr sum.case by (rule verifySig_same [OF assms hash_lengths(3) [OF assms(1) Inr] c]) simp
    qed (simp add: c)
  qed
qed

definition taproot_verifier_ok :: "('k, 's, 't) crypto \<Rightarrow> ('k, 't) taprootSigVerifier \<Rightarrow> bool" where
  "taproot_verifier_ok C t \<longleftrightarrow> c_schnorr_ParsePubKey C (tv_pkBytes t) = Some (tv_pubKey t)
    \<and> c_schnorr_ParseSignature C (take 64 (tv_fullSigBytes t)) = Some (tv_sig t)"

lemma newTaprootSigVerifier_ok: "newTaprootSigVerifier C pk s annex = Ret t \<Longrightarrow> taproot_verifier_ok C t"
  by (auto simp: newTaprootSigVerifier_def parseTaprootSigAndPubKey_def obind_Ret_iff parsed_def taproot_verifier_ok_def
      split: option.splits if_splits)

lemma transparent_taproot_check:
  assumes "formats_ok C" "taproot_verifier_ok C t"
  shows "transparent C (taproot_check C t opts)"
proof (rule transparentI)
  fix vm assume c: "cache_valid C vm"
  let ?h = "calcTaprootSignatureHashRaw (c_sha256 C) (vm_hashCache vm) (tv_hashType t) (vm_tx vm) (vm_txIdx vm) (vm_prevOutFetcher vm) opts"
  show "same_outcome C (taproot_check C t opts vm) (taproot_check C t opts (erase vm))"
  proof (cases ?h)
    case (Ret h)
    have "c_schnorr_Verify C (tv_sig t) h (tv_pubKey t) \<longleftrightarrow> ecdsa_valid C h (tv_fullSigBytes t) (tv_pkBytes t) \<or> schnorr_valid C h (tv_fullSigBytes t) (tv_pkBytes t)"
      using assms(2) by (intro schnorr_iff [OF assms(1)]) (simp_all add: taproot_verifier_ok_def)
    then obtain vm' where v: "taproot_verifySig C t h vm = (c_schnorr_Verify C (tv_sig t) h (tv_pubKey t), vm')" "erase vm' = erase vm" "cache_valid C vm'"
      "taproot_verifySig C t h (erase vm) = (c_schnorr_Verify C (tv_sig t) h (tv_pubKey t), erase vm)"
      unfolding taproot_verifySig_def by (rule cached_verify_same [OF c])
    show ?thesis unfolding taproot_check_def erase_simps Ret outcome.case v(1,4) prod.case by (simp add: v(2,3))
  qed (simp_all add: taproot_check_def c)
qed

lemma transparent_tapscript_Verify:
  assumes "formats_ok C" "\<And>t. v = Some t \<Longrightarrow> taproot_verifier_ok C t"
  shows "transparent C (tapscript_Verify C v ctx)"
proof (cases v)
  case None
  then show ?thesis by (intro transparentI) (simp add: tapscript_Verify_def)
next
  case (Some t)
  show ?thesis
    unfolding Some tapscript_Verify_def option.case using transparent_taproot_check [OF assms(1) assms(2) [OF Some]] by simp
qed

lemma checks_erase [simp]:
  "checkPubKeyEncoding pk (erase vm) = checkPubKeyEncoding pk vm" "checkHashTypeEncoding t (erase vm) = checkHashTypeEncoding t vm"
  "checkSignatureEncoding C s (erase vm) = checkSignatureEncoding C s vm"
  "newBaseTapscriptSigVerifier C pk s ctx (erase vm) = newBaseTapscriptSigVerifier C pk s ctx vm"
  unfolding checkPubKeyEncoding_def checkHashTypeEncoding_def checkSignatureEncoding_def newBaseTapscriptSigVerifier_def erase_simps by (rule refl)+

lemma newBaseSigVerifier_erase [simp]: "newBaseSigVerifier C pk s (erase vm) = newBaseSigVerifier C pk s vm"
  unfolding newBaseSigVerifier_def parseBaseSigAndPubkey_def erase_simps checks_erase by (rule refl)

lemma newBaseTapscriptSigVerifier_ok: "newBaseTapscriptSigVerifier C pk s ctx vm = Ret (Some t) \<Longrightarrow> taproot_verifier_ok C t"
  by (auto simp: newBaseTapscriptSigVerifier_def obind_Ret_iff dest: newTaprootSigVerifier_ok split: if_splits)

lemma transparent_check_result [cache_rules]: "transparent C (check_result s r)"
  by (rule transparentI) (auto simp: check_result_def intro!: transparentD [OF transparent_dstack] split: prod.split)

lemma same_or_false:
  assumes "\<And>x. m = Ret x \<Longrightarrow> transparent C (f x)" "cache_valid C vm"
  shows "same_outcome C (or_false m f vm) (or_false m f (erase vm))"
  using assms transparentD [OF transparent_dstack, of C vm "PushBool False"] transparentD
  by (auto simp: or_false_def split: outcome.split)

lemma same_tapscript:
  assumes "formats_ok C" "\<And>x. transparent C (f x)" "cache_valid C vm"
  shows "same_outcome C (obind (newBaseTapscriptSigVerifier C pk s ctx vm1) (\<lambda>v. sbind (tapscript_Verify C v ctx) f vm))
    (obind (newBaseTapscriptSigVerifier C pk s ctx vm1) (\<lambda>v. sbind (tapscript_Verify C v ctx) f (erase vm)))"
  using assms by (intro same_obind transparentD [OF transparent_sbind] transparent_tapscript_Verify)
    (auto dest: newBaseTapscriptSigVerifier_ok)

lemma transparent_check_sig:
  assumes F: "formats_ok C"
  shows "transparent C (check_sig C pk s)"
proof (rule transparentI)
  fix vm assume c: "cache_valid C vm"
  have base: "same_outcome C (or_false (newBaseSigVerifier C pk s vm) (\<lambda>v. sbind (base_Verify C v) (check_result s)) vm)
      (or_false (newBaseSigVerifier C pk s vm) (\<lambda>v. sbind (base_Verify C v) (check_result s)) (erase vm))"
    "same_outcome C (or_false (newBaseSigVerifier C pk s vm) (\<lambda>v. sbind (segwit_Verify C v) (check_result s)) vm)
      (or_false (newBaseSigVerifier C pk s vm) (\<lambda>v. sbind (segwit_Verify C v) (check_result s)) (erase vm))"
    using c by (auto intro!: same_or_false cache_rules transparent_base_Verify transparent_segwit_Verify F dest: newBaseSigVerifier_ok [OF F])
  show "same_outcome C (check_sig C pk s vm) (check_sig C pk s (erase vm))"
    unfolding check_sig_def erase_simps newBaseSigVerifier_erase checks_erase Let_def erase_update
    using base c by (auto intro!: same_tapscript F cache_rules transparentD [OF transparent_dstack] split: option.split sum.split)
qed

lemma transparent_checkSig:
  assumes "formats_ok C"
  shows "transparent C (opcodeCheckSig C)" "transparent C (opcodeCheckSigVerify C)"
  unfolding opcodeCheckSigVerify_def opcodeCheckSig_def by (intro cache_rules transparent_check_sig assms)+

lemma transparent_checkSigAdd:
  assumes F: "formats_ok C"
  shows "transparent C (opcodeCheckSigAdd C)"
proof -
  have "transparent C (add_sig C pk n s)" for pk n s
  proof (rule transparentI)
    fix vm assume c: "cache_valid C vm"
    show "same_outcome C (add_sig C pk n s vm) (add_sig C pk n s (erase vm))"
      unfolding add_sig_def erase_simps checks_erase Let_def erase_update
      using c by (auto intro!: same_tapscript F cache_rules transparentD [OF transparent_dstack] split: option.split sum.split prod.split)
  qed
  then have "transparent C (sbind (on_dstack PopByteArray) (\<lambda>pk. sbind (on_dstack PopInt) (\<lambda>n. sbind (on_dstack PopByteArray) (add_sig C pk n))))"
    by (intro cache_rules)
  then show ?thesis
    unfolding opcodeCheckSigAdd_def by (intro transparent_if_state) (auto intro: transparentI)
qed

section \<open>Several signatures\<close>

lemma transparent_pop_n [cache_rules]: "transparent C (pop_n n)"
  by (induction n) (auto intro!: cache_rules)

lemma transparent_remove_sigs [cache_rules]: "transparent C (remove_sigs sigs script)"
proof (rule transparentI)
  fix vm assume "cache_valid C vm"
  then show "same_outcome C (remove_sigs sigs script vm) (remove_sigs sigs script (erase vm))"
    by (induction sigs script vm rule: remove_sigs.induct) (auto split: prod.split)
qed

lemma multisig_erase [simp]:
  "parse_sig C s st (erase vm) = parse_sig C s st vm" "multisig_hash C script t (erase vm) = multisig_hash C script t vm"
  unfolding parse_sig_def multisig_hash_def erase_simps checks_erase sig_hashes_erase by (rule refl)+

lemma parse_sig_ok:
  assumes "formats_ok C" "parse_sig C s st vm = Ret (Parsed sig)" "\<And>sig. st = Parsed sig \<Longrightarrow> c_ParseSignature C (butlast s) = Some sig"
  shows "c_ParseSignature C (butlast s) = Some sig"
proof (cases st)
  case Unparsed
  then show ?thesis
    using assms(1,2) by (auto simp: parse_sig_def obind_Ret_iff formats_ok_def split: option.splits if_splits)
qed (use assms(2,3) in \<open>simp_all add: parse_sig_def\<close>)

lemma multisig_hash_length: "formats_ok C \<Longrightarrow> multisig_hash C script t vm = Ret h \<Longrightarrow> length h = 32"
proof (cases "isWitnessVersionActive vm 0")
  assume F: "formats_ok C" and h: "multisig_hash C script t vm = Ret h" and "isWitnessVersionActive vm 0"
  then obtain sh where "(case calcWitnessSignatureHashRaw (c_sha256 C) script sh t (vm_tx vm) (vm_txIdx vm) (vm_inputAmount vm) of
      Inl e \<Rightarrow> Fail e | Inr h \<Rightarrow> Ret h) = (Ret h :: (engine_error, bytes) outcome)"
    by (auto simp: multisig_hash_def obind_Ret_iff)
  then show "length h = 32"
    by (cases "calcWitnessSignatureHashRaw (c_sha256 C) script sh t (vm_tx vm) (vm_txIdx vm) (vm_inputAmount vm)") (auto dest: hash_lengths(3) [OF F])
qed (auto simp: multisig_hash_def dest: hash_lengths(2))

lemma same_multisig_try:
  assumes F: "formats_ok C" and c: "cache_valid C vm" and st: "\<And>sig. st = Parsed sig \<Longrightarrow> c_ParseSignature C (butlast raw) = Some sig"
  shows "same_outcome C (multisig_try C script raw st key vm) (multisig_try C script raw st key (erase vm))"
    and "multisig_try C script raw st key vm = Ret ((valid, Parsed sig), vm') \<Longrightarrow> c_ParseSignature C (butlast raw) = Some sig"
proof -
  note parsed = parse_sig_ok [OF F _ st]
  have verify: "same_outcome C
      (case cached_verify C (to_hash h) (butlast raw) key (c_Verify C sig h k) vm of (valid, vm) \<Rightarrow> Ret ((valid, st'), vm))
      (case cached_verify C (to_hash h) (butlast raw) key (c_Verify C sig h k) (erase vm) of (valid, vm) \<Rightarrow> Ret ((valid, st'), vm))"
    if "c_ParsePubKey C key = Some k" "c_ParseSignature C (butlast raw) = Some sig" "length h = 32" for h k sig and st' :: "'b parsed_sig"
    by (rule cached_verify_same [OF c ecdsa_iff [OF F that(1,2)], of h]) (simp add: that(3))
  show "same_outcome C (multisig_try C script raw st key vm) (multisig_try C script raw st key (erase vm))"
    unfolding multisig_try_def multisig_erase checks_erase
    by (intro same_obind) (auto split: parsed_sig.split option.split simp: c intro!: same_obind verify multisig_hash_length [OF F] dest: parsed)
  show "c_ParseSignature C (butlast raw) = Some sig" if "multisig_try C script raw st key vm = Ret ((valid, Parsed sig), vm')"
  proof (cases "parse_sig C raw st vm")
    case (Ret st')
    then have "st' = Parsed sig"
      using that unfolding multisig_try_def
      by (cases st'; cases "c_ParsePubKey C key") (auto simp: obind_Ret_iff case_prod_beta)
    then show ?thesis using parsed Ret by blast
  qed (use that in \<open>simp_all add: multisig_try_def\<close>)
qed

lemma same_multisig_loop:
  assumes F: "formats_ok C"
  shows "cache_valid C vm \<Longrightarrow> (\<And>sig. st = Parsed sig \<Longrightarrow> sigs \<noteq> [] \<and> c_ParseSignature C (butlast (hd sigs)) = Some sig) \<Longrightarrow>
    same_outcome C (multisig_loop C script sigs st keys vm) (multisig_loop C script sigs st keys (erase vm))"
proof (induction keys arbitrary: sigs st vm)
  case (Cons key keys)
  show ?case
  proof (cases sigs)
    case (Cons raw sigs')
    have st: "st = Parsed sig \<Longrightarrow> c_ParseSignature C (butlast raw) = Some sig" for sig using Cons.prems(2) Cons by simp
    have attempt: "same_outcome C (multisig_try C script raw st key vm) (multisig_try C script raw st key (erase vm))"
      "multisig_try C script raw st key vm = Ret ((valid, Parsed sig), vm') \<Longrightarrow> c_ParseSignature C (butlast raw) = Some sig" for valid sig vm'
      using same_multisig_try [OF F Cons.prems(1)] st by blast+
    have "same_outcome C
        (sbind (multisig_try C script raw st key) (\<lambda>(valid, st). if valid then multisig_loop C script sigs' Unparsed keys else multisig_loop C script sigs st keys) vm)
        (sbind (multisig_try C script raw st key) (\<lambda>(valid, st). if valid then multisig_loop C script sigs' Unparsed keys else multisig_loop C script sigs st keys) (erase vm))"
      by (rule same_sbind, rule attempt(1)) (auto split: prod.split intro!: Cons.IH simp: Cons dest: attempt(2))
    then show ?thesis using Cons.prems Cons.IH [of vm st sigs] unfolding Cons by auto
  qed (simp add: Cons.prems)
qed simp

lemma transparent_checkMultiSig:
  assumes F: "formats_ok C"
  shows "transparent C (opcodeCheckMultiSig C)" "transparent C (opcodeCheckMultiSigVerify C)"
proof -
  have loop: "transparent C (multisig_loop C script sigs Unparsed keys)" for script sigs keys
    by (rule transparentI) (rule same_multisig_loop [OF F], assumption, simp)
  have sub: "transparent C (lift_outcome subScript)" by (rule transparentI) (auto simp: lift_outcome_def intro!: same_obind)
  have push: "transparent C (\<lambda>vm. if \<not> r \<and> hasFlag vm fl \<and> q then Fail e else on_dstack (PushBool r) vm)" for r fl q e
    by (rule transparentI) (auto intro!: transparentD [OF transparent_dstack])
  have verify: "transparent C (multisig_verify C keys sigs dummy)" for keys sigs dummy
    unfolding multisig_verify_def
    by (rule transparentI) (auto intro!: transparentD [OF transparent_sbind] cache_rules loop sub push)
  have sigs: "transparent C (multisig_sigs C n keys m)" for n keys m
    unfolding multisig_sigs_def by (intro cache_rules verify)
  have keys: "transparent C (multisig_keys C n)" for n
    unfolding multisig_keys_def Let_def
    by (rule transparentI) (auto intro!: transparentD [OF transparent_sbind] cache_rules sigs)
  show m: "transparent C (opcodeCheckMultiSig C)"
    unfolding opcodeCheckMultiSig_def by (rule transparentI) (auto intro!: transparentD [OF transparent_sbind] cache_rules keys)
  show "transparent C (opcodeCheckMultiSigVerify C)"
    unfolding opcodeCheckMultiSigVerify_def by (intro cache_rules m)
qed

section \<open>Opcodes and steps\<close>

lemma transparent_opfunc:
  assumes F: "formats_ok C"
  shows "transparent C (opfunc C op data)"
proof -
  have "list_all (\<lambda>(k, f). transparent C f) (opcode_table C)"
    unfolding opcode_table_def
    by (simp add: cache_rules transparent_checkSig [OF F] transparent_checkMultiSig [OF F] transparent_checkSigAdd [OF F])
  then have "transparent C f" if "map_of (opcode_table C) op = Some f" for f
    using map_of_SomeD [OF that] by (auto simp: list_all_iff)
  then have "transparent C (case map_of (opcode_table C) op of None \<Rightarrow> opcodeInvalid | Some f \<Rightarrow> f)"
    by (cases "map_of (opcode_table C) op") (simp_all add: cache_rules)
  then show ?thesis unfolding opfunc_def by (intro transparent_if) (simp_all only: transparent_pushes)
qed

lemma transparent_executeOpcode:
  assumes F: "formats_ok C"
  shows "transparent C (executeOpcode C op data)"
proof (rule transparentI)
  fix vm assume c: "cache_valid C vm"
  define counted where "counted = (vm_taprootCtx vm = None \<and> op > OP_16)"
  define vm1 where "vm1 = (if counted then vm\<lparr>vm_numOps := vm_numOps vm + 1\<rparr> else vm)"
  have c1: "cache_valid C vm1" using c by (simp add: vm1_def)
  have e: "(if counted then (erase vm)\<lparr>vm_numOps := vm_numOps vm + 1\<rparr> else erase vm) = erase vm1" by (simp add: vm1_def)
  show "same_outcome C (executeOpcode C op data vm) (executeOpcode C op data (erase vm))"
    unfolding executeOpcode_def Let_def erase_simps counted_def [symmetric] e vm1_def [symmetric]
    using transparentD [OF transparent_opfunc [OF F] c1] c1 by (intro same_if) simp_all
qed

section \<open>Ending a script\<close>

lemma obind_assoc: "obind (obind m f) g = obind m (\<lambda>x. obind (f x) g)"
  by (cases m) simp_all

lemma transparent_succeed [cache_rules]: "transparent C (succeed ctx)"
  by (rule transparentI) (simp add: succeed_def)

lemma transparent_must_parse [cache_rules]: "transparent C (must_parse script)"
  by (rule transparentI) (simp add: must_parse_def split: option.split)

lemma add_script_erase [simp]: "add_script script st (erase vm) = erase (add_script script st vm)"
  by (simp add: add_script_def SetStack_def)

lemma cache_valid_add_script [simp]: "cache_valid C (add_script script st vm) = cache_valid C vm"
  by (simp add: add_script_def SetStack_def)

lemma same_keySpend:
  assumes F: "formats_ok C" and c: "cache_valid C vm"
  shows "same_outcome C (obind (VerifyTaprootKeySpend C p s vm) (succeed ctx)) (obind (VerifyTaprootKeySpend C p s (erase vm)) (succeed ctx))"
  unfolding VerifyTaprootKeySpend_def obind_assoc erase_simps
proof (intro same_obind)
  fix txIn :: tx_in and t assume "newTaprootSigVerifier C p s (extractAnnex (in_Witness txIn)) = Ret t"
  then have "same_outcome C (taproot_Verify C t vm) (taproot_Verify C t (erase vm))"
    unfolding taproot_Verify_def by (intro transparentD [OF transparent_taproot_check [OF F] c] newTaprootSigVerifier_ok)
  then show "same_outcome C
      (obind (taproot_Verify C t vm) (\<lambda>x. obind ((\<lambda>((valid, _), vm). if valid then Ret vm else Fail ErrTaprootSigInvalid) x) (succeed ctx)))
      (obind (taproot_Verify C t (erase vm)) (\<lambda>x. obind ((\<lambda>((valid, _), vm). if valid then Ret vm else Fail ErrTaprootSigInvalid) x) (succeed ctx)))"
    by (cases "taproot_Verify C t vm") (auto simp: succeed_def)
qed

lemma transparent_verify_v0: "transparent C (verify_v0 C program witness)"
  by (rule transparentI)
    (auto simp: verify_v0_def Let_def intro!: same_sbind transparentD [OF transparent_must_parse] split: prod.split)

lemma transparent_verify_taproot:
  assumes F: "formats_ok C"
  shows "transparent C (verify_taproot C program witness)"
proof -
  have leaf: "transparent C (verify_leaf C program w ctx)" for w ctx
    unfolding verify_leaf_def Let_def
    by (rule transparentI)
      (auto intro!: same_obind same_sbind transparentD [OF transparent_must_parse] transparentD [OF transparent_succeed])
  show ?thesis
    unfolding verify_taproot_def Let_def
    by (rule transparentI) (auto intro!: same_keySpend [OF F] transparentD [OF leaf])
qed

lemma transparent_verifyWitnessProgram:
  assumes F: "formats_ok C"
  shows "transparent C (verifyWitnessProgram C witness)"
proof -
  have accept: "transparent C witnessProgramAcceptStack"
    by (rule transparentI) (auto simp: witnessProgramAcceptStack_def split: list.split)
  have sizes: "transparent C check_sizes"
    by (rule transparentI) (simp add: check_sizes_def GetStack_def Let_def)
  show ?thesis
    unfolding verifyWitnessProgram_def Let_def
    by (rule transparentI)
      (auto intro!: transparentD [OF transparent_sbind] transparent_verify_v0 transparent_verify_taproot [OF F] cache_rules accept sizes)
qed

lemma transparent_CheckErrorCondition: "transparent C (CheckErrorCondition final)"
  unfolding CheckErrorCondition_def
  by (rule transparentI) (auto intro!: transparentD [OF transparent_sbind] cache_rules split: option.split)

lemma transparent_next_script:
  assumes F: "formats_ok C"
  shows "transparent C (next_script C)"
proof (rule transparentI)
  fix vm assume c: "cache_valid C vm"
  have redeem: "transparent C (\<lambda>vm. if vm_savedFirstStack vm = [] then Panic
      else let script = last (vm_savedFirstStack vm) in
        sbind (must_parse script) (\<lambda>_ vm. Ret ((), add_script script (butlast (vm_savedFirstStack vm)) vm)) vm)"
    unfolding Let_def by (rule transparentI) (auto intro!: same_sbind transparentD [OF transparent_must_parse])
  show "same_outcome C (next_script C vm) (next_script C (erase vm))"
    unfolding next_script_def erase_simps erase_update
    using c by (intro same_if same_obind transparentD [OF transparent_verifyWitnessProgram [OF F]]
        transparentD [OF transparent_sbind [OF transparent_CheckErrorCondition redeem]]) (simp_all add: GetStack_def)
qed

lemma transparent_end_script:
  assumes F: "formats_ok C"
  shows "transparent C (end_script C)"
proof (rule transparentI)
  fix vm assume c: "cache_valid C vm"
  show "same_outcome C (end_script C vm) (end_script C (erase vm))"
    unfolding end_script_def erase_simps erase_update
    using c by (intro same_if same_sbind transparentD [OF transparent_next_script [OF F]]) (simp_all add: Let_def)
qed

lemma transparent_Step:
  assumes F: "formats_ok C"
  shows "transparent C (Step C)"
proof (rule transparentI)
  fix vm assume c: "cache_valid C vm"
  obtain got t where N: "tokenizer_Next (vm_tokenizer vm) = (got, t)" by force
  have body: "transparent C (\<lambda>vm. if Depth (vm_dstack vm) + Depth (vm_astack vm) > MaxStackSize then Fail ErrStackOverflow
      else let vm = vm\<lparr>vm_opcodeIdx := vm_opcodeIdx vm + 1\<rparr> in if tokenizer_Done (vm_tokenizer vm) then end_script C vm else Ret (False, vm))"
    by (rule transparentI) (auto simp: Let_def intro!: transparentD [OF transparent_end_script [OF F]])
  have "same_outcome C
      (sbind (executeOpcode C (tokenizer_Opcode t) (slice_bytes (tk_data t))) (\<lambda>_ vm.
          if Depth (vm_dstack vm) + Depth (vm_astack vm) > MaxStackSize then Fail ErrStackOverflow
          else let vm = vm\<lparr>vm_opcodeIdx := vm_opcodeIdx vm + 1\<rparr> in if tokenizer_Done (vm_tokenizer vm) then end_script C vm else Ret (False, vm))
        (vm\<lparr>vm_tokenizer := t\<rparr>))
      (sbind (executeOpcode C (tokenizer_Opcode t) (slice_bytes (tk_data t))) (\<lambda>_ vm.
          if Depth (vm_dstack vm) + Depth (vm_astack vm) > MaxStackSize then Fail ErrStackOverflow
          else let vm = vm\<lparr>vm_opcodeIdx := vm_opcodeIdx vm + 1\<rparr> in if tokenizer_Done (vm_tokenizer vm) then end_script C vm else Ret (False, vm))
        (erase (vm\<lparr>vm_tokenizer := t\<rparr>)))"
    by (rule transparentD [OF transparent_sbind [OF transparent_executeOpcode [OF F] body]]) (simp add: c)
  then show "same_outcome C (Step C vm) (Step C (erase vm))"
    unfolding Step_def checkValidPC_def erase_simps erase_update N prod.case by (simp split: option.split)
qed

section \<open>Whole runs\<close>

lemma run_same:
  assumes F: "formats_ok C"
  shows "cache_valid C vm \<Longrightarrow> \<exists>r. run C vm = Some r \<and> run C (erase vm) = Some (map_outcome id erase r) \<and> (\<forall>vm'. r = Ret vm' \<longrightarrow> cache_valid C vm')"
proof (induction vm rule: wf_induct_rule [OF wf_measures [of "[scripts_left, bytes_left]"]])
  case (1 vm)
  note same = transparentD [OF transparent_Step [OF F] 1(2)]
  show ?case
  proof (cases "Step C vm")
    case (Ret y)
    obtain d vm' where y: "y = (d, vm')" by (cases y)
    have e: "Step C (erase vm) = Ret (d, erase vm')" "cache_valid C vm'" using same Ret y by simp_all
    show ?thesis
    proof (cases d)
      case False
      then have "scripts_left vm' < scripts_left vm \<or> scripts_left vm' = scripts_left vm \<and> bytes_left vm' < bytes_left vm"
        using Step_progress [of C vm vm'] Ret y by simp
      then show ?thesis using 1(1) [of vm'] e Ret y False by (auto simp: run.simps [of C vm] run.simps [of C "erase vm"])
    qed (use e Ret y in \<open>simp add: run.simps [of C vm] run.simps [of C "erase vm"]\<close>)
  qed (use same in \<open>simp_all add: run.simps [of C vm] run.simps [of C "erase vm"]\<close>)
qed

lemma Execute_same:
  assumes "formats_ok C" "cache_valid C vm"
  shows "\<exists>r. Execute C vm = Some r \<and> Execute C (erase vm) = Some (map_outcome id erase r) \<and> (\<forall>vm'. r = Ret vm' \<longrightarrow> cache_valid C vm')"
proof (cases "vm_version vm = 0")
  case True
  obtain r where r: "run C vm = Some r" "run C (erase vm) = Some (map_outcome id erase r)" "\<forall>vm'. r = Ret vm' \<longrightarrow> cache_valid C vm'"
    using run_same [OF assms] by blast
  show ?thesis
  proof (cases r)
    case (Ret vm1)
    have "same_outcome C (CheckErrorCondition True vm1) (CheckErrorCondition True (erase vm1))"
      by (rule transparentD [OF transparent_CheckErrorCondition]) (use r(3) Ret in simp)
    then show ?thesis using r Ret True by (cases "CheckErrorCondition True vm1") (auto simp: Execute_def)
  qed (use r True in \<open>auto simp: Execute_def\<close>)
qed (use assms(2) in \<open>simp add: Execute_def\<close>)

lemma map_obind: "map_outcome id erase (obind r f) = obind r (\<lambda>x. map_outcome id erase (f x))"
  by (cases r) simp_all

lemma obind_map: "obind (map_outcome id erase r) f = obind r (\<lambda>x. f (erase x))"
  by (cases r) simp_all

lemma map_values: "map_outcome id erase (Fail e) = Fail e" "map_outcome id erase (Ret vm) = Ret (erase vm)"
  by simp_all

lemma map_if: "map_outcome id erase (if b then m else n) = (if b then map_outcome id erase m else map_outcome id erase n)"
  by simp

lemma buildWitnessProgram_erase:
  "buildWitnessProgram a b w (erase vm) = map_outcome id erase (buildWitnessProgram a b w vm)"
proof -
  have u: "(erase vm)\<lparr>vm_witnessVersion := v, vm_witnessProgram := p\<rparr> = erase (vm\<lparr>vm_witnessVersion := v, vm_witnessProgram := p\<rparr>)" for v p
    by (simp add: erase_def)
  show ?thesis
    unfolding buildWitnessProgram_def map_obind erase_simps u
    by (intro arg_cong2 [where f = obind] refl ext) (auto split: option.split prod.split)
qed

lemma NewEngine_erase:
  "NewEngine scriptPubKey tx txIdx flags None hashCache amount fetch
    = map_outcome id erase (NewEngine scriptPubKey tx txIdx flags (Some c) hashCache amount fetch)"
proof -
  define sig where "sig = in_SignatureScript (tx_TxIn tx ! txIdx)"
  define vm where "vm = initial_engine [sig, scriptPubKey] tx txIdx flags (Some c) hashCache amount fetch"
  have vm: "initial_engine [sig, scriptPubKey] tx txIdx flags None hashCache amount fetch = erase vm"
    by (simp add: vm_def initial_engine_def erase_def)
  have w: "(if b then if b' then Fail e else map_outcome id erase r else Ret (erase v)) = map_outcome id erase (if b then if b' then Fail e else r else Ret v)"
    for b b' v and e :: engine_error and r by simp
  show ?thesis
    unfolding NewEngine_def Let_def sig_def [symmetric] vm vm_def [symmetric] erase_simps erase_update map_if map_obind map_values
      buildWitnessProgram_erase
    unfolding w obind_map erase_simps erase_update by (rule refl)
qed

lemma NewEngine_sigCache:
  assumes "NewEngine scriptPubKey tx txIdx flags sigCache hashCache amount fetch = Ret vm"
  shows "vm_sigCache vm = sigCache"
proof -
  have b: "vm_sigCache v' = vm_sigCache v" if "buildWitnessProgram s p w v = Ret v'" for s p w v v'
    using that by (rule buildWitnessProgram_Ret) simp
  have "vm_sigCache (initial_engine ss tx txIdx flags sigCache hashCache amount fetch) = sigCache" for ss by (simp add: initial_engine_def)
  then show ?thesis
    using assms unfolding NewEngine_def Let_def
    by (simp add: obind_Ret_iff del: check_scripts.simps split: if_split_asm) (auto dest!: b)
qed

section \<open>The result\<close>

text \<open>
  C5: the signature cache is transparent. For any cache whose entries are valid signatures, making and running the engine for an input with
  the cache gives what it gives without one: the same success, error or panic, and the same engine but for the cache. A run that
  succeeds leaves a cache whose entries are valid signatures, so that the cache can be shared by all inputs that are checked.
\<close>

theorem sig_cache_transparent:
  assumes "formats_ok C" and "\<forall>(h, s, pk)\<in>set (sc_validSigs c). ecdsa_valid C h s pk \<or> schnorr_valid C h s pk"
  shows "NewEngine scriptPubKey tx txIdx flags None hashCache amount fetch
      = map_outcome id erase (NewEngine scriptPubKey tx txIdx flags (Some c) hashCache amount fetch)
    \<and> (\<forall>vm. NewEngine scriptPubKey tx txIdx flags (Some c) hashCache amount fetch = Ret vm \<longrightarrow>
        (\<exists>r. Execute C vm = Some r \<and> Execute C (erase vm) = Some (map_outcome id erase r) \<and> (\<forall>vm'. r = Ret vm' \<longrightarrow> cache_valid C vm')))"
proof (intro conjI allI impI)
  fix vm assume N: "NewEngine scriptPubKey tx txIdx flags (Some c) hashCache amount fetch = Ret vm"
  have "vm_sigCache vm = Some c" by (rule NewEngine_sigCache [OF N])
  then have "cache_valid C vm" using assms(2) by (simp add: cache_valid_def)
  then show "\<exists>r. Execute C vm = Some r \<and> Execute C (erase vm) = Some (map_outcome id erase r) \<and> (\<forall>vm'. r = Ret vm' \<longrightarrow> cache_valid C vm')"
    by (rule Execute_same [OF assms(1)])
qed (rule NewEngine_erase)

theorem sig_cache_transparent_witness:
  "formats_ok toy_crypto \<and> ecdsa_valid toy_crypto zero_hash [] []
    \<and> (\<exists>vm. NewEngine [OP_1] toy_tx 0 0 (Some \<lparr>sc_validSigs = [(zero_hash, [], [])], sc_maxEntries = 1\<rparr>) None 0 (\<lambda>_. None) = Ret vm
      \<and> (\<exists>r. Execute toy_crypto vm = Some r \<and> Execute toy_crypto (erase vm) = Some (map_outcome id erase r)))"
proof -
  have F: "formats_ok toy_crypto" by (simp add: formats_ok_def toy_crypto_def)
  have v: "ecdsa_valid toy_crypto zero_hash [] []" by (simp add: ecdsa_valid_def toy_crypto_def)
  obtain vm where "NewEngine [OP_1] toy_tx 0 0 (Some \<lparr>sc_validSigs = [(zero_hash, [], [])], sc_maxEntries = 1\<rparr>) None 0 (\<lambda>_. None) = Ret vm"
    by (rule toy_engine)
  then show ?thesis
    using F v sig_cache_transparent [OF F, of "\<lparr>sc_validSigs = [(zero_hash, [], [])], sc_maxEntries = 1\<rparr>" "[OP_1]" toy_tx 0 0 None 0 "\<lambda>_. None"]
    by auto
qed

end
