(* ===== verification/Spec2Isabelle.thy ===== *)
theory Spec2Isabelle
  imports Workmath Sugar_Query Db_Cache Merkle Write_Queue Sig_Cache
begin

text \<open>
  A verification library for the Sugarchain full node, the Go sources under \<open>src/backend\<close>.

  \<^bold>\<open>The program.\<close> A node receives transactions and blocks from the network (\<open>wire\<close>), checks them (\<open>blockchain\<close>, with the
  script engine of \<open>txscript\<close> for every input), keeps the set of unspent outputs in a cache over rows of a key-value database
  (\<open>blockchain/utxocache.go\<close>, \<open>chainio.go\<close>, \<open>compress.go\<close>), and writes to that database from a goroutine with a queue
  (\<open>writequeue.go\<close>). The database (\<open>database/ffldb\<close>) is LevelDB behind a cache of two treaps
  (\<open>database/internal/treap\<close>). Beside the chain an index by address, spent output and time (\<open>sugarindex\<close>), with a LevelDB of
  its own, is updated with every connected and disconnected block and answers the queries of the RPC server.

  \<^bold>\<open>Conventions.\<close> Go's unsigned integers are words of their width, and its signed ones words or \<^typ>\<open>int\<close> with the wrap-around
  written out (\<open>wrap32\<close>, \<open>wrap64\<close>). A byte slice is a list of bytes. Where nil and empty differ, a slice is an option. A struct is a
  record with the fields of the source, an operation takes the record and returns the updated one. A result is an \<open>outcome\<close>, with \<open>Ret\<close>,
  \<open>Fail\<close> for a returned error and \<open>Panic\<close> for a run-time panic; where a part has only errors or only panics it is a sum
  or an option. Code that is not among the sources is a parameter: SHA-256 and the other hash functions, the curve (the record
  \<open>crypto\<close>), LevelDB (a record of operations whose laws are the assumptions of the locales \<open>leveldb_spec\<close> and \<open>ldb_spec\<close>, both
  interpreted on red-black trees), the random numbers of the treap and of the eviction from the signature cache, the clock.

  \<^bold>\<open>Shared.\<close>
  \<^item> \<open>Prelude\<close>: machine types, little-endian byte strings, outcomes, prefix-free codes (locale \<open>prefix_code\<close>).
  \<^item> \<open>Workmath\<close>: \<open>blockchain/internal/workmath/difficulty.go\<close>. Compact targets are inverse to big ones up to the digits dropped.

  \<^bold>\<open>Scripts\<close> (\<open>txscript\<close>).
  \<^item> \<open>Script_Tokenizer\<close>: \<open>tokenizer.go\<close>; the loops over a script's opcodes in the other files are \<open>for_next\<close>.
  \<^item> \<open>Script_Analysis\<close>: \<open>script.go\<close> and the classification in \<open>standard.go\<close>. The forms of scripts exclude each other, witness programs are
    characterised, the counts of signature operations are bounded, and \<open>CalcScriptInfo\<close> can panic.
  \<^item> \<open>Script_Stack\<close>, \<open>Script_Builder\<close>: \<open>scriptnum.go\<close>, \<open>stack.go\<close>, \<open>scriptbuilder.go\<close>. Numbers and their minimal encodings are in bijection;
    a push that the builder appends is read back by the tokenizer.
  \<^item> \<open>Sig_Hash\<close>, \<open>Sig_Check\<close>: \<open>sighash.go\<close>, \<open>hashcache.go\<close>, \<open>sigvalidate.go\<close>, \<open>sigcache.go\<close>, \<open>taproot.go\<close>, and the
    encoding checks of \<open>engine.go\<close>. The record \<open>engine\<close> is the struct of that name.
  \<^item> \<open>Opcodes\<close>, \<open>Script_Engine\<close>: every handler of \<open>opcode.go\<close>, and \<open>engine.go\<close> from \<open>NewEngine\<close> to \<open>Execute\<close>. \<open>Step\<close> is split into
    \<open>end_script\<close> and \<open>next_script\<close>, and \<open>verifyWitnessProgram\<close> into one definition for each kind of program.
  \<^item> \<open>Engine_Frame\<close>, \<open>Engine_Run\<close>, \<open>Engine_Safety\<close>: Hoare triples for the handlers; every run returns; a well-formed engine
    steps to a well-formed one, and checking an input never panics.
  \<^item> \<open>Sig_Cache\<close>: with a cache of valid signatures every run gives what it gives without.

  \<^bold>\<open>Messages\<close> (\<open>wire\<close>).
  \<^item> \<open>Wire_Common\<close>, \<open>Wire_Tx\<close>, \<open>Wire_Block\<close>: \<open>common.go\<close>, \<open>msgtx.go\<close>, \<open>blockheader.go\<close>, \<open>msgblock.go\<close>. A format is an interpretation of the locale
    \<open>wire_format\<close>: decoding succeeds on exactly the encodings and inverts them. Sizes are those of the encodings, and the locations
    of a block's transactions are where they are.

  \<^bold>\<open>Chain state\<close> (\<open>blockchain\<close>).
  \<^item> \<open>Merkle\<close>: \<open>merkle.go\<close>, \<open>rolling_merkle.go\<close>. The array, the rolling store and the recursive definition give the same root.
  \<^item> \<open>Compress\<close>, \<open>Chain_Db\<close>, \<open>Chain_Rows\<close>: \<open>compress.go\<close>, \<open>chainio.go\<close>. Amounts, scripts and rows are read back as they were written.
  \<^item> \<open>Utxo_Entry\<close>, \<open>Utxo_Cache\<close>: \<open>utxoviewpoint.go\<close>, \<open>utxocache.go\<close>. The slice of maps behaves as one map (locale \<open>entry_store\<close>);
    connecting a block refines spending and adding on the set of coins; a flush stores that set.
  \<^item> \<open>Write_Queue\<close>: \<open>writequeue.go\<close> as a step relation; in every reachable state the rows are those of the items written so far.

  \<^bold>\<open>Database\<close> (\<open>database\<close>).
  \<^item> \<open>Treap\<close>, \<open>Treap_Iterator\<close>: \<open>mutable.go\<close>, \<open>immutable.go\<close>, \<open>treapiter.go\<close>. A treap refines a finite map (locale \<open>ordered_store\<close>); an
    iterator yields the keys of its range in order.
  \<^item> \<open>Db_Cache\<close>: \<open>ffldb/dbcache.go\<close> and the transactions of \<open>ffldb/db.go\<close>. Transactions are atomic, closing persists the cache.

  \<^bold>\<open>Index\<close> (\<open>sugarindex\<close>).
  \<^item> \<open>Sugar_Serialize\<close>, \<open>Sugar_Db\<close>, \<open>Sugar_Indexer\<close>, \<open>Sugar_Query\<close>: \<open>serialize.go\<close> and \<open>types.go\<close>, \<open>db.go\<close>, \<open>indexer.go\<close>, \<open>rpc.go\<close>. Disconnecting
    a block undoes connecting it, the queries return exactly the rows of an address, the rebuild does not depend on the order in which
    its workers deliver; and where they fail to, with the conditions.

  \<^bold>\<open>Recursion and fuel.\<close> Loops are structural or carry a termination proof. Exceptions:
  \<^item> \<open>run\<close> (the engine) and \<open>row_loop\<close> (the rolling Merkle root) are partial functions; both are proved to return, \<open>run\<close> by the
    scripts and bytes that are left.
  \<^item> \<open>collect\<close>, which runs an iterator to its end, takes fuel; one more than the number of entries is enough.
  \<^item> \<open>shift_loop\<close> has the 64 steps that a 64-bit word can be shifted; \<open>strip_zeros\<close> the nine decimal exponents of the code.

  \<^bold>\<open>Not modelled.\<close> The rules for blocks and the choice of the best chain, the block index in memory, the memory pool, mining,
  synchronisation, peers, RPC, wallet, start-up and tools. Locks are not modelled: an operation is one step, and the interleavings
  that are considered are those of the write queue and of snapshots with a flush. Logs, metrics, buffer pools and the text of error
  messages are left out.
\<close>

end
